(* ===== verification/Prelude.thy ===== *)
theory Prelude
  imports Main "HOL-Library.Word"
begin

text \<open>
  The vocabulary the components share: the faults that stand for undefined behaviour of
  the C code, the result type with its sequencing operator, checked array access, C
  strings as byte arrays, bounded loops with early exit, and the byte order helpers.

  A C function that can run into undefined behaviour (an array index out of range, a
  freed or null pointer, a lock taken twice by one thread, a division by zero) returns
  \<open>Inl\<close> of the fault, and \<open>Inr\<close> of its result otherwise.  Error codes that
  the C code returns are ordinary values, never faults.
\<close>

unbundle bit_operations_syntax

section \<open>Collections of simplification rules\<close>

named_theorems run_simps \<open>evaluation of the result monad and of checked accesses\<close>
named_theorems cstr_simps \<open>C string functions on terminated arrays\<close>

section \<open>Types and constants of constants.h\<close>

type_synonym byte = "8 word"
type_synonym addr = nat

definition MAX_CATEGORIES_BY_TRUST_LVL :: nat where "MAX_CATEGORIES_BY_TRUST_LVL = 64"
definition MAX_DOMAINS :: nat where "MAX_DOMAINS = 64"
definition MAX_IP4 :: nat where "MAX_IP4 = 1024"
definition MAX_IP6 :: nat where "MAX_IP6 = 1024"
definition IP6_LEN :: nat where "IP6_LEN = 16"
definition DOMAIN_MAX_LEN :: nat where "DOMAIN_MAX_LEN = 260"
definition MAX_CATEGORIES :: nat where "MAX_CATEGORIES = 100"
definition CATEGORY_MAX_LEN :: nat where "CATEGORY_MAX_LEN = 64"

lemmas size_defs =
  MAX_CATEGORIES_BY_TRUST_LVL_def MAX_DOMAINS_def MAX_IP4_def MAX_IP6_def IP6_LEN_def
  DOMAIN_MAX_LEN_def MAX_CATEGORIES_def CATEGORY_MAX_LEN_def

lemma sizes_pos [simp]:
  "0 < MAX_CATEGORIES_BY_TRUST_LVL" "0 < MAX_DOMAINS" "0 < MAX_IP4" "0 < MAX_IP6" "0 < IP6_LEN"
  "0 < DOMAIN_MAX_LEN" "0 < MAX_CATEGORIES" "0 < CATEGORY_MAX_LEN"
  "MAX_CATEGORIES_BY_TRUST_LVL < MAX_CATEGORIES"
  by (simp_all add: size_defs)

text \<open>The error numbers the code names, with their Linux values.\<close>

abbreviation ENOENT :: int where "ENOENT \<equiv> 2"
abbreviation ENOMEM :: int where "ENOMEM \<equiv> 12"
abbreviation EINVAL :: int where "EINVAL \<equiv> 22"

section \<open>Faults and results\<close>

datatype fault =
    OutOfBounds    \<comment> \<open>read or write outside an array\<close>
  | NullDeref      \<comment> \<open>access through a null pointer\<close>
  | UseAfterFree   \<comment> \<open>access to a block that is not allocated\<close>
  | BadFree        \<comment> \<open>free of a block that is not allocated\<close>
  | Deadlock       \<comment> \<open>a spinlock taken by the thread that holds it\<close>
  | DivByZero

type_synonym 'a res = "fault + 'a"

definition rbind :: "'a res \<Rightarrow> ('a \<Rightarrow> 'b res) \<Rightarrow> 'b res" where
  "rbind m f = (case m of Inl e \<Rightarrow> Inl e | Inr x \<Rightarrow> f x)"

lemma rbind_Inl [simp, run_simps]: "rbind (Inl e) f = Inl e"
  by (simp add: rbind_def)

lemma rbind_Inr [simp, run_simps]: "rbind (Inr x) f = f x"
  by (simp add: rbind_def)

lemma rbind_eq_Inr_iff: "rbind m f = Inr y \<longleftrightarrow> (\<exists>x. m = Inr x \<and> f x = Inr y)"
  by (cases m) auto

lemma rbind_eq_Inl_iff:
  "rbind m f = Inl e \<longleftrightarrow> m = Inl e \<or> (\<exists>x. m = Inr x \<and> f x = Inl e)"
  by (cases m) auto

lemma rbind_assoc: "rbind (rbind m f) g = rbind m (\<lambda>x. rbind (f x) g)"
  by (cases m) auto

lemma rbind_if: "rbind (if b then m else n) f = (if b then rbind m f else rbind n f)"
  by simp

lemma rbind_cong [fundef_cong]:
  "m = m' \<Longrightarrow> (\<And>x. m' = Inr x \<Longrightarrow> f x = f' x) \<Longrightarrow> rbind m f = rbind m' f'"
  by (cases m') auto

section \<open>Checked array access\<close>

definition rget :: "'a list \<Rightarrow> nat \<Rightarrow> 'a res" where
  "rget xs i = (if i < length xs then Inr (xs ! i) else Inl OutOfBounds)"

definition rset :: "'a list \<Rightarrow> nat \<Rightarrow> 'a \<Rightarrow> 'a list res" where
  "rset xs i v = (if i < length xs then Inr (xs[i := v]) else Inl OutOfBounds)"

text \<open>\<open>rslice xs i n\<close> reads the \<open>n\<close> elements at \<open>i\<close>; \<open>rblit xs i ys\<close> writes
  \<open>ys\<close> there (the two halves of \<open>memcpy\<close>).\<close>

definition rslice :: "'a list \<Rightarrow> nat \<Rightarrow> nat \<Rightarrow> 'a list res" where
  "rslice xs i n = (if i + n \<le> length xs then Inr (take n (drop i xs)) else Inl OutOfBounds)"

definition rblit :: "'a list \<Rightarrow> nat \<Rightarrow> 'a list \<Rightarrow> 'a list res" where
  "rblit xs i ys =
     (if i + length ys \<le> length xs then Inr (take i xs @ ys @ drop (i + length ys) xs)
      else Inl OutOfBounds)"

lemma rget_Inr [simp, run_simps]: "i < length xs \<Longrightarrow> rget xs i = Inr (xs ! i)"
  by (simp add: rget_def)

lemma rget_Inl [simp, run_simps]: "length xs \<le> i \<Longrightarrow> rget xs i = Inl OutOfBounds"
  by (simp add: rget_def)

lemma rslice_Inr [simp, run_simps]: "i + n \<le> length xs \<Longrightarrow> rslice xs i n = Inr (take n (drop i xs))"
  by (simp add: rslice_def)

lemma rblit_Inr [simp, run_simps]:
  "i + length ys \<le> length xs \<Longrightarrow> rblit xs i ys = Inr (take i xs @ ys @ drop (i + length ys) xs)"
  by (simp add: rblit_def)

lemma rblit_Inl [simp, run_simps]: "length xs < i + length ys \<Longrightarrow> rblit xs i ys = Inl OutOfBounds"
  by (simp add: rblit_def)

lemma rset_Inr [simp, run_simps]: "i < length xs \<Longrightarrow> rset xs i v = Inr (xs[i := v])"
  by (simp add: rset_def)

lemma rset_Inl [simp, run_simps]: "length xs \<le> i \<Longrightarrow> rset xs i v = Inl OutOfBounds"
  by (simp add: rset_def)

lemma rget_eq_Inr_iff: "rget xs i = Inr v \<longleftrightarrow> i < length xs \<and> v = xs ! i"
  by (auto simp: rget_def)

lemma rslice_eq_Inr_iff: "rslice xs i n = Inr v \<longleftrightarrow> i + n \<le> length xs \<and> v = take n (drop i xs)"
  by (auto simp: rslice_def)

lemma rblit_length: "rblit xs i ys = Inr zs \<Longrightarrow> length zs = length xs"
  by (auto simp: rblit_def split: if_splits)

lemma rset_length: "rset xs i v = Inr zs \<Longrightarrow> length zs = length xs"
  by (auto simp: rset_def split: if_splits)

text \<open>Reading a heap block through its address.\<close>

definition deref :: "(addr \<rightharpoonup> 'n) \<Rightarrow> addr \<Rightarrow> 'n res" where
  "deref heap a = (case heap a of None \<Rightarrow> Inl UseAfterFree | Some n \<Rightarrow> Inr n)"

lemma deref_Some [simp, run_simps]: "heap a = Some n \<Longrightarrow> deref heap a = Inr n"
  by (simp add: deref_def)

section \<open>Loops\<close>

text \<open>
  \<open>c_for ks body\<close> is a C \<open>for\<close> loop over the index list \<open>ks\<close> whose body may
  \<open>break\<close> or \<open>return\<close>: \<open>None\<close> when the loop is left without a \<open>return\<close>,
  \<open>Some r\<close> for \<open>return r\<close>.  \<open>c_fold\<close> threads a state through the loop.
\<close>

datatype 'r ctl = Continue | Break | Return 'r

fun c_for :: "'i list \<Rightarrow> ('i \<Rightarrow> 'r ctl res) \<Rightarrow> 'r option res" where
  "c_for [] body = Inr None"
| "c_for (i # ks) body =
     rbind (body i) (\<lambda>c. case c of
        Continue \<Rightarrow> c_for ks body
      | Break \<Rightarrow> Inr None
      | Return r \<Rightarrow> Inr (Some r))"

fun c_fold :: "'i list \<Rightarrow> ('i \<Rightarrow> 's \<Rightarrow> 's res) \<Rightarrow> 's \<Rightarrow> 's res" where
  "c_fold [] body s = Inr s"
| "c_fold (i # ks) body s = rbind (body i s) (c_fold ks body)"

lemma c_for_cong [fundef_cong]:
  "ks = js \<Longrightarrow> (\<And>i. i \<in> set js \<Longrightarrow> body i = body' i) \<Longrightarrow> c_for ks body = c_for js body'"
proof (induction js arbitrary: ks)
  case Nil
  then show ?case by simp
next
  case (Cons j js)
  then have "c_for js body = c_for js body'" by simp
  with Cons.prems show ?case by simp
qed

lemma c_fold_append: "c_fold (ks @ js) body s = rbind (c_fold ks body s) (c_fold js body)"
  by (induction ks arbitrary: s) (auto simp: rbind_assoc rbind_def split: sum.splits)

text \<open>A loop that rewrites the first rows of a table, one per iteration.\<close>

definition row_update :: "(nat \<Rightarrow> 'a \<Rightarrow> 'a res) \<Rightarrow> nat \<Rightarrow> 'a list \<Rightarrow> 'a list res" where
  "row_update f i t = rbind (rget t i) (\<lambda>row. rbind (f i row) (rset t i))"

lemma c_fold_rows:
  assumes "n \<le> length t" "\<And>i. i < n \<Longrightarrow> f i (t ! i) = Inr (g i)"
  shows "c_fold [0..<n] (row_update f) t = Inr (map g [0..<n] @ drop n t)"
  using assms
proof (induction n)
  case (Suc n)
  then have "(map g [0..<n] @ drop n t) ! n = t ! n" "n < length t"
    by (simp_all add: nth_append)
  moreover have "(map g [0..<n] @ drop n t)[n := g n] = map g [0..<Suc n] @ drop (Suc n) t"
    using Suc.prems(1) by (simp add: list_update_append Cons_nth_drop_Suc [symmetric])
  ultimately show ?case
    using Suc by (simp add: c_fold_append) (simp add: row_update_def)
qed simp

lemma c_fold_rows_overrun:
  assumes "length t < n" "\<And>i. i < length t \<Longrightarrow> f i (t ! i) = Inr (g i)"
  shows "c_fold [0..<n] (row_update f) t = Inl OutOfBounds"
proof -
  have "[0..<n] = [0..<length t] @ length t # [Suc (length t)..<n]"
    using upt_add_eq_append [of 0 "length t" "n - length t"] assms(1) by (simp add: upt_conv_Cons)
  then show ?thesis
    using c_fold_rows [of "length t" t f g] assms(2)
    by (simp add: c_fold_append row_update_def)
qed

text \<open>
  A linear search: the body returns \<open>r\<close> at the first index with \<open>p\<close> and leaves the
  loop at the first index with \<open>q\<close>, whichever comes first (\<open>q\<close> is tested first).
\<close>

lemma c_for_search:
  assumes "\<And>i. i \<in> set ks \<Longrightarrow>
     body i = Inr (if q i then Break else if p i then Return r else Continue)"
  shows "c_for ks body = Inr (if \<exists>i \<in> set (takeWhile (\<lambda>i. \<not> q i) ks). p i then Some r else None)"
  using assms
proof (induction ks)
  case Nil
  then show ?case by simp
next
  case (Cons i ks)
  then have "c_for ks body = Inr (if \<exists>i \<in> set (takeWhile (\<lambda>i. \<not> q i) ks). p i then Some r else None)"
    by simp
  with Cons.prems [of i] show ?case by auto
qed

text \<open>The same search without a sentinel.\<close>

lemma c_for_any:
  assumes "\<And>i. i \<in> set ks \<Longrightarrow> body i = Inr (if p i then Return r else Continue)"
  shows "c_for ks body = Inr (if \<exists>i \<in> set ks. p i then Some r else None)"
  using assms by (induction ks) auto

text \<open>Index loops over an array, read as statements about its elements.\<close>

lemma takeWhile_upt_nth:
  "set (map ((!) xs) (takeWhile (\<lambda>i. P (xs ! i)) [0..<length xs])) = set (takeWhile P xs)"
proof -
  have "map ((!) xs) (takeWhile (P \<circ> (!) xs) [0..<length xs]) = takeWhile P (map ((!) xs) [0..<length xs])"
    by (rule takeWhile_map [symmetric])
  then show ?thesis by (simp add: map_nth comp_def)
qed

lemma ex_takeWhile_upt:
  "n = length xs \<Longrightarrow>
   (\<exists>i \<in> set (takeWhile (\<lambda>i. P (xs ! i)) [0..<n]). Q (xs ! i)) \<longleftrightarrow> (\<exists>x \<in> set (takeWhile P xs). Q x)"
  unfolding takeWhile_upt_nth [of xs P, symmetric] by simp

lemma ex_upt_nth: "n = length xs \<Longrightarrow> (\<exists>i \<in> set [0..<n]. Q (xs ! i)) \<longleftrightarrow> (\<exists>x \<in> set xs. Q x)"
  by (auto simp: Bex_def in_set_conv_nth)

text \<open>A search that faults at an index unless it has returned before.\<close>

lemma c_for_any_fault:
  assumes "\<And>i. i \<in> set ks \<Longrightarrow> body i = Inr (if p i then Return r else Continue)"
    and "body k = Inl e"
  shows "c_for (ks @ k # js) body = (if \<exists>i \<in> set ks. p i then Inr (Some r) else Inl e)"
  using assms by (induction ks) auto

lemma upt_split: "n < m \<Longrightarrow> [0..<m] = [0..<n] @ n # [Suc n..<m]"
  using upt_add_eq_append [of 0 n "m - n"] by (simp add: upt_conv_Cons)

section \<open>C strings in byte arrays\<close>

definition nul_term :: "byte list \<Rightarrow> bool" where
  "nul_term a \<longleftrightarrow> 0 \<in> set a"

definition cstr :: "byte list \<Rightarrow> byte list" where
  "cstr a = takeWhile (\<lambda>b. b \<noteq> 0) a"

text \<open>\<open>strcmp\<close>: the sign follows the first differing byte; running off either array is a fault.\<close>

fun c_strcmp :: "byte list \<Rightarrow> byte list \<Rightarrow> int res" where
  "c_strcmp (x # xs) (y # ys) =
     (if x \<noteq> y then Inr (uint x - uint y) else if x = 0 then Inr 0 else c_strcmp xs ys)"
| "c_strcmp _ _ = Inl OutOfBounds"

text \<open>
  \<open>strncpy (dst, src, n)\<close>: up to \<open>n\<close> bytes of \<open>src\<close>, padded with zero bytes when
  \<open>src\<close> ends earlier; the rest of \<open>dst\<close> is unchanged.
\<close>

fun strncpy_bytes :: "byte list \<Rightarrow> nat \<Rightarrow> byte list res" where
  "strncpy_bytes src 0 = Inr []"
| "strncpy_bytes [] (Suc n) = Inl OutOfBounds"
| "strncpy_bytes (x # xs) (Suc n) =
     (if x = 0 then Inr (replicate (Suc n) 0)
      else rbind (strncpy_bytes xs n) (\<lambda>ys. Inr (x # ys)))"

definition c_strncpy :: "byte list \<Rightarrow> byte list \<Rightarrow> nat \<Rightarrow> byte list res" where
  "c_strncpy dst src n = rbind (strncpy_bytes src n) (rblit dst 0)"

lemma nul_term_Cons [simp]: "nul_term (x # xs) \<longleftrightarrow> x = 0 \<or> nul_term xs"
  by (auto simp: nul_term_def)

lemma nul_term_Nil [simp]: "\<not> nul_term []"
  by (simp add: nul_term_def)

lemma cstr_Cons [simp]: "cstr (x # xs) = (if x = 0 then [] else x # cstr xs)"
  by (simp add: cstr_def)

lemma cstr_Nil [simp]: "cstr [] = []"
  by (simp add: cstr_def)

lemma cstr_replicate [simp]: "cstr (replicate n 0) = []"
  by (cases n) auto

lemma cstr_no_nul: "0 \<notin> set (cstr a)"
  by (auto simp: cstr_def dest: set_takeWhileD)

lemma cstr_id: "0 \<notin> set a \<Longrightarrow> cstr a = a"
  by (auto simp: cstr_def takeWhile_eq_all_conv)

lemma cstr_append_nul: "0 \<notin> set a \<Longrightarrow> cstr (a @ 0 # b) = a"
  by (induction a) auto

lemma length_cstr_less: "nul_term a \<Longrightarrow> length (cstr a) < length a"
  by (induction a) auto

lemma length_cstr_le: "length (cstr a) \<le> length a"
  by (simp add: cstr_def length_takeWhile_le)

lemma cstr_empty_iff: "a \<noteq> [] \<Longrightarrow> cstr a = [] \<longleftrightarrow> a ! 0 = 0"
  by (cases a) auto

lemma c_strcmp_term:
  "nul_term a \<Longrightarrow> nul_term b \<Longrightarrow> \<exists>r. c_strcmp a b = Inr r \<and> (r = 0 \<longleftrightarrow> cstr a = cstr b)"
proof (induction a b rule: c_strcmp.induct)
  case (1 x xs y ys)
  then show ?case by (auto simp: word_uint_eq_iff)
qed auto

lemma c_strcmp_eq_0 [cstr_simps]:
  assumes "nul_term a" "nul_term b"
  shows "rbind (c_strcmp a b) (\<lambda>r. if r = 0 then f else g) = (if cstr a = cstr b then f else g)"
  using c_strcmp_term [OF assms] by auto

lemma strncpy_bytes_term:
  "nul_term src \<Longrightarrow>
   strncpy_bytes src n = Inr (take n (cstr src) @ replicate (n - length (cstr src)) 0)"
  by (induction src n rule: strncpy_bytes.induct) auto

lemma strncpy_bytes_length: "strncpy_bytes src n = Inr ys \<Longrightarrow> length ys = n"
  by (induction src n arbitrary: ys rule: strncpy_bytes.induct)
    (auto simp: rbind_eq_Inr_iff split: if_splits)

lemma c_strncpy_term [cstr_simps]:
  "nul_term src \<Longrightarrow> n \<le> length dst \<Longrightarrow>
   c_strncpy dst src n = Inr (take n (cstr src) @ replicate (n - length (cstr src)) 0 @ drop n dst)"
  by (cases "n \<le> length (cstr src)") (simp_all add: c_strncpy_def strncpy_bytes_term min_def)

lemma cstr_pad: "0 \<notin> set xs \<Longrightarrow> 0 < n \<Longrightarrow> cstr (xs @ replicate n 0 @ ys) = xs"
  by (induction xs) (cases n, auto)

text \<open>A string literal of the source, with its terminator; \<open>memcmp (a, b, n) == 0\<close>.\<close>

definition c_lit :: "string \<Rightarrow> byte list" where
  "c_lit s = map of_char s @ [0]"

definition c_memeq :: "byte list \<Rightarrow> byte list \<Rightarrow> nat \<Rightarrow> bool res" where
  "c_memeq a b n = rbind (rslice a 0 n) (\<lambda>x. rbind (rslice b 0 n) (\<lambda>y. Inr (x = y)))"

lemma nul_term_c_lit [simp]: "nul_term (c_lit s)"
  by (simp add: nul_term_def c_lit_def)

lemma c_memeq_full [cstr_simps]:
  "length a = n \<Longrightarrow> length b = n \<Longrightarrow> c_memeq a b n = Inr (a = b)"
  by (simp add: c_memeq_def)

section \<open>Byte order\<close>

text \<open>
  The build targets are little-endian (x86-64 and riscv64), so a 16 or 32 bit load reads
  the low byte first, and the conversions between CPU and network order swap bytes.
\<close>

definition load16 :: "byte list \<Rightarrow> nat \<Rightarrow> 16 word res" where
  "load16 b i = rbind (rslice b i 2) (\<lambda>bs. Inr (word_rcat (rev bs)))"

definition load32 :: "byte list \<Rightarrow> nat \<Rightarrow> 32 word res" where
  "load32 b i = rbind (rslice b i 4) (\<lambda>bs. Inr (word_rcat (rev bs)))"

definition bytes16 :: "16 word \<Rightarrow> byte list" where
  "bytes16 w = [ucast w, ucast (drop_bit 8 w)]"

definition bytes32 :: "32 word \<Rightarrow> byte list" where
  "bytes32 w = [ucast w, ucast (drop_bit 8 w), ucast (drop_bit 16 w), ucast (drop_bit 24 w)]"

definition bswap16 :: "16 word \<Rightarrow> 16 word" where
  "bswap16 w = push_bit 8 w OR drop_bit 8 w"

lemma load16_at: "length bs = 2 \<Longrightarrow> i = length pre \<Longrightarrow> load16 (pre @ bs @ post) i = Inr (word_rcat (rev bs))"
  by (simp add: load16_def)

lemma load32_at: "length bs = 4 \<Longrightarrow> i = length pre \<Longrightarrow> load32 (pre @ bs @ post) i = Inr (word_rcat (rev bs))"
  by (simp add: load32_def)

lemma length_bytes16 [simp]: "length (bytes16 w) = 2"
  by (simp add: bytes16_def)

lemma length_bytes32 [simp]: "length (bytes32 w) = 4"
  by (simp add: bytes32_def)

lemma bswap16_bswap16 [simp]: "bswap16 (bswap16 w) = w"
  unfolding bswap16_def by (rule bit_word_eqI) (auto simp: bit_simps)

lemma bswap16_inject [simp]: "bswap16 a = bswap16 b \<longleftrightarrow> a = b"
  by (metis bswap16_bswap16)

lemma unat_ucast_16_32 [simp]: "unat (ucast (w :: 16 word) :: 32 word) = unat w"
proof -
  have "unat w < 2 ^ 32"
    using unsigned_less [of w, where ?'a = nat] by simp
  then show ?thesis by (simp add: unsigned_ucast_eq take_bit_nat_eq_self)
qed

end
