(* ===== verification/Types.thy ===== *)
theory Types
  imports Prelude
begin

text \<open>
  The data of \<open>include/dpdk_filter/types.h\<close>.  Each C struct is a record with the fields
  of the source; a fixed-size \<open>char\<close> or \<open>uint8_t\<close> array is a byte list, and the
  well-formedness predicates below say that it has the declared length.  C \<open>int\<close> fields
  are only stored, compared and converted, never computed with, so they are integers here.
  A pointer that may be null is an address option.
\<close>

section \<open>Enumerations\<close>

text \<open>\<open>enum ip_version\<close>: the values the parser stores in \<open>info_of_pakage.ip_version\<close>.\<close>

definition IP_4 :: byte where "IP_4 = 1"
definition IP_6 :: byte where "IP_6 = 2"

datatype load_result = LOAD_OK | LOAD_EXPIRED | LOAD_ERROR

section \<open>Structures\<close>

record net_port =
  port_id :: "16 word"
  iface_name :: "byte list"
  dev_name :: "byte list"
  dev_args :: "byte list"
  mbuf_pool :: "addr option"
  mac_addr :: "byte list"
  neighbor_mac :: "byte list"
  neighbor_learned :: bool

record info_of_pakage =
  ethernet_type_host :: "16 word"
  ethernet_type_protocol :: "16 word"
  number_port :: "16 word"
  domain :: "byte list"
  ip_version :: byte
  ip4_src :: "32 word"
  ip4_dist :: "32 word"
  ip6_src :: "byte list"
  ip6_dist :: "byte list"

record trust_categories_with_lvl =
  locked_by_trust_category :: "byte list"
  lvl_trust_lvl :: int

record BASE_POLICY =
  locked_categories :: "byte list list"
  categories_with_lvl :: "trust_categories_with_lvl list"
  ttl_ip :: int
  ttl_domain :: int
  block_domains :: "byte list list"
  allow_domains :: "byte list list"
  block_ip4 :: "32 word list"
  allow_ip4 :: "32 word list"
  block_ip6 :: "byte list list"
  allow_ip6 :: "byte list list"
  min_trust_level :: int

record requested_classification =
  get_categories :: "byte list list"
  get_trust_level :: int

text \<open>\<open>memset (&info_pac, 0, sizeof (info_pac))\<close>.\<close>

definition zero_info :: info_of_pakage where
  "zero_info =
     \<lparr>ethernet_type_host = 0, ethernet_type_protocol = 0, number_port = 0,
      domain = replicate DOMAIN_MAX_LEN 0, ip_version = 0, ip4_src = 0, ip4_dist = 0,
      ip6_src = replicate IP6_LEN 0, ip6_dist = replicate IP6_LEN 0\<rparr>"

text \<open>
  The two cache node structs share their first fields, in this order; each adds its own
  pointer to the heap copy of the hash key.  The domain node also has three address fields,
  which no function of the program reads.
\<close>

record node_cache =
  categories :: "byte list list"
  solution_is_send :: bool
  trust_lvl :: int
  timestamp :: "64 word"
  ttl_seconds :: "32 word"

record node_cache_ip = node_cache +
  key :: "addr option"

record node_cache_domain = node_cache +
  node_ip :: byte
  node_ip4_src :: "32 word"
  node_ip6_src :: "byte list"
  key_domain :: "addr option"

text \<open>
  \<open>struct ip_key\<close>: the version tag and the bytes of the address union.  The hash compares
  all of them, so the bytes of the union that an IPv4 key does not use are part of the key.
\<close>

record ip_key =
  version :: int
  addr_bytes :: "byte list"

definition zero_ip_key :: ip_key where
  "zero_ip_key = \<lparr>version = 0, addr_bytes = replicate IP6_LEN 0\<rparr>"

definition set_ip4 :: "ip_key \<Rightarrow> 32 word \<Rightarrow> ip_key" where
  "set_ip4 k a = k\<lparr>addr_bytes := bytes32 a @ drop 4 (addr_bytes k)\<rparr>"

definition set_ip6 :: "ip_key \<Rightarrow> byte list \<Rightarrow> ip_key" where
  "set_ip6 k bs = k\<lparr>addr_bytes := take IP6_LEN bs\<rparr>"

text \<open>\<open>rte_calloc\<close> of the two nodes.\<close>

definition zero_node_ip :: node_cache_ip where
  "zero_node_ip =
     \<lparr>categories = replicate MAX_CATEGORIES (replicate CATEGORY_MAX_LEN 0),
      solution_is_send = False, trust_lvl = 0, timestamp = 0, ttl_seconds = 0, key = None\<rparr>"

definition zero_node_domain :: node_cache_domain where
  "zero_node_domain =
     \<lparr>categories = replicate MAX_CATEGORIES (replicate CATEGORY_MAX_LEN 0),
      solution_is_send = False, trust_lvl = 0, timestamp = 0, ttl_seconds = 0,
      node_ip = 0, node_ip4_src = 0, node_ip6_src = replicate IP6_LEN 0, key_domain = None\<rparr>"

section \<open>Well-formed values\<close>

text \<open>An \<open>n\<close> by \<open>m\<close> table of C strings: \<open>n\<close> rows of \<open>m\<close> bytes, each terminated.\<close>

definition string_table :: "nat \<Rightarrow> nat \<Rightarrow> byte list list \<Rightarrow> bool" where
  "string_table n m t \<longleftrightarrow> length t = n \<and> list_all (\<lambda>r. length r = m \<and> nul_term r) t"

definition wf_info :: "info_of_pakage \<Rightarrow> bool" where
  "wf_info p \<longleftrightarrow>
     length (domain p) = DOMAIN_MAX_LEN \<and> nul_term (domain p) \<and>
     length (ip6_src p) = IP6_LEN \<and> length (ip6_dist p) = IP6_LEN"

definition wf_policy :: "BASE_POLICY \<Rightarrow> bool" where
  "wf_policy p \<longleftrightarrow>
     string_table MAX_CATEGORIES CATEGORY_MAX_LEN (locked_categories p) \<and>
     string_table MAX_CATEGORIES_BY_TRUST_LVL CATEGORY_MAX_LEN
       (map locked_by_trust_category (categories_with_lvl p)) \<and>
     string_table MAX_DOMAINS DOMAIN_MAX_LEN (block_domains p) \<and>
     string_table MAX_DOMAINS DOMAIN_MAX_LEN (allow_domains p) \<and>
     length (block_ip4 p) = MAX_IP4 \<and> length (allow_ip4 p) = MAX_IP4 \<and>
     length (block_ip6 p) = MAX_IP6 \<and> length (allow_ip6 p) = MAX_IP6 \<and>
     list_all (\<lambda>r. length r = IP6_LEN) (block_ip6 p) \<and>
     list_all (\<lambda>r. length r = IP6_LEN) (allow_ip6 p)"

definition wf_class :: "requested_classification \<Rightarrow> bool" where
  "wf_class r \<longleftrightarrow> string_table MAX_CATEGORIES CATEGORY_MAX_LEN (get_categories r)"

lemma string_table_nth:
  assumes "string_table n m t" "i < n"
  shows "i < length t" "length (t ! i) = m" "nul_term (t ! i)"
  using assms by (auto simp: string_table_def list_all_length)

lemma string_table_replicate: "0 < m \<Longrightarrow> string_table n m (replicate n (replicate m 0))"
  by (auto simp: string_table_def list_all_iff nul_term_def)

lemma string_table_update:
  "string_table n m t \<Longrightarrow> length r = m \<Longrightarrow> nul_term r \<Longrightarrow> string_table n m (t[i := r])"
  by (auto simp: string_table_def list_all_iff dest!: set_update_subset_insert [THEN subsetD])

text \<open>
  The table that stores given strings: each cut to fit, padded with zero bytes, and the
  remaining rows zero, as filling a zeroed array with \<open>strncpy\<close> leaves it.
\<close>

definition pad_str :: "nat \<Rightarrow> byte list \<Rightarrow> byte list" where
  "pad_str m s = take (m - 1) s @ replicate (m - min (m - 1) (length s)) 0"

definition table_of :: "nat \<Rightarrow> nat \<Rightarrow> byte list list \<Rightarrow> byte list list" where
  "table_of n m ss = map (pad_str m) ss @ replicate (n - length ss) (replicate m 0)"

definition zero_policy :: BASE_POLICY where
  "zero_policy =
     \<lparr>locked_categories = table_of MAX_CATEGORIES CATEGORY_MAX_LEN [],
      categories_with_lvl = replicate MAX_CATEGORIES_BY_TRUST_LVL
        \<lparr>locked_by_trust_category = replicate CATEGORY_MAX_LEN 0, lvl_trust_lvl = 0\<rparr>,
      ttl_ip = 0, ttl_domain = 0,
      block_domains = table_of MAX_DOMAINS DOMAIN_MAX_LEN [],
      allow_domains = table_of MAX_DOMAINS DOMAIN_MAX_LEN [],
      block_ip4 = replicate MAX_IP4 0, allow_ip4 = replicate MAX_IP4 0,
      block_ip6 = replicate MAX_IP6 (replicate IP6_LEN 0),
      allow_ip6 = replicate MAX_IP6 (replicate IP6_LEN 0),
      min_trust_level = 0\<rparr>"

lemma length_pad_str [simp]: "0 < m \<Longrightarrow> length (pad_str m s) = m"
  by (simp add: pad_str_def)

lemma pad_str_overwrite:
  assumes "length s < m"
  shows "s @ 0 # drop (Suc (length s)) (replicate m 0) = pad_str m s"
proof -
  have "replicate (m - length s) (0 :: byte) = 0 # replicate (m - Suc (length s)) 0"
    using assms by (simp add: Suc_diff_Suc [symmetric] del: Suc_diff_Suc)
  then show ?thesis using assms by (simp add: pad_str_def min_absorb2)
qed

lemma nul_term_pad_str [simp]: "0 < m \<Longrightarrow> nul_term (pad_str m s)"
  by (auto simp: pad_str_def nul_term_def min_def)

lemma cstr_pad_str [simp]:
  assumes "0 < m" "0 \<notin> set s"
  shows "cstr (pad_str m s) = take (m - 1) s"
proof -
  have "0 \<notin> set (take (m - 1) s)" using assms(2) by (meson in_set_takeD)
  moreover have "0 < m - min (m - 1) (length s)" using assms(1) by (auto simp: min_def)
  ultimately show ?thesis
    using cstr_pad [of "take (m - 1) s" "m - min (m - 1) (length s)" "[]"]
    by (simp add: pad_str_def)
qed

lemma string_table_of [simp]:
  "0 < m \<Longrightarrow> length ss \<le> n \<Longrightarrow> string_table n m (table_of n m ss)"
  by (auto simp: string_table_def table_of_def list_all_iff) (simp add: nul_term_def)

lemma pad_str_nth_0: "1 < m \<Longrightarrow> s \<noteq> [] \<Longrightarrow> pad_str m s ! 0 = s ! 0"
  by (cases s) (auto simp: pad_str_def nth_append)

lemma wf_zero_policy [simp]: "wf_policy zero_policy"
  by (simp add: wf_policy_def zero_policy_def string_table_replicate list_all_length)

lemma wf_zero_info [simp]: "wf_info zero_info"
  by (simp add: wf_info_def zero_info_def nul_term_def)

lemma length_set_ip4 [simp]: "length (addr_bytes k) = IP6_LEN \<Longrightarrow> length (addr_bytes (set_ip4 k a)) = IP6_LEN"
  by (simp add: set_ip4_def IP6_LEN_def)

end
