(* ===== verification/Parse.thy ===== *)
theory Parse
  imports Types
begin

text \<open>
  The packet parser of \<open>src/dpdk_filter/pars_packets.c\<close>.  A packet is the byte buffer of
  its mbuf from the data pointer to the end of the buffer, with the length of the valid data;
  reads beyond the buffer fault, reads between the valid data and the end of the buffer return
  whatever bytes are there, as in the source.

  The classification of the headers is DPDK's \<open>rte_net_get_ptype\<close>, a parameter of the
  parser together with the packet type constants of the DPDK headers.
\<close>

section \<open>Packets and the interface of DPDK's packet classifier\<close>

record mbuf =
  mb_buf :: "byte list"
  data_len :: "16 word"

record hdr_lens =
  l2_len :: "32 word"
  l3_len :: "32 word"
  l4_len :: "32 word"

record ptype_api =
  rte_net_get_ptype :: "mbuf \<Rightarrow> 32 word \<times> hdr_lens"
  RTE_PTYPE_UNKNOWN :: "32 word"
  RTE_PTYPE_L3_IPV4 :: "32 word"
  RTE_PTYPE_L3_IPV6 :: "32 word"
  RTE_PTYPE_L4_TCP :: "32 word"
  RTE_PTYPE_L4_UDP :: "32 word"
  RTE_ETHER_TYPE_IPV4 :: "16 word"
  RTE_ETHER_TYPE_IPV6 :: "16 word"

section \<open>The name field of a DNS query\<close>

text \<open>The first loop: walk the length bytes until a zero byte or until 255 is reached.\<close>

function dns_len_loop :: "byte list \<Rightarrow> nat \<Rightarrow> nat \<Rightarrow> (nat \<times> nat) res" where
  "dns_len_loop buf pos domain_len =
     rbind (rget buf pos) (\<lambda>b.
     if b \<noteq> 0 \<and> domain_len < 255
     then dns_len_loop buf (pos + (unat b + 1)) (domain_len + (unat b + 1))
     else Inr (pos, domain_len))"
  by pat_completeness auto
termination
  by (relation "measure (\<lambda>(buf, pos, domain_len). 255 - domain_len)") auto

text \<open>The second loop: copy the labels to \<open>info_pac->domain\<close>, a dot between them.\<close>

function dns_copy_loop :: "byte list \<Rightarrow> nat \<Rightarrow> byte list \<Rightarrow> nat \<Rightarrow> (byte list \<times> nat) res" where
  "dns_copy_loop buf pos name dst =
     rbind (rget buf pos) (\<lambda>label_len.
     if label_len = 0 then Inr (name, dst)
     else
       rbind (if dst \<noteq> 0 then rbind (rset name dst (of_char (CHR ''.''))) (\<lambda>name. Inr (name, dst + 1))
              else Inr (name, dst)) (\<lambda>(name, dst).
       rbind (rslice buf (pos + 1) (unat label_len)) (\<lambda>label.
       rbind (rblit name dst label) (\<lambda>name.
       dns_copy_loop buf (pos + 1 + unat label_len) name (dst + unat label_len)))))"
  by pat_completeness auto
termination
  by (relation "measure (\<lambda>(buf, pos, name, dst). length buf - pos)") (auto simp: rget_eq_Inr_iff)

declare dns_len_loop.simps [simp del] dns_copy_loop.simps [simp del]

definition parse_dns_name :: "byte list \<Rightarrow> nat \<Rightarrow> byte list \<Rightarrow> byte list res" where
  "parse_dns_name buf dns_name_start name =
     rbind (dns_len_loop buf dns_name_start 0) (\<lambda>(pos, domain_len).
     rbind (rget buf pos) (\<lambda>b.
     if b = 0 \<and> domain_len > 0 then
       rbind (dns_copy_loop buf dns_name_start name 0) (\<lambda>(name, dst). rset name dst 0)
     else Inr name))"

section \<open>The parser\<close>

text \<open>The destination port is the second 16 bit field of both the TCP and the UDP header.\<close>

definition parse_l4_port ::
  "ptype_api \<Rightarrow> 32 word \<Rightarrow> byte list \<Rightarrow> 32 word \<Rightarrow> info_of_pakage \<Rightarrow> info_of_pakage res" where
  "parse_l4_port P pkt_type buf l4 info =
     (if pkt_type AND RTE_PTYPE_L4_TCP P \<noteq> 0 then
        rbind (load16 buf (unat l4 + 2)) (\<lambda>p. Inr (info\<lparr>number_port := p\<rparr>))
      else if pkt_type AND RTE_PTYPE_L4_UDP P \<noteq> 0 then
        rbind (load16 buf (unat l4 + 2)) (\<lambda>p. Inr (info\<lparr>number_port := p\<rparr>))
      else Inr info)"

definition parse_l3 ::
  "ptype_api \<Rightarrow> 32 word \<Rightarrow> hdr_lens \<Rightarrow> byte list \<Rightarrow> info_of_pakage \<Rightarrow> info_of_pakage res" where
  "parse_l3 P pkt_type lens buf info =
     (let l3_offset = l2_len lens in
      if pkt_type AND RTE_PTYPE_L3_IPV4 P \<noteq> 0 then
        rbind (load32 buf (unat l3_offset + 12)) (\<lambda>src.
        rbind (load32 buf (unat l3_offset + 16)) (\<lambda>dst.
        parse_l4_port P pkt_type buf (l3_offset + l3_len lens)
          (info\<lparr>ip_version := IP_4, ethernet_type_protocol := bswap16 (RTE_ETHER_TYPE_IPV4 P),
                ip4_src := src, ip4_dist := dst\<rparr>)))
      else if pkt_type AND RTE_PTYPE_L3_IPV6 P \<noteq> 0 then
        rbind (rslice buf (unat l3_offset + 8) IP6_LEN) (\<lambda>src.
        rbind (rslice buf (unat l3_offset + 24) IP6_LEN) (\<lambda>dst.
        parse_l4_port P pkt_type buf (l3_offset + l3_len lens)
          (info\<lparr>ip_version := IP_6, ethernet_type_protocol := bswap16 (RTE_ETHER_TYPE_IPV6 P),
                ip6_src := src, ip6_dist := dst\<rparr>)))
      else Inr info)"

definition parsing_pakage :: "ptype_api \<Rightarrow> mbuf \<Rightarrow> info_of_pakage \<Rightarrow> info_of_pakage res" where
  "parsing_pakage P pkt info =
     (case rte_net_get_ptype P pkt of (pkt_type, lens) \<Rightarrow>
      if pkt_type = RTE_PTYPE_UNKNOWN P then Inr info
      else
        rbind (load16 (mb_buf pkt) 12) (\<lambda>ether_type.
        rbind (parse_l3 P pkt_type lens (mb_buf pkt) (info\<lparr>ethernet_type_host := ether_type\<rparr>)) (\<lambda>info.
        if pkt_type AND RTE_PTYPE_L4_UDP P \<noteq> 0 \<and> number_port info = bswap16 53 then
          (let l4_offset = l2_len lens + l3_len lens + l4_len lens; len_dns_header = 12 in
           if ucast (data_len pkt) > l4_offset + len_dns_header then
             rbind (parse_dns_name (mb_buf pkt) (unat l4_offset + unat len_dns_header) (domain info))
               (\<lambda>name. Inr (info\<lparr>domain := name\<rparr>))
           else Inr info)
        else Inr info)))"

section \<open>DNS names on the wire\<close>

text \<open>The wire form of a label list, its length, and its dotted text.\<close>

definition dns_label :: "byte list \<Rightarrow> bool" where
  "dns_label l \<longleftrightarrow> l \<noteq> [] \<and> length l < 256"

definition wire_labels :: "byte list list \<Rightarrow> byte list" where
  "wire_labels ls = concat (map (\<lambda>l. of_nat (length l) # l) ls)"

definition dotted :: "byte list list \<Rightarrow> byte list" where
  "dotted ls = concat (map (\<lambda>l. of_char (CHR ''.'') # l) ls)"

fun dns_text :: "byte list list \<Rightarrow> byte list" where
  "dns_text [] = []"
| "dns_text (l # ls) = l @ dotted ls"

lemma wire_labels_simps [simp]:
  "wire_labels [] = []" "wire_labels (l # ls) = of_nat (length l) # l @ wire_labels ls"
  by (simp_all add: wire_labels_def)

lemma dotted_simps [simp]:
  "dotted [] = []" "dotted (l # ls) = of_char (CHR ''.'') # l @ dotted ls"
  by (simp_all add: dotted_def)

lemma length_dotted: "length (dotted ls) = length (wire_labels ls)"
  by (induction ls) auto

lemma length_dns_text: "ls \<noteq> [] \<Longrightarrow> length (wire_labels ls) = Suc (length (dns_text ls))"
  by (cases ls) (auto simp: length_dotted)

lemma unat_label: "dns_label l \<Longrightarrow> unat (of_nat (length l) :: byte) = length l"
  by (simp add: dns_label_def unat_of_nat)

lemma label_nonzero: "dns_label l \<Longrightarrow> (of_nat (length l) :: byte) \<noteq> 0"
  using unat_label [of l] by (auto simp: dns_label_def)

lemma dns_len_loop_end: "dns_len_loop (xs @ 0 # ys) (length xs) d = Inr (length xs, d)"
  by (subst dns_len_loop.simps) simp

lemma dns_len_loop_wire:
  assumes "list_all dns_label ls" "length (wire_labels (butlast ls)) + d < 255"
  shows "dns_len_loop (pre @ wire_labels ls @ 0 # post) (length pre) d =
     Inr (length pre + length (wire_labels ls), d + length (wire_labels ls))"
  using assms
proof (induction ls arbitrary: pre d)
  case Nil
  then show ?case by (simp add: dns_len_loop_end)
next
  case (Cons l ls)
  have l: "dns_label l" and ls: "list_all dns_label ls" and d: "d < 255"
    using Cons.prems by simp_all
  let ?pre = "pre @ of_nat (length l) # l"
  have step: "dns_len_loop (pre @ wire_labels (l # ls) @ 0 # post) (length pre) d =
      dns_len_loop (?pre @ wire_labels ls @ 0 # post) (length ?pre) (d + (length l + 1))"
    using l d by (subst dns_len_loop.simps) (simp add: unat_label label_nonzero add.commute)
  show ?case
  proof (cases "ls = []")
    case True
    then show ?thesis unfolding step using dns_len_loop_end [of ?pre] by simp
  next
    case False
    then have "length (wire_labels (butlast ls)) + (d + (length l + 1)) < 255"
      using Cons.prems(2) by simp
    from Cons.IH [OF ls this, of ?pre] show ?thesis
      unfolding step by simp
  qed
qed

text \<open>The text written so far (\<open>done\<close>) grows by the labels still to come.\<close>

definition grown :: "byte list \<Rightarrow> byte list list \<Rightarrow> byte list" where
  "grown so_far ls = so_far @ (if so_far = [] then dns_text ls else dotted ls)"

lemma dns_copy_loop_end:
  "dns_copy_loop (xs @ 0 # ys) (length xs) name dst = Inr (name, dst)"
  by (subst dns_copy_loop.simps) simp

lemma dns_copy_loop_label:
  assumes "dns_label l"
  shows "dns_copy_loop (pre @ of_nat (length l) # l @ rest) (length pre) (so_far @ free) (length so_far) =
     (let next = grown so_far [l] in
      if length next \<le> length (so_far @ free)
      then dns_copy_loop ((pre @ of_nat (length l) # l) @ rest) (length (pre @ of_nat (length l) # l))
             (next @ drop (length next) (so_far @ free)) (length next)
      else Inl OutOfBounds)"
proof -
  have len: "unat (of_nat (length l) :: byte) = length l" "(of_nat (length l) :: byte) \<noteq> 0"
    using assms by (simp_all add: unat_label label_nonzero)
  show ?thesis
  proof (cases "so_far = []")
    case True
    then show ?thesis
      using len by (subst dns_copy_loop.simps) (auto simp: grown_def Let_def rblit_def)
  next
    case False
    then show ?thesis
      using len by (subst dns_copy_loop.simps)
        (cases free; auto simp: grown_def Let_def rblit_def list_update_append)
  qed
qed

lemma grown_Cons:
  assumes "dns_label l"
  shows "grown (grown so_far [l]) ls = grown so_far (l # ls)"
  using assms by (simp add: grown_def dns_label_def)

lemma drop_prefix_copy:
  "n = length a \<Longrightarrow> n \<le> m \<Longrightarrow> drop m (a @ drop n xs) = drop m xs"
  by simp

lemma dns_copy_loop_wire:
  assumes "list_all dns_label ls"
  shows "dns_copy_loop (pre @ wire_labels ls @ 0 # post) (length pre) (so_far @ free) (length so_far) =
     (let text = grown so_far ls in
      if length text \<le> length (so_far @ free)
      then Inr (text @ drop (length text) (so_far @ free), length text)
      else Inl OutOfBounds)"
  using assms
proof (induction ls arbitrary: pre so_far free)
  case Nil
  then show ?case by (simp add: grown_def dns_copy_loop_end)
next
  case (Cons l ls)
  have l: "dns_label l" and ls: "list_all dns_label ls" using Cons.prems by simp_all
  let ?next = "grown so_far [l]"
  let ?pre = "pre @ of_nat (length l) # l"
  have longer: "length ?next \<le> length (grown so_far (l # ls))"
    by (simp add: grown_def)
  show ?case
  proof (cases "length ?next \<le> length (so_far @ free)")
    case True
    then have same: "length (?next @ drop (length ?next) (so_far @ free)) = length (so_far @ free)"
      by simp
    have "dns_copy_loop (pre @ wire_labels (l # ls) @ 0 # post) (length pre) (so_far @ free) (length so_far) =
        dns_copy_loop (?pre @ wire_labels ls @ 0 # post) (length ?pre)
          (?next @ drop (length ?next) (so_far @ free)) (length ?next)"
      using dns_copy_loop_label [OF l, of pre "wire_labels ls @ 0 # post" so_far free] True by (simp add: Let_def)
    also have "\<dots> = (let text = grown ?next ls in
        if length text \<le> length (so_far @ free)
        then Inr (text @ drop (length text) (?next @ drop (length ?next) (so_far @ free)), length text)
        else Inl OutOfBounds)"
      by (simp only: Cons.IH [OF ls, of ?pre ?next "drop (length ?next) (so_far @ free)"] same)
    finally show ?thesis
      by (simp only: grown_Cons [OF l] drop_prefix_copy [OF refl longer] Let_def)
  next
    case False
    then show ?thesis
      using dns_copy_loop_label [OF l, of pre "wire_labels ls @ 0 # post" so_far free] longer
      by (simp add: Let_def)
  qed
qed

text \<open>The walk over the length bytes stays below 511, whatever the packet holds.\<close>

lemma dns_len_loop_bound:
  "dns_len_loop buf pos d = Inr (pos', d') \<Longrightarrow> d \<le> 510 \<Longrightarrow> d' \<le> 510 \<and> pos' + d = pos + d' \<and> pos' < length buf"
proof (induction buf pos d arbitrary: pos' d' rule: dns_len_loop.induct)
  case (1 buf pos d)
  show ?case
  proof (cases "pos < length buf \<and> buf ! pos \<noteq> 0 \<and> d < 255")
    case True
    let ?n = "unat (buf ! pos) + 1"
    have small: "unat (buf ! pos) < 256" using unsigned_less [of "buf ! pos"] by simp
    from 1(2) True have rec: "dns_len_loop buf (pos + ?n) (d + ?n) = Inr (pos', d')"
      by (simp add: dns_len_loop.simps [of buf pos d])
    moreover have "d + ?n \<le> 510" using True small by simp
    ultimately show ?thesis using 1(1) [of "buf ! pos" pos' d'] True by simp
  next
    case False
    with 1(2,3) show ?thesis
      by (auto simp: dns_len_loop.simps [of buf pos d] rbind_eq_Inr_iff rget_eq_Inr_iff split: if_splits)
  qed
qed

text \<open>Both loops together, for a destination array of any size.\<close>

lemma parse_dns_name_text:
  assumes "list_all dns_label ls" "ls \<noteq> []" "length (wire_labels (butlast ls)) < 255"
  shows "parse_dns_name (pre @ wire_labels ls @ 0 # post) (length pre) name =
     (if length (wire_labels ls) \<le> length name
      then Inr (dns_text ls @ 0 # drop (Suc (length (dns_text ls))) name)
      else Inl OutOfBounds)"
proof -
  let ?buf = "pre @ wire_labels ls @ 0 # post" and ?n = "length (wire_labels ls)"
  have walk: "dns_len_loop ?buf (length pre) 0 = Inr (length pre + ?n, ?n)"
    using dns_len_loop_wire [OF assms(1), of 0] assms(3) by simp
  have n: "?n = Suc (length (dns_text ls))"
    by (rule length_dns_text [OF assms(2)])
  have stop: "rget ?buf (length pre + ?n) = Inr 0"
    by (simp add: nth_append)
  have copy: "dns_copy_loop ?buf (length pre) name 0 =
      (if length (dns_text ls) \<le> length name
       then Inr (dns_text ls @ drop (length (dns_text ls)) name, length (dns_text ls))
       else Inl OutOfBounds)"
    using dns_copy_loop_wire [OF assms(1), of pre post "[]" name] by (simp add: grown_def Let_def)
  have last: "rset (dns_text ls @ drop (length (dns_text ls)) name) (length (dns_text ls)) 0 =
      (if ?n \<le> length name then Inr (dns_text ls @ 0 # drop (Suc (length (dns_text ls))) name)
       else Inl OutOfBounds)" if "length (dns_text ls) \<le> length name"
    using that n by (auto simp: list_update_append rset_def Cons_nth_drop_Suc [symmetric])
  show ?thesis
    unfolding parse_dns_name_def walk using n stop last copy by auto
qed

section \<open>Properties\<close>

text \<open>
  C5. On the wire form of a list of labels, each of 1 to 255 bytes, that the length walk
  accepts (the bytes before the last label are fewer than 255), \<open>parse_dns_name\<close> writes
  the dotted text and its terminator when they fit in the 260 bytes of
  \<open>info_pac->domain\<close> and runs past the end of that array otherwise.  In particular the
  walk's limit of 255 does not bound the text: a last label may still overflow the array.
\<close>

theorem parse_dns_name_wire:
  assumes "list_all dns_label ls" "ls \<noteq> []" "length (wire_labels (butlast ls)) < 255"
    and "length name = DOMAIN_MAX_LEN"
  shows "parse_dns_name (pre @ wire_labels ls @ 0 # post) (length pre) name =
     (if length (wire_labels ls) \<le> DOMAIN_MAX_LEN
      then Inr (dns_text ls @ 0 # drop (Suc (length (dns_text ls))) name)
      else Inl OutOfBounds)"
  using parse_dns_name_text [OF assms(1-3)] assms(4) by simp

theorem parse_dns_name_wire_witness:
  "parse_dns_name (wire_labels [map of_char ''ya'', map of_char ''ru''] @ [0]) 0 (replicate DOMAIN_MAX_LEN 0) =
     Inr (map of_char ''ya.ru'' @ replicate (DOMAIN_MAX_LEN - 5) 0) \<and>
   parse_dns_name (wire_labels [replicate 253 97, replicate 255 98] @ [0]) 0 (replicate DOMAIN_MAX_LEN 0) =
     Inl OutOfBounds"
proof
  show "parse_dns_name (wire_labels [map of_char ''ya'', map of_char ''ru''] @ [0]) 0 (replicate DOMAIN_MAX_LEN 0) =
     Inr (map of_char ''ya.ru'' @ replicate (DOMAIN_MAX_LEN - 5) 0)"
    using parse_dns_name_wire [of "[map of_char ''ya'', map of_char ''ru'']" "replicate DOMAIN_MAX_LEN 0" "[]" "[]"]
      replicate_Suc [of 254 "0 :: byte"]
    by (simp add: dns_label_def DOMAIN_MAX_LEN_def)
  show "parse_dns_name (wire_labels [replicate 253 97, replicate 255 98] @ [0]) 0 (replicate DOMAIN_MAX_LEN 0) =
     Inl OutOfBounds"
    using parse_dns_name_wire [of "[replicate 253 97, replicate 255 98]" "replicate DOMAIN_MAX_LEN 0" "[]" "[]"]
    by (simp add: dns_label_def DOMAIN_MAX_LEN_def)
qed

lemma dns_copy_loop_length:
  "dns_copy_loop buf pos name dst = Inr (name', dst') \<Longrightarrow> length name' = length name"
proof (induction buf pos name dst arbitrary: name' dst' rule: dns_copy_loop.induct)
  case (1 buf pos name dst)
  show ?case
  proof (cases "pos < length buf \<and> buf ! pos \<noteq> 0")
    case True
    then obtain nm ds label nm' where
      dot: "(if dst \<noteq> 0 then rbind (rset name dst (of_char (CHR ''.''))) (\<lambda>name. Inr (name, dst + 1))
             else Inr (name, dst)) = Inr (nm, ds)"
      and label: "rslice buf (pos + 1) (unat (buf ! pos)) = Inr label"
      and blit: "rblit nm ds label = Inr nm'"
      and rest: "dns_copy_loop buf (pos + 1 + unat (buf ! pos)) nm' (ds + unat (buf ! pos)) = Inr (name', dst')"
      using 1(2) by (auto simp: dns_copy_loop.simps [of buf pos name dst] rbind_eq_Inr_iff)
    have "length nm = length name"
      using dot by (auto simp: rbind_eq_Inr_iff dest: rset_length split: if_splits)
    moreover have "length nm' = length nm"
      using blit by (rule rblit_length)
    moreover have "length name' = length nm'"
      using True dot label blit rest by (intro 1(1) [of "buf ! pos" "(nm, ds)" nm ds label nm']) auto
    ultimately show ?thesis by simp
  next
    case False
    with 1(2) show ?thesis
      by (auto simp: dns_copy_loop.simps [of buf pos name dst] rbind_eq_Inr_iff rget_eq_Inr_iff split: if_splits)
  qed
qed

lemma parse_dns_name_wf:
  assumes "parse_dns_name buf st name = Inr name'"
  shows "length name' = length name" "nul_term name \<Longrightarrow> nul_term name'"
  using assms
  by (auto simp: parse_dns_name_def rbind_eq_Inr_iff rset_def nul_term_def set_update_memI
      dest!: dns_copy_loop_length split: if_splits)

lemma parse_l3_wf:
  assumes "wf_info info" "parse_l3 P t lens buf info = Inr info'"
  shows "wf_info info'"
  using assms
  by (auto simp: parse_l3_def parse_l4_port_def Let_def rbind_eq_Inr_iff wf_info_def rslice_eq_Inr_iff
      split: if_splits)

lemma parse_wf:
  assumes "wf_info info" "parsing_pakage P pkt info = Inr info'"
  shows "wf_info info'"
proof -
  have keep: "wf_info (info\<lparr>ethernet_type_host := e\<rparr>)" for e
    using assms(1) by (simp add: wf_info_def)
  show ?thesis
    using assms
    by (auto simp: parsing_pakage_def Let_def rbind_eq_Inr_iff wf_info_def
        dest!: parse_l3_wf [OF keep] dest: parse_dns_name_wf split: prod.splits if_splits)
qed

text \<open>
  C6. Whatever the packet holds, if the parser returns then the information it leaves is
  well formed: the domain array keeps its 260 bytes and a terminator, and the IPv6 address
  arrays keep their 16 bytes.
\<close>

theorem parsing_pakage_wf:
  assumes "wf_info info" "parsing_pakage P pkt info = Inr info'"
  shows "wf_info info'"
  using parse_wf [OF assms] .

text \<open>
  A DNS query over IPv4 and UDP: twelve bytes of addresses and the EtherType, an IPv4 header
  without options, a UDP header to port 53, the DNS header, the question name, and whatever
  the buffer holds after it.
\<close>

definition dns_query ::
  "byte list \<Rightarrow> byte list \<Rightarrow> byte list \<Rightarrow> byte list \<Rightarrow> byte list \<Rightarrow> byte list \<Rightarrow> byte list \<Rightarrow>
   byte list list \<Rightarrow> byte list \<Rightarrow> byte list" where
  "dns_query macs ip_head src dst sport udp_rest dns_head ls post =
     macs @ [8, 0] @ ip_head @ src @ dst @ sport @ [0, 53] @ udp_rest @ dns_head @ wire_labels ls @ 0 # post"

lemma bswap16_port53: "(word_rcat [53, 0 :: byte] :: 16 word) = bswap16 53"
  by (simp add: bswap16_def word_rcat_def horner_sum_simps)

lemma word_of_nat_sizes: "unat (14 + 20 :: 32 word) = 34" "unat (14 + 20 + 8 :: 32 word) = 42"
  by simp_all

lemma dns_query_parsed:
  fixes P :: ptype_api
  assumes sizes: "length macs = 12" "length ip_head = 12" "length src = 4" "length dst = 4"
      "length sport = 2" "length udp_rest = 4" "length dns_head = 12"
    and labels: "list_all dns_label ls" "ls \<noteq> []" "length (wire_labels ls) \<le> 255"
    and buf: "mb_buf pkt = dns_query macs ip_head src dst sport udp_rest dns_head ls post"
    and dlen: "54 < data_len pkt"
    and type: "rte_net_get_ptype P pkt = (t, \<lparr>l2_len = 14, l3_len = 20, l4_len = 8\<rparr>)"
      "t \<noteq> RTE_PTYPE_UNKNOWN P" "t AND RTE_PTYPE_L3_IPV4 P \<noteq> 0" "t AND RTE_PTYPE_L4_UDP P \<noteq> 0"
  shows "parsing_pakage P pkt zero_info = Inr (zero_info
     \<lparr>ethernet_type_host := 8, ethernet_type_protocol := bswap16 (RTE_ETHER_TYPE_IPV4 P),
      number_port := bswap16 53, domain := pad_str DOMAIN_MAX_LEN (dns_text ls), ip_version := IP_4,
      ip4_src := word_rcat (rev src), ip4_dist := word_rcat (rev dst)\<rparr>)"
proof -
  let ?rest = "udp_rest @ dns_head @ wire_labels ls @ 0 # post"
  have ety: "load16 (mb_buf pkt) 12 = Inr 8"
    using load16_at [of "[8, 0]" 12 macs "ip_head @ src @ dst @ sport @ [0, 53] @ ?rest"] sizes
    by (simp add: buf dns_query_def word_rcat_def horner_sum_simps)
  have s: "load32 (mb_buf pkt) 26 = Inr (word_rcat (rev src))"
    using load32_at [of src 26 "macs @ [8, 0] @ ip_head" "dst @ sport @ [0, 53] @ ?rest"] sizes
    by (simp add: buf dns_query_def)
  have d: "load32 (mb_buf pkt) 30 = Inr (word_rcat (rev dst))"
    using load32_at [of dst 30 "macs @ [8, 0] @ ip_head @ src" "sport @ [0, 53] @ ?rest"] sizes
    by (simp add: buf dns_query_def)
  have p: "load16 (mb_buf pkt) 36 = Inr (bswap16 53)"
    using load16_at [of "[0, 53]" 36 "macs @ [8, 0] @ ip_head @ src @ dst @ sport" ?rest] sizes
    by (simp add: buf dns_query_def bswap16_port53)
  have small: "length (wire_labels (butlast ls)) < 255"
    using labels by (cases ls rule: rev_cases) (auto simp: wire_labels_def dns_label_def)
  have len: "length (wire_labels ls) = Suc (length (dns_text ls))"
    using labels(2) by (rule length_dns_text)
  have pre: "mb_buf pkt = (macs @ [8, 0] @ ip_head @ src @ dst @ sport @ [0, 53] @ udp_rest @ dns_head) @
      wire_labels ls @ 0 # post"
    by (simp add: buf dns_query_def)
  have name: "parse_dns_name (mb_buf pkt) 54 (replicate DOMAIN_MAX_LEN 0) =
      Inr (pad_str DOMAIN_MAX_LEN (dns_text ls))"
    using parse_dns_name_text [OF labels(1,2) small,
        of "macs @ [8, 0] @ ip_head @ src @ dst @ sport @ [0, 53] @ udp_rest @ dns_head" post
          "replicate DOMAIN_MAX_LEN 0"] labels(3) len sizes
      pad_str_overwrite [of "dns_text ls" DOMAIN_MAX_LEN]
    unfolding pre by (simp add: DOMAIN_MAX_LEN_def)
  have l3: "parse_l3 P t \<lparr>l2_len = 14, l3_len = 20, l4_len = 8\<rparr> (mb_buf pkt) info = Inr (info
      \<lparr>ip_version := IP_4, ethernet_type_protocol := bswap16 (RTE_ETHER_TYPE_IPV4 P),
       ip4_src := word_rcat (rev src), ip4_dist := word_rcat (rev dst), number_port := bswap16 53\<rparr>)" for info
    using s d p type(3,4) by (simp add: parse_l3_def parse_l4_port_def Let_def)
  have long: "(54 :: 32 word) < ucast (data_len pkt)"
    using dlen by (simp add: word_less_nat_alt)
  show ?thesis
    using type ety l3 name long
    by (simp add: parsing_pakage_def Let_def zero_info_def)
qed

text \<open>A packet that carries a query for the name with the labels \<open>ls\<close>, which the classifier recognises.\<close>

definition carries_query :: "ptype_api \<Rightarrow> mbuf \<Rightarrow> byte list list \<Rightarrow> bool" where
  "carries_query P pkt ls \<longleftrightarrow>
     list_all dns_label ls \<and> ls \<noteq> [] \<and> length (wire_labels ls) \<le> 255 \<and> 54 < data_len pkt \<and>
     (\<exists>macs ip_head src dst sport udp_rest dns_head post.
        length macs = 12 \<and> length ip_head = 12 \<and> length src = 4 \<and> length dst = 4 \<and> length sport = 2 \<and>
        length udp_rest = 4 \<and> length dns_head = 12 \<and>
        mb_buf pkt = dns_query macs ip_head src dst sport udp_rest dns_head ls post) \<and>
     (\<exists>t. rte_net_get_ptype P pkt = (t, \<lparr>l2_len = 14, l3_len = 20, l4_len = 8\<rparr>) \<and>
        t \<noteq> RTE_PTYPE_UNKNOWN P \<and> t AND RTE_PTYPE_L3_IPV4 P \<noteq> 0 \<and> t AND RTE_PTYPE_L4_UDP P \<noteq> 0)"

lemma carries_queryI:
  assumes "length macs = 12" "length ip_head = 12" "length src = 4" "length dst = 4" "length sport = 2"
    "length udp_rest = 4" "length dns_head = 12" "list_all dns_label ls" "ls \<noteq> []" "length (wire_labels ls) \<le> 255"
    "mb_buf pkt = dns_query macs ip_head src dst sport udp_rest dns_head ls post" "54 < data_len pkt"
    "rte_net_get_ptype P pkt = (t, \<lparr>l2_len = 14, l3_len = 20, l4_len = 8\<rparr>)"
    "t \<noteq> RTE_PTYPE_UNKNOWN P" "t AND RTE_PTYPE_L3_IPV4 P \<noteq> 0" "t AND RTE_PTYPE_L4_UDP P \<noteq> 0"
  shows "carries_query P pkt ls"
proof -
  have frame: "\<exists>macs ip_head src dst sport udp_rest dns_head post.
      length macs = 12 \<and> length ip_head = 12 \<and> length src = 4 \<and> length dst = 4 \<and> length sport = 2 \<and>
      length udp_rest = 4 \<and> length dns_head = 12 \<and>
      mb_buf pkt = dns_query macs ip_head src dst sport udp_rest dns_head ls post"
    by (rule exI [of _ macs], rule exI [of _ ip_head], rule exI [of _ src], rule exI [of _ dst], rule exI [of _ sport],
        rule exI [of _ udp_rest], rule exI [of _ dns_head], rule exI [of _ post]) (use assms(1-7,11) in simp)
  show ?thesis
    unfolding carries_query_def using assms(8-10,12-16) frame by simp
qed

lemma carries_query_parsed:
  assumes "carries_query P pkt ls"
  obtains info where "parsing_pakage P pkt zero_info = Inr info" "number_port info = bswap16 53"
    "domain info = pad_str DOMAIN_MAX_LEN (dns_text ls)"
proof -
  obtain macs ip_head src dst sport udp_rest dns_head post t where q:
    "length macs = 12" "length ip_head = 12" "length src = 4" "length dst = 4" "length sport = 2"
    "length udp_rest = 4" "length dns_head = 12" "list_all dns_label ls" "ls \<noteq> []" "length (wire_labels ls) \<le> 255"
    "mb_buf pkt = dns_query macs ip_head src dst sport udp_rest dns_head ls post" "54 < data_len pkt"
    "rte_net_get_ptype P pkt = (t, \<lparr>l2_len = 14, l3_len = 20, l4_len = 8\<rparr>)"
    "t \<noteq> RTE_PTYPE_UNKNOWN P" "t AND RTE_PTYPE_L3_IPV4 P \<noteq> 0" "t AND RTE_PTYPE_L4_UDP P \<noteq> 0"
    using assms unfolding carries_query_def by (elim exE conjE) (rule that)
  show ?thesis
    by (rule that [OF dns_query_parsed [OF q]]) simp_all
qed

text \<open>
  C7. On a DNS query whose headers the classifier reports as IPv4 over UDP with their real
  lengths, the parser returns the addresses and the port of the packet, in the byte order of
  the wire, and the queried name as zero-padded text.
\<close>

theorem parsing_pakage_dns_query:
  fixes P :: ptype_api
  assumes sizes: "length macs = 12" "length ip_head = 12" "length src = 4" "length dst = 4"
      "length sport = 2" "length udp_rest = 4" "length dns_head = 12"
    and labels: "list_all dns_label ls" "ls \<noteq> []" "length (wire_labels ls) \<le> 255"
    and buf: "mb_buf pkt = dns_query macs ip_head src dst sport udp_rest dns_head ls post"
    and dlen: "54 < data_len pkt"
    and type: "rte_net_get_ptype P pkt = (t, \<lparr>l2_len = 14, l3_len = 20, l4_len = 8\<rparr>)"
      "t \<noteq> RTE_PTYPE_UNKNOWN P" "t AND RTE_PTYPE_L3_IPV4 P \<noteq> 0" "t AND RTE_PTYPE_L4_UDP P \<noteq> 0"
  shows "parsing_pakage P pkt zero_info = Inr (zero_info
     \<lparr>ethernet_type_host := 8, ethernet_type_protocol := bswap16 (RTE_ETHER_TYPE_IPV4 P),
      number_port := bswap16 53, domain := pad_str DOMAIN_MAX_LEN (dns_text ls), ip_version := IP_4,
      ip4_src := word_rcat (rev src), ip4_dist := word_rcat (rev dst)\<rparr>)"
  using dns_query_parsed [OF assms] .

definition sample_ptypes :: "32 word \<Rightarrow> ptype_api" where
  "sample_ptypes t =
     \<lparr>rte_net_get_ptype = (\<lambda>_. (t, \<lparr>l2_len = 14, l3_len = 20, l4_len = 8\<rparr>)),
      RTE_PTYPE_UNKNOWN = 0, RTE_PTYPE_L3_IPV4 = 0x10, RTE_PTYPE_L3_IPV6 = 0x40,
      RTE_PTYPE_L4_TCP = 0x100, RTE_PTYPE_L4_UDP = 0x200,
      RTE_ETHER_TYPE_IPV4 = 0x0800, RTE_ETHER_TYPE_IPV6 = 0x86DD\<rparr>"

definition sample_query :: mbuf where
  "sample_query =
     \<lparr>mb_buf = dns_query (replicate 12 2) (replicate 12 69) [10, 0, 0, 1] [8, 8, 8, 8] [4, 0]
        (replicate 4 0) (replicate 12 1) [map of_char ''ya'', map of_char ''ru''] [0, 1, 0, 1],
      data_len = 65\<rparr>"

lemma sample_query_carries:
  "carries_query (sample_ptypes 0x211) sample_query [map of_char ''ya'', map of_char ''ru'']"
  by (rule carries_queryI [where t = "0x211" and macs = "replicate 12 2" and ip_head = "replicate 12 69" and src = "[10, 0, 0, 1]"
        and dst = "[8, 8, 8, 8]" and sport = "[4, 0]" and udp_rest = "replicate 4 0" and dns_head = "replicate 12 1"
        and post = "[0, 1, 0, 1]"])
    (simp_all add: sample_query_def sample_ptypes_def dns_label_def)

theorem parsing_pakage_wf_witness:
  "\<exists>info. parsing_pakage (sample_ptypes 1) sample_query zero_info = Inr info \<and> wf_info info"
proof -
  have "parsing_pakage (sample_ptypes 1) sample_query zero_info = Inr (zero_info\<lparr>ethernet_type_host := 8\<rparr>)"
    by (simp add: parsing_pakage_def sample_ptypes_def sample_query_def dns_query_def load16_def
        parse_l3_def word_rcat_def horner_sum_simps)
  with parsing_pakage_wf [OF wf_zero_info this] show ?thesis by blast
qed

theorem parsing_pakage_dns_query_witness:
  "parsing_pakage (sample_ptypes 0x211) sample_query zero_info = Inr (zero_info
     \<lparr>ethernet_type_host := 8, ethernet_type_protocol := 8,
      number_port := bswap16 53, domain := pad_str DOMAIN_MAX_LEN (map of_char ''ya.ru''), ip_version := IP_4,
      ip4_src := 0x0100000A, ip4_dist := 0x08080808\<rparr>)"
proof -
  let ?ls = "[map of_char ''ya'', map of_char ''ru''] :: byte list list"
  have "parsing_pakage (sample_ptypes 0x211) sample_query zero_info = Inr (zero_info
     \<lparr>ethernet_type_host := 8, ethernet_type_protocol := bswap16 (RTE_ETHER_TYPE_IPV4 (sample_ptypes 0x211)),
      number_port := bswap16 53, domain := pad_str DOMAIN_MAX_LEN (dns_text ?ls), ip_version := IP_4,
      ip4_src := word_rcat (rev [10, 0, 0, 1 :: byte]), ip4_dist := word_rcat (rev [8, 8, 8, 8 :: byte])\<rparr>)"
    by (rule parsing_pakage_dns_query [where t = "0x211" and macs = "replicate 12 2" and ip_head = "replicate 12 69"
          and sport = "[4, 0]" and udp_rest = "replicate 4 0" and dns_head = "replicate 12 1"
          and post = "[0, 1, 0, 1]"])
      (simp_all add: sample_query_def sample_ptypes_def dns_label_def)
  then show ?thesis
    by (simp add: sample_ptypes_def word_rcat_def horner_sum_simps bswap16_def)
qed

end
