(* ===== verification/Worker_Hooks.thy ===== *)
theory Worker_Hooks
  imports Types
begin

text \<open>
  The functions of \<open>src/worker/src/worker.cpp\<close> that the packet processor calls through the
  singleton \<open>Worker::instance\<close>: the packet counters and the classification of a target by the
  controller.  The remote call is a parameter; it returns \<open>None\<close> when the call fails, times
  out or throws.  A protobuf string is its bytes; \<open>c_str ()\<close> appends the terminator.
\<close>

section \<open>The worker object\<close>

datatype WorkerState = FREE | SHUTTING_DOWN

record worker =
  worker_id :: "64 word"
  current_config_version :: "64 word"
  enable :: bool
  current_policy :: BASE_POLICY
  worker_state :: WorkerState
  local_packets_received :: "64 word"
  local_packets_passed :: "64 word"
  local_packets_dropped :: "64 word"

definition record_packet_received :: "worker option \<Rightarrow> worker option" where
  "record_packet_received instance =
     (case instance of
        None \<Rightarrow> None
      | Some worker \<Rightarrow> Some (worker\<lparr>local_packets_received := local_packets_received worker + 1\<rparr>))"

definition record_packet_passed :: "worker option \<Rightarrow> worker option" where
  "record_packet_passed instance =
     (case instance of
        None \<Rightarrow> None
      | Some worker \<Rightarrow> Some (worker\<lparr>local_packets_passed := local_packets_passed worker + 1\<rparr>))"

definition record_packet_dropped :: "worker option \<Rightarrow> worker option" where
  "record_packet_dropped instance =
     (case instance of
        None \<Rightarrow> None
      | Some worker \<Rightarrow> Some (worker\<lparr>local_packets_dropped := local_packets_dropped worker + 1\<rparr>))"

text \<open>What the counters leave alone.\<close>

definition configuration :: "worker option \<Rightarrow> worker option" where
  "configuration = map_option (\<lambda>worker.
     worker\<lparr>local_packets_received := 0, local_packets_passed := 0, local_packets_dropped := 0\<rparr>)"

lemma configuration_record [simp]:
  "configuration (record_packet_received i) = configuration i"
  "configuration (record_packet_passed i) = configuration i"
  "configuration (record_packet_dropped i) = configuration i"
  by (simp_all add: configuration_def record_packet_received_def record_packet_passed_def record_packet_dropped_def
      split: option.split)

section \<open>Messages of the controller\<close>

text \<open>The messages of \<open>communication.proto\<close>.  The map \<open>block_by_trust\<close> is the list of its
  entries in the order in which the program meets them.\<close>

record classify_response =
  resp_categories :: "byte list list"
  resp_trust_level :: int

record policy_message =
  block_categories :: "byte list list"
  block_by_trust :: "(byte list \<times> int) list"
  msg_block_domains :: "byte list list"
  msg_allow_domains :: "byte list list"
  block_ips :: "byte list list"
  allow_ips :: "byte list list"
  msg_min_trust_level :: int
  msg_ttl_ip :: int
  msg_ttl_domain :: int
  config_version :: "64 word"

text \<open>The enumeration of the result is open: a value the program does not know is kept.\<close>

datatype policy_result = POLICY_PROVIDED | POLICY_UNCHANGED | OTHER_RESULT int

record policy_response =
  resp_result :: policy_result
  resp_policy :: policy_message
  filtering_enabled :: bool

record 'w rpc =
  Classify :: "64 word \<Rightarrow> byte list \<Rightarrow> byte list \<Rightarrow> 'w \<Rightarrow> classify_response option \<times> 'w"
  GetPolicy :: "64 word \<Rightarrow> 64 word \<Rightarrow> 'w \<Rightarrow> policy_response option \<times> 'w"

section \<open>Classification\<close>

definition copy_category :: "byte list list \<Rightarrow> nat \<Rightarrow> byte list \<Rightarrow> byte list res" where
  "copy_category cats i row =
     rbind (rget cats i) (\<lambda>category. c_strncpy row (category @ [0]) (CATEGORY_MAX_LEN - 1))"

definition classify ::
  "'w rpc \<Rightarrow> worker \<Rightarrow> byte list \<Rightarrow> byte list \<Rightarrow> requested_classification \<Rightarrow> 'w \<Rightarrow>
   (bool \<times> requested_classification \<times> 'w) res" where
  "classify R worker type target out_req w =
     (case Classify R (worker_id worker) type target w of
        (None, w) \<Rightarrow> Inr (False, out_req, w)
      | (Some resp, w) \<Rightarrow>
          let out_req = out_req\<lparr>get_trust_level := resp_trust_level resp\<rparr>;
              cat_count = min (length (resp_categories resp)) MAX_CATEGORIES in
          rbind (c_fold [0..<cat_count] (row_update (copy_category (resp_categories resp)))
                  (get_categories out_req)) (\<lambda>t.
          Inr (True, out_req\<lparr>get_categories := t\<rparr>, w)))"

text \<open>\<open>std::string (type)\<close> and \<open>std::string (target)\<close> read the C strings.\<close>

definition worker_classify ::
  "'w rpc \<Rightarrow> worker option \<Rightarrow> byte list \<Rightarrow> byte list \<Rightarrow> requested_classification \<Rightarrow> 'w \<Rightarrow>
   (bool \<times> requested_classification \<times> 'w) res" where
  "worker_classify R instance type target out_req w =
     (case instance of
        None \<Rightarrow> Inr (False, out_req, w)
      | Some worker \<Rightarrow>
          if nul_term type \<and> nul_term target then classify R worker (cstr type) (cstr target) out_req w
          else Inl OutOfBounds)"

section \<open>What a classification leaves in the result\<close>

text \<open>
  A row after the copy of a category: the first 63 bytes of the name, filled up with zero bytes,
  and the old last byte, which the copy does not write.
\<close>

definition category_row :: "byte list \<Rightarrow> byte list \<Rightarrow> byte list" where
  "category_row old category =
     take (CATEGORY_MAX_LEN - 1) (cstr category) @
     replicate (CATEGORY_MAX_LEN - 1 - length (cstr category)) 0 @ [last old]"

lemma cstr_snoc_nul [simp]: "cstr (xs @ [0]) = cstr xs"
  by (induction xs) auto

lemma nul_term_snoc [simp]: "nul_term (xs @ [0])"
  by (simp add: nul_term_def)

lemma copy_category_run:
  assumes "i < length cats" "length row = CATEGORY_MAX_LEN"
  shows "copy_category cats i row = Inr (category_row row (cats ! i))"
proof -
  have "drop (CATEGORY_MAX_LEN - 1) row = [last row]"
    using assms(2) sizes_pos(8) by (cases row rule: rev_cases) auto
  then show ?thesis
    using assms by (simp add: copy_category_def c_strncpy_term category_row_def)
qed

lemma classify_run:
  assumes "Classify R (worker_id worker) type target w = (Some resp, w')" "wf_class junk"
  shows "classify R worker type target junk w = Inr (True,
     \<lparr>get_categories =
        map (\<lambda>i. category_row (get_categories junk ! i) (resp_categories resp ! i))
          [0..<min (length (resp_categories resp)) MAX_CATEGORIES] @
        drop (min (length (resp_categories resp)) MAX_CATEGORIES) (get_categories junk),
      get_trust_level = resp_trust_level resp\<rparr>, w')"
proof -
  let ?n = "min (length (resp_categories resp)) MAX_CATEGORIES"
  have len: "length (get_categories junk) = MAX_CATEGORIES"
    using assms(2) by (simp add: wf_class_def string_table_def)
  have "c_fold [0..<?n] (row_update (copy_category (resp_categories resp))) (get_categories junk) =
      Inr (map (\<lambda>i. category_row (get_categories junk ! i) (resp_categories resp ! i)) [0..<?n] @
           drop ?n (get_categories junk))"
  proof (rule c_fold_rows)
    fix i assume "i < ?n"
    then show "copy_category (resp_categories resp) i (get_categories junk ! i) =
        Inr (category_row (get_categories junk ! i) (resp_categories resp ! i))"
      using string_table_nth(2) assms(2) by (intro copy_category_run) (auto simp: wf_class_def)
  qed (use len in simp)
  then show ?thesis
    using assms(1) by (simp add: classify_def Let_def)
qed

lemma length_category_row [simp]: "length (category_row old category) = CATEGORY_MAX_LEN"
  by (auto simp: category_row_def min_def CATEGORY_MAX_LEN_def)

lemma cstr_category_row:
  "length (cstr category) < CATEGORY_MAX_LEN - 1 \<Longrightarrow> cstr (category_row old category) = cstr category"
  using cstr_no_nul by (simp add: category_row_def cstr_pad)

lemma nul_term_category_row:
  "nul_term (category_row old category) \<longleftrightarrow> length (cstr category) < CATEGORY_MAX_LEN - 1 \<or> last old = 0"
  using cstr_no_nul [of category] by (auto simp: category_row_def nul_term_def dest: in_set_takeD)

section \<open>Property of the classification\<close>

definition sample_worker :: worker where
  "sample_worker =
     \<lparr>worker_id = 1, current_config_version = 0, enable = True, current_policy = zero_policy,
      worker_state = FREE, local_packets_received = 0, local_packets_passed = 0,
      local_packets_dropped = 0\<rparr>"

text \<open>A classifier that answers every request with one category, and a result without any.\<close>

definition one_category_rpc :: "'w rpc" where
  "one_category_rpc = \<lparr>Classify = (\<lambda>i type target w.
     (Some \<lparr>resp_categories = [map of_char ''news''], resp_trust_level = 7\<rparr>, w)), GetPolicy = (\<lambda>i v w. (None, w))\<rparr>"

definition empty_class :: requested_classification where
  "empty_class = \<lparr>get_categories = replicate MAX_CATEGORIES (replicate CATEGORY_MAX_LEN 0), get_trust_level = 0\<rparr>"

lemma wf_empty_class: "wf_class empty_class"
  by (simp add: wf_class_def empty_class_def string_table_replicate)



end
