(* ===== verification/Forward.thy ===== *)
theory Forward
  imports Parse Worker_Hooks
begin

text \<open>
  Sending, dropping and rewriting packets: the first half of
  \<open>src/worker/src/dpdk_filter/proc_packets.c\<close>.

  The state holds the packets that belong to the program, by the address of their mbuf, the ports
  by their address, and, as a record of what the program did with packets, the frames it handed
  to a device and the mbufs it gave back to the pool.  The devices and the header checksum of
  DPDK are parameters.
\<close>

section \<open>Devices and state\<close>

record 'w net_api =
  rte_eth_rx_burst :: "16 word \<Rightarrow> 16 word \<Rightarrow> 16 word \<Rightarrow> 'w \<Rightarrow> (addr \<times> mbuf) list \<times> 'w"
  rte_eth_tx_burst :: "16 word \<Rightarrow> 16 word \<Rightarrow> mbuf \<Rightarrow> 'w \<Rightarrow> 16 word \<times> 'w"
  rte_ipv4_cksum :: "byte list \<Rightarrow> 16 word"

record tx_frame =
  on_port :: "16 word"
  on_queue :: "16 word"
  contents :: mbuf

record 'w net_state =
  world :: 'w
  ports :: "addr \<Rightarrow> net_port"
  mbufs :: "addr \<rightharpoonup> mbuf"
  sent :: "(addr \<times> tx_frame) list"
  freed :: "addr list"
  instance_of :: "worker option"

definition rte_pktmbuf_free :: "addr \<Rightarrow> ('w, 'x) net_state_scheme \<Rightarrow> ('w, 'x) net_state_scheme res" where
  "rte_pktmbuf_free a s =
     (if mbufs s a = None then Inl BadFree
      else Inr (s\<lparr>mbufs := (mbufs s)(a := None), freed := freed s @ [a]\<rparr>))"

section \<open>The operations\<close>

definition learn_neighbor_mac ::
  "addr \<Rightarrow> addr \<Rightarrow> addr \<Rightarrow> ('w, 'x) net_state_scheme \<Rightarrow> ('w, 'x) net_state_scheme res" where
  "learn_neighbor_mac port a port_2 s =
     rbind (deref (mbufs s) a) (\<lambda>pkt.
     if \<not> neighbor_learned (ports s port) then
       rbind (rslice (mb_buf pkt) 6 6) (\<lambda>neigh_mac.
       if neigh_mac \<noteq> mac_addr (ports s port_2) \<and> neigh_mac \<noteq> mac_addr (ports s port) then
         Inr (s\<lparr>ports := (ports s)(port :=
           (ports s port)\<lparr>neighbor_mac := neigh_mac, neighbor_learned := True\<rparr>)\<rparr>)
       else Inr s)
     else Inr s)"

definition tx_packet ::
  "'w net_api \<Rightarrow> addr \<Rightarrow> addr \<Rightarrow> 16 word \<Rightarrow> ('w, 'x) net_state_scheme \<Rightarrow> ('w, 'x) net_state_scheme res" where
  "tx_packet N a out_port queue_number s =
     rbind (deref (mbufs s) a) (\<lambda>pkt.
     case rte_eth_tx_burst N (port_id (ports s out_port)) queue_number pkt (world s) of (ret, w) \<Rightarrow>
     let s = s\<lparr>world := w\<rparr> in
     rbind
       (if ret < 1 then
          rte_pktmbuf_free a (s\<lparr>instance_of := record_packet_dropped (instance_of s)\<rparr>)
        else
          Inr (s\<lparr>mbufs := (mbufs s)(a := None), sent := sent s @
            [(a, \<lparr>on_port = port_id (ports s out_port), on_queue = queue_number, contents = pkt\<rparr>)]\<rparr>))
       (\<lambda>s. Inr (s\<lparr>instance_of := record_packet_passed (instance_of s)\<rparr>)))"

text \<open>The IPv4 header starts at byte 14 of the frame; its time to live is byte 8 of the header, 22 of
  the frame, and its checksum the two bytes at 10, 24 of the frame.\<close>

definition forward_packet_with_rewrite ::
  "'w net_api \<Rightarrow> ptype_api \<Rightarrow> addr \<Rightarrow> addr \<Rightarrow> addr \<Rightarrow> 16 word \<Rightarrow> ('w, 'x) net_state_scheme \<Rightarrow>
   ('w, 'x) net_state_scheme res" where
  "forward_packet_with_rewrite N P a in_port out_port queue_number s =
     rbind (learn_neighbor_mac in_port a out_port s) (\<lambda>s.
     rbind (deref (mbufs s) a) (\<lambda>pkt.
     rbind (rblit (mb_buf pkt) 6 (mac_addr (ports s out_port))) (\<lambda>buf.
     rbind (rblit buf 0 (if neighbor_learned (ports s out_port) then neighbor_mac (ports s out_port)
                         else replicate 6 0xff)) (\<lambda>buf.
     rbind (load16 buf 12) (\<lambda>ether_type.
     if ether_type = bswap16 (RTE_ETHER_TYPE_IPV4 P) then
       rbind (rget buf 22) (\<lambda>time_to_live.
       if time_to_live > 1 then
         rbind (rset buf 22 (time_to_live - 1)) (\<lambda>buf.
         rbind (rblit buf 24 (bytes16 0)) (\<lambda>buf.
         rbind (rblit buf 24 (bytes16 (rte_ipv4_cksum N (drop 14 buf)))) (\<lambda>buf.
         tx_packet N a out_port queue_number (s\<lparr>mbufs := (mbufs s)(a \<mapsto> pkt\<lparr>mb_buf := buf\<rparr>)\<rparr>))))
       else rte_pktmbuf_free a (s\<lparr>mbufs := (mbufs s)(a \<mapsto> pkt\<lparr>mb_buf := buf\<rparr>)\<rparr>))
     else tx_packet N a out_port queue_number (s\<lparr>mbufs := (mbufs s)(a \<mapsto> pkt\<lparr>mb_buf := buf\<rparr>)\<rparr>))))))"

definition package_sending_decision ::
  "'w net_api \<Rightarrow> ptype_api \<Rightarrow> bool \<Rightarrow> addr \<Rightarrow> addr \<Rightarrow> addr \<Rightarrow> 16 word \<Rightarrow> ('w, 'x) net_state_scheme \<Rightarrow>
   ('w, 'x) net_state_scheme res" where
  "package_sending_decision N P solution a port_in port_out queue_number s =
     (if solution then forward_packet_with_rewrite N P a port_in port_out queue_number s
      else rte_pktmbuf_free a (s\<lparr>instance_of := record_packet_dropped (instance_of s)\<rparr>))"

abbreviation (input) LEN_LIST_EXCEPTION_PORTS :: nat where "LEN_LIST_EXCEPTION_PORTS \<equiv> 1"

definition LIST_EXCEPTION_PORTS :: "16 word list" where
  "LIST_EXCEPTION_PORTS = [22]"

definition check_is_exception :: "16 word \<Rightarrow> bool res" where
  "check_is_exception port =
     (let host_port = bswap16 port in
      rbind (c_for [0..<LEN_LIST_EXCEPTION_PORTS] (\<lambda>i.
        rbind (rget LIST_EXCEPTION_PORTS i) (\<lambda>p.
        Inr (if host_port = p then Return True else Continue)))) (\<lambda>r.
      Inr (case r of Some b \<Rightarrow> b | None \<Rightarrow> False)))"

section \<open>What forwarding does\<close>

text \<open>A port whose Ethernet addresses have their six bytes.\<close>

definition wf_port :: "net_port \<Rightarrow> bool" where
  "wf_port p \<longleftrightarrow> length (mac_addr p) = 6 \<and> length (neighbor_mac p) = 6"

text \<open>The ports after the source address of a frame was seen on \<open>port\<close>.\<close>

definition learned :: "(addr \<Rightarrow> net_port) \<Rightarrow> addr \<Rightarrow> addr \<Rightarrow> byte list \<Rightarrow> addr \<Rightarrow> net_port" where
  "learned ps port port_2 src =
     (if neighbor_learned (ps port) \<or> src \<in> {mac_addr (ps port_2), mac_addr (ps port)} then ps
      else ps(port := (ps port)\<lparr>neighbor_mac := src, neighbor_learned := True\<rparr>))"

definition next_hop :: "net_port \<Rightarrow> byte list" where
  "next_hop p = (if neighbor_learned p then neighbor_mac p else replicate 6 0xff)"

text \<open>The frame with new Ethernet addresses, and with a decremented time to live and a new header
  checksum.\<close>

definition with_macs :: "net_port \<Rightarrow> byte list \<Rightarrow> byte list" where
  "with_macs p buf = next_hop p @ mac_addr p @ drop 12 buf"

definition is_ipv4 :: "ptype_api \<Rightarrow> byte list \<Rightarrow> bool" where
  "is_ipv4 P buf \<longleftrightarrow> load16 buf 12 = Inr (bswap16 (RTE_ETHER_TYPE_IPV4 P))"

definition with_ttl :: "'w net_api \<Rightarrow> byte list \<Rightarrow> byte list" where
  "with_ttl N buf =
     (let ip = (drop 14 buf)[8 := buf ! 22 - 1, 10 := 0, 11 := 0]
      in take 14 buf @ take 10 ip @ bytes16 (rte_ipv4_cksum N ip) @ drop 12 ip)"

definition rewritten :: "'w net_api \<Rightarrow> ptype_api \<Rightarrow> net_port \<Rightarrow> byte list \<Rightarrow> byte list" where
  "rewritten N P p buf =
     (if is_ipv4 P buf then with_ttl N (with_macs p buf) else with_macs p buf)"

lemma learn_run:
  assumes "mbufs s a = Some pkt" "14 \<le> length (mb_buf pkt)"
  shows "learn_neighbor_mac port a port_2 s =
     Inr (s\<lparr>ports := learned (ports s) port port_2 (take 6 (drop 6 (mb_buf pkt)))\<rparr>)"
  using assms by (auto simp: learn_neighbor_mac_def learned_def)

lemma learned_mac [simp]: "mac_addr (learned ps p q src r) = mac_addr (ps r)"
  by (simp add: learned_def)

lemma learned_port_id [simp]: "port_id (learned ps p q src r) = port_id (ps r)"
  by (simp add: learned_def)

lemma wf_learned: "wf_port (ps r) \<Longrightarrow> length src = 6 \<Longrightarrow> wf_port (learned ps p q src r)"
  by (auto simp: learned_def wf_port_def)

lemma length_next_hop [simp]: "wf_port p \<Longrightarrow> length (next_hop p) = 6"
  by (simp add: next_hop_def wf_port_def)

lemma load16_append: "length xs \<le> i \<Longrightarrow> load16 (xs @ ys) i = load16 ys (i - length xs)"
  by (auto simp: load16_def rslice_def)

lemma ipv4_with_macs:
  assumes "wf_port p" "14 \<le> length buf"
  shows "load16 (with_macs p buf) 12 = load16 buf 12"
proof -
  have "load16 (with_macs p buf) 12 = load16 (drop 12 buf) 0"
    using assms(1) by (simp add: with_macs_def load16_append wf_port_def)
  also have "\<dots> = load16 (take 12 buf @ drop 12 buf) 12"
    using assms(2) by (subst load16_append) (simp_all add: min_absorb2)
  finally show ?thesis by simp
qed

lemma length_with_macs: "wf_port p \<Longrightarrow> 12 \<le> length buf \<Longrightarrow> length (with_macs p buf) = length buf"
  by (simp add: with_macs_def wf_port_def)

lemma blit_macs:
  assumes "wf_port p" "12 \<le> length buf"
  shows "rbind (rblit buf 6 (mac_addr p)) (\<lambda>buf. rbind (rblit buf 0 (next_hop p)) f) = f (with_macs p buf)"
  using assms by (simp add: with_macs_def wf_port_def)

lemma blit_ttl:
  assumes "26 \<le> length buf"
  shows "rbind (rset buf 22 (buf ! 22 - 1)) (\<lambda>buf. rbind (rblit buf 24 (bytes16 0)) (\<lambda>buf.
     rbind (rblit buf 24 (bytes16 (rte_ipv4_cksum N (drop 14 buf)))) f)) = f (with_ttl N buf)"
proof -
  let ?b1 = "buf[22 := buf ! 22 - 1]"
  let ?b2 = "take 24 ?b1 @ bytes16 0 @ drop 26 ?b1"
  let ?ip = "(drop 14 buf)[8 := buf ! 22 - 1, 10 := 0, 11 := 0]"
  have ip: "drop 14 ?b2 = ?ip"
    using assms by (intro nth_equalityI) (auto simp: nth_append nth_list_update bytes16_def nth_Cons')
  have "take 24 ?b2 = take 14 buf @ take 10 ?ip"
    using assms by (intro nth_equalityI) (auto simp: nth_append nth_list_update)
  moreover have "drop 26 ?b2 = drop 12 ?ip"
    unfolding ip [symmetric] by (simp only: drop_drop) simp
  moreover have "rblit ?b1 24 (bytes16 0) = Inr ?b2"
    using assms by simp
  moreover have "rblit ?b2 24 (bytes16 (rte_ipv4_cksum N ?ip)) =
      Inr (take 24 ?b2 @ bytes16 (rte_ipv4_cksum N ?ip) @ drop 26 ?b2)"
    using assms by (subst rblit_Inr) (simp_all del: take_append drop_append)
  ultimately show ?thesis
    using assms ip by (simp only: rset_Inr rbind_Inr with_ttl_def Let_def append_assoc)
qed

text \<open>Forwarding, in one equation: learn, rewrite, and free or transmit.\<close>

lemma forward_run:
  assumes pkt: "mbufs s a = Some pkt" "26 \<le> length (mb_buf pkt)" and wf: "wf_port (ports s out_port)"
    and ps: "ps = learned (ports s) in_port out_port (take 6 (drop 6 (mb_buf pkt)))"
  shows "forward_packet_with_rewrite N P a in_port out_port q s =
     (if is_ipv4 P (mb_buf pkt) \<and> mb_buf pkt ! 22 \<le> 1
      then Inr (s\<lparr>ports := ps, mbufs := (mbufs s)(a := None), freed := freed s @ [a]\<rparr>)
      else tx_packet N a out_port q (s\<lparr>ports := ps,
        mbufs := (mbufs s)(a \<mapsto> pkt\<lparr>mb_buf := rewritten N P (ps out_port) (mb_buf pkt)\<rparr>)\<rparr>))"
proof -
  have wf': "wf_port (ps out_port)"
    using wf pkt(2) by (simp add: ps wf_learned)
  have nth: "with_macs (ps out_port) (mb_buf pkt) ! 22 = mb_buf pkt ! 22"
    using wf' pkt(2) by (simp add: with_macs_def nth_append wf_port_def)
  have ipv4: "load16 (with_macs (ps out_port) (mb_buf pkt)) 12 = load16 (mb_buf pkt) 12"
    using ipv4_with_macs [OF wf'] pkt(2) by simp
  have tests: "rget (with_macs (ps out_port) (mb_buf pkt)) 22 = Inr (mb_buf pkt ! 22)"
    "rbind (load16 (with_macs (ps out_port) (mb_buf pkt)) 12) (\<lambda>t. if t = bswap16 (RTE_ETHER_TYPE_IPV4 P) then x else y) =
       (if is_ipv4 P (mb_buf pkt) then x else y)" for x y :: "('a, 'b) net_state_scheme res"
    using nth pkt(2) length_with_macs [OF wf', of "mb_buf pkt"] ipv4
    by (auto simp: is_ipv4_def load16_def)
  have ttl: "rbind (rset (with_macs (ps out_port) (mb_buf pkt)) 22 (mb_buf pkt ! 22 - 1)) (\<lambda>buf.
      rbind (rblit buf 24 (bytes16 0)) (\<lambda>buf.
      rbind (rblit buf 24 (bytes16 (rte_ipv4_cksum N (drop 14 buf)))) f)) =
      f (with_ttl N (with_macs (ps out_port) (mb_buf pkt)))" for f :: "_ \<Rightarrow> ('a, 'b) net_state_scheme res"
    using blit_ttl [of "with_macs (ps out_port) (mb_buf pkt)"] nth pkt(2) length_with_macs [OF wf', of "mb_buf pkt"]
    by simp
  have learn: "learn_neighbor_mac in_port a out_port s = Inr (s\<lparr>ports := ps\<rparr>)"
    using learn_run [of s a pkt in_port out_port] pkt ps by simp
  show ?thesis
    unfolding forward_packet_with_rewrite_def learn rbind_Inr next_hop_def [symmetric]
    using pkt
    by (simp add: blit_macs [OF wf'] tests ttl rte_pktmbuf_free_def rewritten_def not_le flip: not_less)
qed

lemma tx_run:
  assumes "mbufs s a = Some pkt"
    and "rte_eth_tx_burst N (port_id (ports s out_port)) q pkt (world s) = (r, w)"
  shows "tx_packet N a out_port q s = Inr
     (if r < 1
      then s\<lparr>world := w, mbufs := (mbufs s)(a := None), freed := freed s @ [a],
        instance_of := record_packet_passed (record_packet_dropped (instance_of s))\<rparr>
      else s\<lparr>world := w, mbufs := (mbufs s)(a := None),
        sent := sent s @ [(a, \<lparr>on_port = port_id (ports s out_port), on_queue = q, contents = pkt\<rparr>)],
        instance_of := record_packet_passed (instance_of s)\<rparr>)"
  using assms by (simp add: tx_packet_def rte_pktmbuf_free_def Let_def)

text \<open>What every disposal of a packet has in common: its mbuf leaves the program's hands once,
  by the device or by the pool, and apart from the ports' neighbours, the counters and the
  device nothing else changes.\<close>

definition disposed ::
  "'w net_api \<Rightarrow> addr \<Rightarrow> ('w, 'x) net_state_scheme \<Rightarrow> ('w, 'x) net_state_scheme \<Rightarrow> bool" where
  "disposed N a s s' \<longleftrightarrow>
     mbufs s' = (mbufs s)(a := None) \<and>
     (sent s' = sent s \<and> freed s' = freed s @ [a] \<or>
      (\<exists>f. sent s' = sent s @ [(a, f)]) \<and> freed s' = freed s) \<and>
     (\<forall>p. wf_port (ports s p) \<longrightarrow> wf_port (ports s' p)) \<and>
     (world s' = world s \<or> (\<exists>p q m. world s' = snd (rte_eth_tx_burst N p q m (world s)))) \<and>
     configuration (instance_of s') = configuration (instance_of s) \<and>
     net_state.more s' = net_state.more s"

lemma tx_disposed:
  assumes "mbufs s a = Some pkt"
  shows "\<exists>s'. tx_packet N a out_port q s = Inr s' \<and> disposed N a s s'"
proof -
  obtain r w where tx: "rte_eth_tx_burst N (port_id (ports s out_port)) q pkt (world s) = (r, w)" by fastforce
  then have "\<exists>p q m. w = snd (rte_eth_tx_burst N p q m (world s))" by (metis snd_conv)
  then show ?thesis
    unfolding tx_run [OF assms tx] by (simp add: disposed_def)
qed

lemma forward_disposed:
  assumes pkt: "mbufs s a = Some pkt" "26 \<le> length (mb_buf pkt)" and wf: "wf_port (ports s out_port)"
  shows "\<exists>s'. forward_packet_with_rewrite N P a in_port out_port q s = Inr s' \<and> disposed N a s s'"
proof -
  define ps where "ps = learned (ports s) in_port out_port (take 6 (drop 6 (mb_buf pkt)))"
  let ?s = "s\<lparr>ports := ps, mbufs := (mbufs s)(a \<mapsto> pkt\<lparr>mb_buf := rewritten N P (ps out_port) (mb_buf pkt)\<rparr>)\<rparr>"
  have keep: "wf_port (ps p)" if "wf_port (ports s p)" for p
    using that pkt(2) by (simp add: ps_def wf_learned)
  obtain s' where "tx_packet N a out_port q ?s = Inr s'" "disposed N a ?s s'"
    using tx_disposed [of ?s a _ N out_port q] by auto
  then show ?thesis
    unfolding forward_run [OF pkt wf ps_def] using keep by (auto simp: disposed_def)
qed

lemma decision_disposed:
  assumes "mbufs s a = Some pkt" "26 \<le> length (mb_buf pkt)" "wf_port (ports s port_out)"
  shows "\<exists>s'. package_sending_decision N P d a port_in port_out q s = Inr s' \<and> disposed N a s s'"
proof (cases d)
  case True
  then show ?thesis using forward_disposed [OF assms] by (simp add: package_sending_decision_def)
next
  case False
  then show ?thesis
    using assms(1) by (auto simp: package_sending_decision_def rte_pktmbuf_free_def disposed_def)
qed

lemma decision_port:
  assumes "mbufs s a = Some pkt" "26 \<le> length (mb_buf pkt)" "wf_port (ports s port_out)"
    and "package_sending_decision N P d a port_in port_out q s = Inr s'" "sent s' = sent s @ [(a, f)]"
  shows "on_port f = port_id (ports s port_out)"
  using assms(1,4,5) unfolding package_sending_decision_def forward_run [OF assms(1-3) refl]
  by (auto simp: rte_pktmbuf_free_def tx_packet_def Let_def rbind_eq_Inr_iff split: if_splits prod.splits)

lemma check_is_exception_eq: "check_is_exception port = Inr (port = bswap16 22)"
  using bswap16_inject [of "bswap16 port" 22] by (auto simp: check_is_exception_def LIST_EXCEPTION_PORTS_def)

section \<open>Concrete devices\<close>

text \<open>A device that takes every frame and has received none, and one that refuses every frame.\<close>

definition ref_net :: "'w net_api" where
  "ref_net = \<lparr>rte_eth_rx_burst = (\<lambda>p q n w. ([], w)), rte_eth_tx_burst = (\<lambda>p q m w. (1, w)),
     rte_ipv4_cksum = (\<lambda>ip. 0)\<rparr>"

definition sample_port :: net_port where
  "sample_port =
     \<lparr>port_id = 1, iface_name = [0], dev_name = [0], dev_args = [0], mbuf_pool = None,
      mac_addr = [2, 0, 0, 0, 0, 1], neighbor_mac = replicate 6 0, neighbor_learned = False\<rparr>"

definition sample_net_state :: "unit net_state" where
  "sample_net_state =
     \<lparr>world = (), ports = (\<lambda>_. sample_port), mbufs = [7 \<mapsto> \<lparr>mb_buf = replicate 64 9, data_len = 64\<rparr>],
      sent = [], freed = [], instance_of = Some sample_worker\<rparr>"

lemma sample_net_facts:
  "mbufs sample_net_state 7 = Some \<lparr>mb_buf = replicate 64 9, data_len = 64\<rparr>"
  "26 \<le> length (mb_buf \<lparr>mb_buf = replicate 64 9, data_len = 64\<rparr>)"
  "wf_port (ports sample_net_state p)" "instance_of sample_net_state = Some sample_worker"
  by (simp_all add: sample_net_state_def sample_port_def wf_port_def)

section \<open>Properties\<close>

text \<open>
  C18.  Forwarding a packet, on every branch.  The source address of the frame is remembered as
  the neighbour of the incoming port if that port has none yet and the address is not one of the
  two ports' own.  The frame gets the outgoing port's address as source and the outgoing
  port's neighbour, or the broadcast address, as destination.  An IPv4 packet whose time to live
  is at most 1 is freed; every other packet, IPv4 with a decremented time to live and a new
  checksum, is offered to the device once, and freed if the device does not take it.
\<close>

theorem forward_packet_rewrites:
  assumes "mbufs s a = Some pkt" "26 \<le> length (mb_buf pkt)" "wf_port (ports s out_port)"
  shows "forward_packet_with_rewrite N P a in_port out_port q s =
     (let ps = learned (ports s) in_port out_port (take 6 (drop 6 (mb_buf pkt)));
          pkt' = pkt\<lparr>mb_buf := rewritten N P (ps out_port) (mb_buf pkt)\<rparr>;
          (r, w) = rte_eth_tx_burst N (port_id (ports s out_port)) q pkt' (world s)
      in if is_ipv4 P (mb_buf pkt) \<and> mb_buf pkt ! 22 \<le> 1
         then Inr (s\<lparr>ports := ps, mbufs := (mbufs s)(a := None), freed := freed s @ [a]\<rparr>)
         else if r = 0
         then Inr (s\<lparr>world := w, ports := ps, mbufs := (mbufs s)(a := None), freed := freed s @ [a],
           instance_of := record_packet_passed (record_packet_dropped (instance_of s))\<rparr>)
         else Inr (s\<lparr>world := w, ports := ps, mbufs := (mbufs s)(a := None),
           sent := sent s @
             [(a, \<lparr>on_port = port_id (ports s out_port), on_queue = q, contents = pkt'\<rparr>)],
           instance_of := record_packet_passed (instance_of s)\<rparr>))"
  unfolding forward_run [OF assms refl] using assms(1)
  by (auto simp: Let_def tx_run [where pkt = "pkt\<lparr>mb_buf := _\<rparr>"] split: prod.splits)

theorem forward_packet_rewrites_witness:
  "\<exists>s'. forward_packet_with_rewrite ref_net (sample_ptypes 0) 7 0 1 0 sample_net_state = Inr s' \<and>
     mbufs s' 7 = None \<and> map fst (sent s') = [7] \<and> freed s' = []"
  using forward_packet_rewrites [OF sample_net_facts(1,2,3), of ref_net "sample_ptypes 0" 0 1 0]
  by (simp add: Let_def ref_net_def word_le_nat_alt) (simp add: sample_net_state_def)

text \<open>The rewriting changes no byte but the Ethernet addresses, the time to live and the checksum.\<close>

lemma length_rewritten:
  "wf_port p \<Longrightarrow> 26 \<le> length buf \<Longrightarrow> length (rewritten N P p buf) = length buf"
  by (auto simp: rewritten_def with_ttl_def length_with_macs Let_def)

lemma nth_with_macs: "wf_port p \<Longrightarrow> 12 \<le> i \<Longrightarrow> i < length buf \<Longrightarrow> with_macs p buf ! i = buf ! i"
  by (auto simp: with_macs_def nth_append wf_port_def)

lemma nth_with_ttl:
  assumes "26 \<le> length buf" "i < length buf" "i \<notin> {22, 24, 25}"
  shows "with_ttl N buf ! i = buf ! i"
  using assms by (auto simp: with_ttl_def Let_def nth_append nth_list_update)

lemma nth_rewritten:
  assumes "wf_port p" "26 \<le> length buf" "12 \<le> i" "i < length buf" "i \<notin> {22, 24, 25}"
  shows "rewritten N P p buf ! i = buf ! i"
  using assms nth_with_ttl [of "with_macs p buf" i N]
  by (simp add: rewritten_def nth_with_macs length_with_macs)

lemma take_rewritten:
  "wf_port p \<Longrightarrow> 26 \<le> length buf \<Longrightarrow> take 12 (rewritten N P p buf) = next_hop p @ mac_addr p"
  by (simp add: rewritten_def with_ttl_def with_macs_def wf_port_def Let_def min_def)

lemma ttl_rewritten:
  "wf_port p \<Longrightarrow> 26 \<le> length buf \<Longrightarrow> rewritten N P p buf ! 22 = (if is_ipv4 P buf then buf ! 22 - 1 else buf ! 22)"
  using nth_with_macs [of p 22 buf]
  by (simp add: rewritten_def with_ttl_def Let_def nth_append length_with_macs)

text \<open>
  C19.  A frame that forwarding hands to the device has the length of the packet, the outgoing
  port's addresses in its first 12 bytes, and, for IPv4, a time to live that is one less and
  did not wrap around.  Except for the two checksum bytes every other byte is the packet's.
\<close>

theorem forwarded_frame_bytes:
  assumes "mbufs s a = Some pkt" "26 \<le> length (mb_buf pkt)" "wf_port (ports s out_port)"
    and "forward_packet_with_rewrite N P a in_port out_port q s = Inr s'"
    and "sent s' = sent s @ [(a, f)]"
  shows "length (mb_buf (contents f)) = length (mb_buf pkt) \<and> on_port f = port_id (ports s out_port) \<and>
     take 12 (mb_buf (contents f)) = next_hop (ports s' out_port) @ mac_addr (ports s out_port) \<and>
     (is_ipv4 P (mb_buf pkt) \<longrightarrow> 1 \<le> mb_buf (contents f) ! 22 \<and>
        unat (mb_buf (contents f) ! 22) = unat (mb_buf pkt ! 22) - 1) \<and>
     (\<forall>i < length (mb_buf pkt). i \<in> {..<12} \<union> {22, 24, 25} \<or> mb_buf (contents f) ! i = mb_buf pkt ! i)"
proof -
  define ps where "ps = learned (ports s) in_port out_port (take 6 (drop 6 (mb_buf pkt)))"
  let ?pkt = "pkt\<lparr>mb_buf := rewritten N P (ps out_port) (mb_buf pkt)\<rparr>"
  have wf: "wf_port (ps out_port)"
    using assms(2,3) by (simp add: ps_def wf_learned)
  obtain r w where tx: "rte_eth_tx_burst N (port_id (ports s out_port)) q ?pkt (world s) = (r, w)" by fastforce
  have f: "f = \<lparr>on_port = port_id (ports s out_port), on_queue = q, contents = ?pkt\<rparr>"
    and ps: "ports s' = ps" and ttl: "is_ipv4 P (mb_buf pkt) \<Longrightarrow> 1 < mb_buf pkt ! 22"
    using assms(4,5) tx unfolding forward_run [OF assms(1-3) ps_def]
    by (auto simp: tx_run [where pkt = ?pkt] ps_def split: if_splits)
  have "1 \<le> mb_buf pkt ! 22 - 1 \<and> unat (mb_buf pkt ! 22 - 1) = unat (mb_buf pkt ! 22) - 1"
    if "is_ipv4 P (mb_buf pkt)"
    using ttl [OF that] by (simp add: word_less_nat_alt word_le_nat_alt unat_sub_if')
  moreover have "i \<in> {..<12} \<union> {22, 24, 25} \<or> rewritten N P (ps out_port) (mb_buf pkt) ! i = mb_buf pkt ! i"
    if "i < length (mb_buf pkt)" for i
    using nth_rewritten [OF wf assms(2) _ that] by (cases "12 \<le> i") auto
  ultimately show ?thesis
    using wf assms(2)
    by (auto simp: f ps length_rewritten take_rewritten ttl_rewritten) (auto simp: ps_def)
qed

theorem forwarded_frame_bytes_witness:
  "\<exists>s' f. forward_packet_with_rewrite ref_net (sample_ptypes 0) 7 0 1 0 sample_net_state = Inr s' \<and>
     sent s' = [(7, f)] \<and> length (mb_buf (contents f)) = 64 \<and> mb_buf (contents f) ! 30 = 9"
proof -
  obtain s' f where run: "forward_packet_with_rewrite ref_net (sample_ptypes 0) 7 0 1 0 sample_net_state = Inr s'"
    and f: "sent s' = sent sample_net_state @ [(7, f)]"
    unfolding forward_run [OF sample_net_facts(1-3) refl]
    by (simp add: tx_packet_def ref_net_def Let_def word_le_nat_alt)
  have "mb_buf (contents f) ! 30 = (9 :: byte) \<and> length (mb_buf (contents f)) = 64"
    using forwarded_frame_bytes [OF sample_net_facts(1-3) run f] by (auto dest!: spec [of _ 30])
  with run f show ?thesis by (auto simp: sample_net_state_def)
qed

text \<open>
  C20.  Carrying out a decision never faults and disposes of the packet exactly once, to the
  device or to the pool.  A packet that is not to be sent is counted as dropped.  A packet to be
  sent is counted as passed unless its time to live has run out, in which case it is freed and
  not counted at all; a packet that the device refuses is counted both as dropped and as passed.
\<close>

theorem decision_accounting:
  assumes "mbufs s a = Some pkt" "26 \<le> length (mb_buf pkt)" "wf_port (ports s port_out)"
    and "instance_of s = Some wk"
  shows "\<exists>s' wk'. package_sending_decision N P d a port_in port_out q s = Inr s' \<and> disposed N a s s' \<and>
     instance_of s' = Some wk' \<and> local_packets_received wk' = local_packets_received wk \<and>
     (local_packets_passed wk', local_packets_dropped wk') =
       (if \<not> d then (local_packets_passed wk, local_packets_dropped wk + 1)
        else if is_ipv4 P (mb_buf pkt) \<and> mb_buf pkt ! 22 \<le> 1
        then (local_packets_passed wk, local_packets_dropped wk)
        else (local_packets_passed wk + 1,
              if sent s' = sent s then local_packets_dropped wk + 1 else local_packets_dropped wk))"
proof -
  obtain s' where run: "package_sending_decision N P d a port_in port_out q s = Inr s'" "disposed N a s s'"
    using decision_disposed [OF assms(1-3)] by blast
  define ps where "ps = learned (ports s) port_in port_out (take 6 (drop 6 (mb_buf pkt)))"
  let ?pkt = "pkt\<lparr>mb_buf := rewritten N P (ps port_out) (mb_buf pkt)\<rparr>"
  obtain r w where tx: "rte_eth_tx_burst N (port_id (ports s port_out)) q ?pkt (world s) = (r, w)" by fastforce
  have "instance_of s' =
      (if \<not> d then record_packet_dropped (instance_of s)
       else if is_ipv4 P (mb_buf pkt) \<and> mb_buf pkt ! 22 \<le> 1 then instance_of s
       else if sent s' = sent s then record_packet_passed (record_packet_dropped (instance_of s))
       else record_packet_passed (instance_of s))"
    using run(1) assms(1) tx
    unfolding package_sending_decision_def forward_run [OF assms(1-3) ps_def]
    by (auto simp: rte_pktmbuf_free_def tx_run [where pkt = ?pkt] ps_def split: if_splits)
  with run assms(4) show ?thesis
    by (auto simp: record_packet_dropped_def record_packet_passed_def)
qed

theorem decision_accounting_witness:
  "\<exists>s' wk'. package_sending_decision ref_net (sample_ptypes 0) False 7 0 1 0 sample_net_state = Inr s' \<and>
     instance_of s' = Some wk' \<and> local_packets_dropped wk' = 1"
  using decision_accounting [OF sample_net_facts, of ref_net "sample_ptypes 0" False 0 1 0]
  by (auto simp: sample_worker_def)

end
