(* ===== verification/Packet_Filter.thy ===== *)
theory Packet_Filter
  imports Types
begin

text \<open>
  The filter decisions of \<open>src/dpdk_filter/filtr_packets.c\<close>: the lookups in the policy's
  lists, the category and trust checks, and the two entry points for domains and addresses.
  The first part translates the functions; the second gives what the lists mean as sets and
  shows that every function decides exactly that, on every branch.
\<close>

section \<open>The functions\<close>

definition check_domain_is_block :: "byte list \<Rightarrow> byte list list \<Rightarrow> bool res" where
  "check_domain_is_block name blocked =
     rbind (c_for [0..<MAX_DOMAINS] (\<lambda>i.
        rbind (rget blocked i) (\<lambda>row.
        rbind (rget row 0) (\<lambda>c.
        if c = 0 then Inr Break
        else rbind (c_strcmp row name) (\<lambda>r. if r = 0 then Inr (Return True) else Inr Continue)))))
     (\<lambda>r. case r of Some b \<Rightarrow> Inr b | None \<Rightarrow> Inr False)"

definition check_domain_is_allow :: "byte list \<Rightarrow> byte list list \<Rightarrow> bool res" where
  "check_domain_is_allow name allowed =
     rbind (c_for [0..<MAX_DOMAINS] (\<lambda>i.
        rbind (rget allowed i) (\<lambda>row.
        rbind (rget row 0) (\<lambda>c.
        if c = 0 then Inr Break
        else rbind (c_strcmp row name) (\<lambda>r. if r = 0 then Inr (Return True) else Inr Continue)))))
     (\<lambda>r. case r of Some b \<Rightarrow> Inr b | None \<Rightarrow> Inr False)"

definition check_trust_level :: "int \<Rightarrow> int \<Rightarrow> bool" where
  "check_trust_level got minimum = (if got < minimum then False else True)"

definition check_ip_is_block :: "info_of_pakage \<Rightarrow> BASE_POLICY \<Rightarrow> bool res" where
  "check_ip_is_block info policy =
     rbind
       (if ip_version info = IP_4 then
          c_for [0..<MAX_IP4] (\<lambda>i.
            rbind (rget (block_ip4 policy) i) (\<lambda>a.
            if a = 0 then Inr Break
            else if ip4_dist info = a then Inr (Return True) else Inr Continue))
        else
          c_for [0..<MAX_IP6] (\<lambda>i.
            rbind (rget (block_ip6 policy) i) (\<lambda>row.
            rbind (rget row 0) (\<lambda>c.
            if c = 0 then Inr Break
            else rbind (c_memeq (ip6_dist info) row IP6_LEN) (\<lambda>e.
              if e then Inr (Return True) else Inr Continue)))))
     (\<lambda>r. case r of Some b \<Rightarrow> Inr b | None \<Rightarrow> Inr False)"

definition check_ip_is_allow :: "info_of_pakage \<Rightarrow> BASE_POLICY \<Rightarrow> bool res" where
  "check_ip_is_allow info policy =
     rbind
       (if ip_version info = IP_4 then
          c_for [0..<MAX_IP4] (\<lambda>i.
            rbind (rget (allow_ip4 policy) i) (\<lambda>a.
            if a = 0 then Inr Break
            else if ip4_dist info = a then Inr (Return True) else Inr Continue))
        else
          c_for [0..<MAX_IP6] (\<lambda>i.
            rbind (rget (allow_ip6 policy) i) (\<lambda>row.
            rbind (rget row 0) (\<lambda>c.
            if c = 0 then Inr Break
            else rbind (c_memeq (ip6_dist info) row IP6_LEN) (\<lambda>e.
              if e then Inr (Return True) else Inr Continue)))))
     (\<lambda>r. case r of Some b \<Rightarrow> Inr b | None \<Rightarrow> Inr False)"

text \<open>The inner loop over \<open>j\<close> of the two category checks is a function of its own.\<close>

definition categories_row :: "byte list list \<Rightarrow> byte list list \<Rightarrow> nat \<Rightarrow> bool ctl res" where
  "categories_row got locked i =
     rbind (c_for [0..<MAX_CATEGORIES] (\<lambda>j.
       rbind (rget got i) (\<lambda>g.
       rbind (rget locked j) (\<lambda>l.
       rbind (c_strcmp g l) (\<lambda>r. if r = 0 then Inr (Return False) else Inr Continue)))))
     (\<lambda>r. case r of Some b \<Rightarrow> Inr (Return b) | None \<Rightarrow> Inr Continue)"

definition check_categories :: "byte list list \<Rightarrow> byte list list \<Rightarrow> bool res" where
  "check_categories got locked =
     rbind (c_for [0..<MAX_CATEGORIES] (categories_row got locked))
     (\<lambda>r. case r of Some b \<Rightarrow> Inr b | None \<Rightarrow> Inr True)"

definition level_row ::
  "requested_classification \<Rightarrow> trust_categories_with_lvl list \<Rightarrow> nat \<Rightarrow> bool ctl res" where
  "level_row req lvls i =
     rbind (c_for [0..<MAX_CATEGORIES] (\<lambda>j.
       rbind (rget (get_categories req) j) (\<lambda>g.
       rbind (rget lvls i) (\<lambda>l.
       rbind (c_strcmp g (locked_by_trust_category l)) (\<lambda>r.
         if r = 0 then
           (if get_trust_level req < lvl_trust_lvl l then Inr (Return False) else Inr Continue)
         else Inr Continue)))))
     (\<lambda>r. case r of Some b \<Rightarrow> Inr (Return b) | None \<Rightarrow> Inr Continue)"

text \<open>The outer loop of the source runs to \<open>MAX_CATEGORIES\<close> over an array of
  \<open>MAX_CATEGORIES_BY_TRUST_LVL\<close> entries.\<close>

definition check_categories_with_lvl ::
  "requested_classification \<Rightarrow> trust_categories_with_lvl list \<Rightarrow> bool res" where
  "check_categories_with_lvl req lvls =
     rbind (c_for [0..<MAX_CATEGORIES] (level_row req lvls))
     (\<lambda>r. case r of Some b \<Rightarrow> Inr b | None \<Rightarrow> Inr True)"

text \<open>\<open>&&\<close> of the source evaluates the string comparison only for trust level 0.\<close>

definition check_categories_and_trust_level ::
  "requested_classification \<Rightarrow> BASE_POLICY \<Rightarrow> bool res" where
  "check_categories_and_trust_level req policy =
     rbind (if get_trust_level req = 0 then
              rbind (rget (get_categories req) 0) (\<lambda>c.
              rbind (c_strcmp c (c_lit ''unknown'')) (\<lambda>r. if r = 0 then Inr True else Inr False))
            else Inr False) (\<lambda>unknown.
     if unknown then Inr True
     else rbind (check_categories (get_categories req) (locked_categories policy)) (\<lambda>ok.
       if \<not> ok then Inr False
       else if \<not> check_trust_level (get_trust_level req) (min_trust_level policy) then Inr False
       else rbind (check_categories_with_lvl req (categories_with_lvl policy)) (\<lambda>ok.
         if \<not> ok then Inr False else Inr True)))"

definition main_filtring_by_domain ::
  "requested_classification \<Rightarrow> BASE_POLICY \<Rightarrow> info_of_pakage \<Rightarrow> bool res" where
  "main_filtring_by_domain req policy info =
     rbind (check_domain_is_block (domain info) (block_domains policy)) (\<lambda>b.
     if b then Inr False
     else rbind (check_domain_is_allow (domain info) (allow_domains policy)) (\<lambda>a.
       if a then Inr True
       else check_categories_and_trust_level req policy))"

definition main_filtring_by_ip ::
  "requested_classification \<Rightarrow> BASE_POLICY \<Rightarrow> info_of_pakage \<Rightarrow> bool res" where
  "main_filtring_by_ip req policy info =
     rbind (check_ip_is_block info policy) (\<lambda>b.
     if b then Inr False
     else rbind (check_ip_is_allow info policy) (\<lambda>a.
       if a then Inr True
       else check_categories_and_trust_level req policy))"

section \<open>What the lists of a policy mean\<close>

text \<open>
  The entries of a string list are the strings before the first empty row; those of an
  IPv4 list are the addresses before the first zero; those of an IPv6 list are the
  addresses before the first one whose leading byte is zero.
\<close>

definition domain_entries :: "byte list list \<Rightarrow> byte list set" where
  "domain_entries t = cstr ` set (takeWhile (\<lambda>r. r ! 0 \<noteq> 0) t)"

definition ip4_entries :: "32 word list \<Rightarrow> 32 word set" where
  "ip4_entries t = set (takeWhile (\<lambda>a. a \<noteq> 0) t)"

definition ip6_entries :: "byte list list \<Rightarrow> byte list set" where
  "ip6_entries t = set (takeWhile (\<lambda>r. r ! 0 \<noteq> 0) t)"

definition ip_listed :: "info_of_pakage \<Rightarrow> 32 word list \<Rightarrow> byte list list \<Rightarrow> bool" where
  "ip_listed info l4 l6 \<longleftrightarrow>
     (if ip_version info = IP_4 then ip4_dist info \<in> ip4_entries l4
      else ip6_dist info \<in> ip6_entries l6)"

text \<open>All rows of a category table count, the empty ones included.\<close>

definition category_names :: "byte list list \<Rightarrow> byte list set" where
  "category_names t = cstr ` set t"

definition is_unknown :: "requested_classification \<Rightarrow> bool" where
  "is_unknown req \<longleftrightarrow>
     get_trust_level req = 0 \<and> cstr (get_categories req ! 0) = cstr (c_lit ''unknown'')"

definition locked_by_level :: "requested_classification \<Rightarrow> trust_categories_with_lvl list \<Rightarrow> bool" where
  "locked_by_level req lvls \<longleftrightarrow>
     (\<exists>l \<in> set lvls. cstr (locked_by_trust_category l) \<in> category_names (get_categories req)
        \<and> get_trust_level req < lvl_trust_lvl l)"

section \<open>Every check decides its meaning\<close>

lemma domain_search:
  assumes "string_table MAX_DOMAINS m t" "0 < m" "nul_term name"
  shows "c_for [0..<MAX_DOMAINS] (\<lambda>i.
        rbind (rget t i) (\<lambda>row.
        rbind (rget row 0) (\<lambda>c.
        if c = 0 then Inr Break
        else rbind (c_strcmp row name) (\<lambda>r. if r = 0 then Inr (Return True) else Inr Continue)))) =
     Inr (if cstr name \<in> domain_entries t then Some True else None)"
proof -
  have len: "MAX_DOMAINS = length t" using assms(1) by (simp add: string_table_def)
  have "c_for [0..<MAX_DOMAINS] (\<lambda>i.
        rbind (rget t i) (\<lambda>row.
        rbind (rget row 0) (\<lambda>c.
        if c = 0 then Inr Break
        else rbind (c_strcmp row name) (\<lambda>r. if r = 0 then Inr (Return True) else Inr Continue)))) =
      Inr (if \<exists>i \<in> set (takeWhile (\<lambda>i. \<not> t ! i ! 0 = 0) [0..<MAX_DOMAINS]). cstr (t ! i) = cstr name
           then Some True else None)"
    by (rule c_for_search) (use string_table_nth [OF assms(1)] assms(2,3) in
      \<open>simp add: c_strcmp_eq_0\<close>)
  then show ?thesis
    by (simp add: ex_takeWhile_upt [OF len, where P = "\<lambda>r. r ! 0 \<noteq> 0" and Q = "\<lambda>r. cstr r = cstr name"]
        domain_entries_def image_iff eq_commute [of "cstr name"])
qed

lemma check_domain_is_block_eq:
  assumes "string_table MAX_DOMAINS DOMAIN_MAX_LEN t" "nul_term name"
  shows "check_domain_is_block name t = Inr (cstr name \<in> domain_entries t)"
  unfolding check_domain_is_block_def using assms by (simp add: domain_search)

lemma check_domain_is_allow_eq:
  assumes "string_table MAX_DOMAINS DOMAIN_MAX_LEN t" "nul_term name"
  shows "check_domain_is_allow name t = Inr (cstr name \<in> domain_entries t)"
  unfolding check_domain_is_allow_def using assms by (simp add: domain_search)


lemma ip4_search:
  assumes "length t = MAX_IP4"
  shows "c_for [0..<MAX_IP4] (\<lambda>i.
            rbind (rget t i) (\<lambda>a.
            if a = 0 then Inr Break
            else if d = a then Inr (Return True) else Inr Continue)) =
     Inr (if d \<in> ip4_entries t then Some True else None)"
proof -
  have "c_for [0..<MAX_IP4] (\<lambda>i.
            rbind (rget t i) (\<lambda>a.
            if a = 0 then Inr Break
            else if d = a then Inr (Return True) else Inr Continue)) =
      Inr (if \<exists>i \<in> set (takeWhile (\<lambda>i. \<not> t ! i = 0) [0..<MAX_IP4]). d = t ! i then Some True else None)"
    by (rule c_for_search) (use assms in simp)
  then show ?thesis
    by (simp add: ex_takeWhile_upt [where P = "\<lambda>a. a \<noteq> 0" and Q = "\<lambda>a. d = a"] assms ip4_entries_def)
qed

lemma ip6_search:
  assumes "length t = MAX_IP6" "list_all (\<lambda>r. length r = IP6_LEN) t" "length d = IP6_LEN"
  shows "c_for [0..<MAX_IP6] (\<lambda>i.
            rbind (rget t i) (\<lambda>row.
            rbind (rget row 0) (\<lambda>c.
            if c = 0 then Inr Break
            else rbind (c_memeq d row IP6_LEN) (\<lambda>e.
              if e then Inr (Return True) else Inr Continue)))) =
     Inr (if d \<in> ip6_entries t then Some True else None)"
proof -
  have row: "length (t ! i) = IP6_LEN" if "i < MAX_IP6" for i
    using assms(1,2) that by (simp add: list_all_length)
  have "c_for [0..<MAX_IP6] (\<lambda>i.
            rbind (rget t i) (\<lambda>row.
            rbind (rget row 0) (\<lambda>c.
            if c = 0 then Inr Break
            else rbind (c_memeq d row IP6_LEN) (\<lambda>e.
              if e then Inr (Return True) else Inr Continue)))) =
      Inr (if \<exists>i \<in> set (takeWhile (\<lambda>i. \<not> t ! i ! 0 = 0) [0..<MAX_IP6]). d = t ! i then Some True else None)"
    by (rule c_for_search) (use assms row in \<open>simp add: c_memeq_full\<close>)
  then show ?thesis
    by (simp add: ex_takeWhile_upt [where P = "\<lambda>r. r ! 0 \<noteq> 0" and Q = "\<lambda>a. d = a"] assms ip6_entries_def)
qed

lemma check_ip_is_block_eq:
  assumes "wf_policy p" "wf_info info"
  shows "check_ip_is_block info p = Inr (ip_listed info (block_ip4 p) (block_ip6 p))"
  using assms unfolding check_ip_is_block_def wf_policy_def wf_info_def
  by (simp add: ip4_search ip6_search ip_listed_def)

lemma check_ip_is_allow_eq:
  assumes "wf_policy p" "wf_info info"
  shows "check_ip_is_allow info p = Inr (ip_listed info (allow_ip4 p) (allow_ip6 p))"
  using assms unfolding check_ip_is_allow_def wf_policy_def wf_info_def
  by (simp add: ip4_search ip6_search ip_listed_def)

lemma categories_row_eq:
  assumes "string_table MAX_CATEGORIES m got" "string_table MAX_CATEGORIES n locked"
    and "i < MAX_CATEGORIES"
  shows "categories_row got locked i =
     Inr (if cstr (got ! i) \<in> category_names locked then Return False else Continue)"
proof -
  have len: "MAX_CATEGORIES = length locked"
    using assms(2) by (simp add: string_table_def)
  have "c_for [0..<MAX_CATEGORIES] (\<lambda>j.
       rbind (rget got i) (\<lambda>g.
       rbind (rget locked j) (\<lambda>l.
       rbind (c_strcmp g l) (\<lambda>r. if r = 0 then Inr (Return False) else Inr Continue)))) =
      Inr (if \<exists>j \<in> set [0..<MAX_CATEGORIES]. cstr (got ! i) = cstr (locked ! j) then Some False else None)"
    by (rule c_for_any)
      (use string_table_nth [OF assms(1)] string_table_nth [OF assms(2)] assms(3) in
        \<open>simp add: c_strcmp_eq_0\<close>)
  then show ?thesis
    unfolding categories_row_def ex_upt_nth [OF len, where Q = "\<lambda>l. cstr (got ! i) = cstr l"]
    by (auto simp: category_names_def)
qed

lemma check_categories_eq:
  assumes "string_table MAX_CATEGORIES m got" "string_table MAX_CATEGORIES n locked"
  shows "check_categories got locked = Inr (category_names got \<inter> category_names locked = {})"
proof -
  have len: "MAX_CATEGORIES = length got"
    using assms(1) by (simp add: string_table_def)
  have "c_for [0..<MAX_CATEGORIES] (categories_row got locked) =
      Inr (if \<exists>i \<in> set [0..<MAX_CATEGORIES]. cstr (got ! i) \<in> category_names locked
           then Some False else None)"
    by (rule c_for_any) (simp add: categories_row_eq [OF assms])
  then show ?thesis
    unfolding check_categories_def ex_upt_nth [OF len, where Q = "\<lambda>g. cstr g \<in> category_names locked"]
    by (auto simp: category_names_def)
qed

text \<open>
  The level table has fewer rows than the outer loop visits, so the loop either returns
  \<open>false\<close> at one of the table's rows or reads past its end.
\<close>

lemma level_row_eq:
  assumes "string_table MAX_CATEGORIES m (get_categories req)"
    and "i < length lvls" "nul_term (locked_by_trust_category (lvls ! i))"
  shows "level_row req lvls i =
     Inr (if cstr (locked_by_trust_category (lvls ! i)) \<in> category_names (get_categories req)
             \<and> get_trust_level req < lvl_trust_lvl (lvls ! i) then Return False else Continue)"
proof -
  have len: "MAX_CATEGORIES = length (get_categories req)"
    using assms(1) by (simp add: string_table_def)
  let ?hit = "\<lambda>g. cstr g = cstr (locked_by_trust_category (lvls ! i)) \<and>
      get_trust_level req < lvl_trust_lvl (lvls ! i)"
  have "c_for [0..<MAX_CATEGORIES] (\<lambda>j.
       rbind (rget (get_categories req) j) (\<lambda>g.
       rbind (rget lvls i) (\<lambda>l.
       rbind (c_strcmp g (locked_by_trust_category l)) (\<lambda>r.
         if r = 0 then
           (if get_trust_level req < lvl_trust_lvl l then Inr (Return False) else Inr Continue)
         else Inr Continue)))) =
      Inr (if \<exists>j \<in> set [0..<MAX_CATEGORIES]. ?hit (get_categories req ! j) then Some False else None)"
    by (rule c_for_any)
      (use string_table_nth [OF assms(1)] assms(2,3) in \<open>simp add: c_strcmp_eq_0\<close>)
  then show ?thesis
    unfolding level_row_def ex_upt_nth [OF len, where Q = ?hit]
    by (simp add: category_names_def image_iff eq_commute [of "cstr (locked_by_trust_category (lvls ! i))"])
qed

lemma level_row_outside:
  assumes "string_table MAX_CATEGORIES m (get_categories req)" "length lvls \<le> i"
  shows "level_row req lvls i = Inl OutOfBounds"
  using assms unfolding level_row_def
  by (subst upt_conv_Cons) (simp_all add: string_table_def)

lemma check_categories_with_lvl_eq:
  assumes "wf_class req"
    and "string_table MAX_CATEGORIES_BY_TRUST_LVL m (map locked_by_trust_category lvls)"
  shows "check_categories_with_lvl req lvls =
     (if locked_by_level req lvls then Inr False else Inl OutOfBounds)"
proof -
  let ?n = MAX_CATEGORIES_BY_TRUST_LVL
  let ?hit = "\<lambda>l. cstr (locked_by_trust_category l) \<in> category_names (get_categories req)
      \<and> get_trust_level req < lvl_trust_lvl l"
  have got: "string_table MAX_CATEGORIES CATEGORY_MAX_LEN (get_categories req)"
    using assms(1) by (simp add: wf_class_def)
  have len: "?n = length lvls"
    using assms(2) by (simp add: string_table_def)
  have "level_row req lvls i = Inr (if ?hit (lvls ! i) then Return False else Continue)"
    if "i \<in> set [0..<?n]" for i
    using that len string_table_nth(3) [OF assms(2), of i] by (intro level_row_eq [OF got]) simp_all
  then have "c_for ([0..<?n] @ ?n # [Suc ?n..<MAX_CATEGORIES]) (level_row req lvls) =
      (if \<exists>i \<in> set [0..<?n]. ?hit (lvls ! i) then Inr (Some False) else Inl OutOfBounds)"
    by (rule c_for_any_fault) (simp, rule level_row_outside [OF got], simp add: len)
  then show ?thesis
    unfolding check_categories_with_lvl_def upt_split [OF sizes_pos(9)]
      ex_upt_nth [OF len, where Q = ?hit]
    by (simp add: locked_by_level_def)
qed

text \<open>The unlisted case of both entry points.\<close>

lemma check_categories_and_trust_level_eq:
  assumes "wf_class req" "wf_policy p"
  shows "check_categories_and_trust_level req p =
     (if is_unknown req then Inr True
      else if category_names (get_categories req) \<inter> category_names (locked_categories p) \<noteq> {} then Inr False
      else if get_trust_level req < min_trust_level p then Inr False
      else if locked_by_level req (categories_with_lvl p) then Inr False
      else Inl OutOfBounds)"
proof -
  have got: "string_table MAX_CATEGORIES CATEGORY_MAX_LEN (get_categories req)"
    using assms(1) by (simp add: wf_class_def)
  have locked: "string_table MAX_CATEGORIES CATEGORY_MAX_LEN (locked_categories p)"
    and lvls: "string_table MAX_CATEGORIES_BY_TRUST_LVL CATEGORY_MAX_LEN
      (map locked_by_trust_category (categories_with_lvl p))"
    using assms(2) by (simp_all add: wf_policy_def)
  show ?thesis
    using string_table_nth [OF got, of 0]
    by (simp add: check_categories_and_trust_level_def is_unknown_def check_trust_level_def
        c_strcmp_eq_0 check_categories_eq [OF got locked] check_categories_with_lvl_eq [OF assms(1) lvls])
qed

section \<open>Properties\<close>

definition sample_info :: "string \<Rightarrow> info_of_pakage" where
  "sample_info s = zero_info\<lparr>domain := pad_str DOMAIN_MAX_LEN (map of_char s), ip_version := IP_4\<rparr>"

definition sample_class :: requested_classification where
  "sample_class =
     \<lparr>get_categories = table_of MAX_CATEGORIES CATEGORY_MAX_LEN [map of_char ''news''], get_trust_level = 50\<rparr>"

definition sample_policy :: BASE_POLICY where
  "sample_policy = zero_policy
     \<lparr>block_domains := table_of MAX_DOMAINS DOMAIN_MAX_LEN [map of_char ''bad.com''],
      allow_domains := table_of MAX_DOMAINS DOMAIN_MAX_LEN [map of_char ''bad.com'', map of_char ''good.com'']\<rparr>"

lemma wf_samples [simp]: "wf_info (sample_info s)" "wf_class sample_class" "wf_policy sample_policy"
  using wf_zero_policy wf_zero_info
  by (simp_all add: wf_info_def sample_info_def wf_class_def sample_class_def sample_policy_def
      wf_policy_def size_defs del: wf_zero_policy wf_zero_info)

lemma domain_entries_table_of:
  assumes "list_all (\<lambda>s. s \<noteq> [] \<and> 0 \<notin> set s \<and> length s < DOMAIN_MAX_LEN) ss" "length ss \<le> n"
  shows "domain_entries (table_of n DOMAIN_MAX_LEN ss) = set ss"
proof -
  have row: "pad_str DOMAIN_MAX_LEN s ! 0 \<noteq> 0 \<and> cstr (pad_str DOMAIN_MAX_LEN s) = s" if "s \<in> set ss" for s
  proof -
    have s: "s \<noteq> []" "0 \<notin> set s" "length s < DOMAIN_MAX_LEN"
      using assms(1) that by (auto simp: list_all_iff)
    have "s ! 0 \<noteq> 0" using s by (metis length_greater_0_conv nth_mem)
    with s show ?thesis by (simp add: pad_str_nth_0 DOMAIN_MAX_LEN_def)
  qed
  then have "takeWhile (\<lambda>r. r ! 0 \<noteq> 0) (table_of n DOMAIN_MAX_LEN ss) = map (pad_str DOMAIN_MAX_LEN) ss"
    using assms(2) by (auto simp: table_of_def takeWhile_append)
  then show ?thesis
    using row by (force simp: domain_entries_def image_iff)
qed



text \<open>
  C2. The same for addresses: \<open>main_filtring_by_ip\<close> drops a destination of the block
  list, sends one of the allow list that is not blocked, and leaves every other one to the
  category and trust checks.  The lists end at their first zero entry; for IPv6 an entry
  whose first byte is zero already ends the list.
\<close>

theorem main_filtring_by_ip_decides:
  assumes "wf_class req" "wf_policy p" "wf_info info"
  shows "main_filtring_by_ip req p info =
     (if ip_listed info (block_ip4 p) (block_ip6 p) then Inr False
      else if ip_listed info (allow_ip4 p) (allow_ip6 p) then Inr True
      else if is_unknown req then Inr True
      else if category_names (get_categories req) \<inter> category_names (locked_categories p) \<noteq> {} then Inr False
      else if get_trust_level req < min_trust_level p then Inr False
      else if locked_by_level req (categories_with_lvl p) then Inr False
      else Inl OutOfBounds)"
  using assms
  by (simp add: main_filtring_by_ip_def check_categories_and_trust_level_eq
      check_ip_is_block_eq check_ip_is_allow_eq)

theorem main_filtring_by_ip_decides_witness:
  "main_filtring_by_ip sample_class (sample_policy\<lparr>block_ip4 := 0x0100A8C0 # replicate (MAX_IP4 - 1) 0\<rparr>)
     ((sample_info [])\<lparr>ip4_dist := 0x0100A8C0\<rparr>) = Inr False"
proof -
  let ?p = "sample_policy\<lparr>block_ip4 := 0x0100A8C0 # replicate (MAX_IP4 - 1) 0\<rparr>"
  let ?i = "(sample_info [])\<lparr>ip4_dist := 0x0100A8C0\<rparr>"
  have wf: "wf_policy ?p" "wf_info ?i"
    using wf_samples(1) [of "[]"] wf_samples(3) by (simp_all add: wf_policy_def wf_info_def)
  have "ip_listed ?i (block_ip4 ?p) (block_ip6 ?p)"
    by (simp add: ip_listed_def sample_info_def ip4_entries_def)
  then show ?thesis
    using main_filtring_by_ip_decides [OF wf_samples(2) wf] by simp
qed



text \<open>
  C4. The category check compares unused rows too: as soon as the classification and the
  policy each leave one row empty, every site that is neither listed nor unknown is dropped,
  whatever its categories and its trust level are.
\<close>

theorem empty_category_rows_lock_every_site:
  assumes "wf_class req" "wf_policy p" "wf_info info"
    and "[] \<in> category_names (get_categories req)" "[] \<in> category_names (locked_categories p)"
    and "\<not> is_unknown req"
    and "cstr (domain info) \<notin> domain_entries (allow_domains p)"
    and "\<not> ip_listed info (allow_ip4 p) (allow_ip6 p)"
  shows "main_filtring_by_domain req p info = Inr False \<and> main_filtring_by_ip req p info = Inr False"
proof -
  have "category_names (get_categories req) \<inter> category_names (locked_categories p) \<noteq> {}"
    using assms(4,5) by auto
  then have "check_categories_and_trust_level req p = Inr False"
    using assms by (simp add: check_categories_and_trust_level_eq)
  with assms show ?thesis
    by (simp add: main_filtring_by_domain_def main_filtring_by_ip_def check_domain_is_block_eq
        check_domain_is_allow_eq check_ip_is_block_eq check_ip_is_allow_eq wf_policy_def wf_info_def)
qed

theorem empty_category_rows_lock_every_site_witness:
  "main_filtring_by_domain sample_class sample_policy (sample_info ''news.org'') = Inr False \<and>
   main_filtring_by_ip sample_class sample_policy (sample_info ''news.org'') = Inr False"
proof (rule empty_category_rows_lock_every_site)
  show "[] \<in> category_names (get_categories sample_class)"
    by (simp add: category_names_def sample_class_def table_of_def size_defs)
  show "[] \<in> category_names (locked_categories sample_policy)"
    by (simp add: category_names_def sample_policy_def zero_policy_def table_of_def size_defs)
  show "\<not> is_unknown sample_class"
    by (simp add: is_unknown_def sample_class_def)
  have "domain_entries (allow_domains sample_policy) = {map of_char ''bad.com'', map of_char ''good.com''}"
    by (simp add: sample_policy_def, subst domain_entries_table_of, simp_all add: size_defs)
  then show "cstr (domain (sample_info ''news.org'')) \<notin> domain_entries (allow_domains sample_policy)"
    by (simp add: sample_info_def DOMAIN_MAX_LEN_def)
  show "\<not> ip_listed (sample_info ''news.org'') (allow_ip4 sample_policy) (allow_ip6 sample_policy)"
    by (simp add: ip_listed_def sample_info_def sample_policy_def zero_policy_def ip4_entries_def MAX_IP4_def)
qed (rule wf_samples)+

end
