(* ===== verification/Dpdk.thy ===== *)
theory Dpdk
  imports Types "HOL-Library.AList"
begin

text \<open>
  The parts of DPDK the caches are built on, as parameters: the allocator and the cycle
  counter (\<open>rte_malloc\<close>, \<open>rte_free\<close>, \<open>rte_get_timer_cycles\<close>), and the hash table
  library \<open>rte_hash\<close>.  A record holds the operations the code calls; a locale states what
  DPDK documents of them.  The type \<open>'w\<close> is the state of everything outside the program,
  \<open>'h\<close> a hash table and \<open>'k\<close> its keys, which the library copies by value.
  A table given as a null pointer is \<open>None\<close>.

  The last section instantiates both interfaces: a bump allocator with a step counter for a
  clock, and a table of slots.  The witnesses of the properties run on them.
\<close>

section \<open>Memory and time\<close>

record 'w dpdk =
  rte_malloc :: "'w \<Rightarrow> addr option \<times> 'w"
  rte_free :: "addr \<Rightarrow> 'w \<Rightarrow> 'w"
  rte_get_timer_cycles :: "'w \<Rightarrow> 64 word \<times> 'w"
  rte_get_timer_hz :: "64 word"
  rte_timer_reset :: "64 word \<Rightarrow> 'w \<Rightarrow> int \<times> 'w"
  rte_timer_stop :: "'w \<Rightarrow> int \<times> 'w"

text \<open>A fresh block is one that is not live; only allocation and freeing change what is live;
  the timer has a nonzero frequency.\<close>

locale dpdk_mem =
  fixes D :: "'w dpdk" and live :: "'w \<Rightarrow> addr set"
  assumes malloc_some: "rte_malloc D w = (Some a, w') \<Longrightarrow> a \<notin> live w \<and> live w' = insert a (live w)"
    and malloc_none: "rte_malloc D w = (None, w') \<Longrightarrow> live w' = live w"
    and free_live: "live (rte_free D a w) = live w - {a}"
    and cycles_live: "rte_get_timer_cycles D w = (t, w') \<Longrightarrow> live w' = live w"
    and hz_pos: "rte_get_timer_hz D \<noteq> 0"
    and timer_live: "live (snd (rte_timer_reset D p w)) = live w" "live (snd (rte_timer_stop D w)) = live w"

section \<open>Hash tables\<close>

record ('w, 'h, 'k) hash_api =
  rte_hash_create :: "'w \<Rightarrow> 'h option \<times> 'w"
  rte_hash_lookup_data :: "'h option \<Rightarrow> 'k \<Rightarrow> addr option \<Rightarrow> int \<times> addr option"
  rte_hash_add_key_data :: "'h option \<Rightarrow> 'k \<Rightarrow> addr \<Rightarrow> int \<times> 'h option"
  rte_hash_del_key :: "'h option \<Rightarrow> 'k \<Rightarrow> int \<times> 'h option"
  rte_hash_iterate :: "'h option \<Rightarrow> 32 word \<Rightarrow> int \<times> ('k \<times> addr option) option \<times> 32 word"
  rte_hash_count :: "'h option \<Rightarrow> int"
  rte_hash_reset :: "'h option \<Rightarrow> 'h option"
  rte_hash_free :: "'h option \<Rightarrow> 'w \<Rightarrow> 'w"

text \<open>The occupied slots of a table, in the order of their positions, and the map they hold.\<close>

definition entries :: "('k \<times> addr) option list \<Rightarrow> ('k \<times> addr) list" where
  "entries xs = map the (filter (\<lambda>x. x \<noteq> None) xs)"

definition content :: "('k \<times> addr) option list \<Rightarrow> 'k \<rightharpoonup> addr" where
  "content xs = map_of (entries xs)"

text \<open>The position at which iteration continues: the first occupied one from \<open>n\<close> on.\<close>

definition next_slot :: "('k \<times> addr) option list \<Rightarrow> nat \<Rightarrow> nat option" where
  "next_slot xs n = find (\<lambda>i. xs ! i \<noteq> None) [n..<length xs]"

locale rte_hash =
  fixes H :: "('w, 'h, 'k) hash_api" and slots :: "'h \<Rightarrow> ('k \<times> addr) option list"
  assumes slots_distinct: "distinct (map fst (entries (slots h)))"
    and slots_bound: "length (slots h) < 2 ^ 31"
    and lookup_hit: "content (slots h) k = Some a \<Longrightarrow>
        \<exists>i \<ge> 0. rte_hash_lookup_data H (Some h) k d = (i, Some a)"
    and lookup_miss: "content (slots h) k = None \<Longrightarrow>
        rte_hash_lookup_data H (Some h) k d = (- ENOENT, d)"
    and lookup_null: "rte_hash_lookup_data H None k d = (- EINVAL, d)"
    and add_ok: "rte_hash_add_key_data H (Some h) k a = (0, t) \<Longrightarrow>
        \<exists>h'. t = Some h' \<and> content (slots h') = (content (slots h))(k \<mapsto> a)"
    and add_err: "rte_hash_add_key_data H (Some h) k a = (r, t) \<Longrightarrow> r \<noteq> 0 \<Longrightarrow> r < 0 \<and> t = Some h"
    and add_null: "rte_hash_add_key_data H None k a = (- EINVAL, None)"
    and del_hit: "content (slots h) k \<noteq> None \<Longrightarrow>
        \<exists>r \<ge> 0. \<exists>h'. rte_hash_del_key H (Some h) k = (r, Some h') \<and>
          content (slots h') = (content (slots h))(k := None)"
    and iterate_some: "next_slot (slots h) (unat n) = Some i \<Longrightarrow> slots h ! i = Some (k, a) \<Longrightarrow>
        rte_hash_iterate H (Some h) n = (int i, Some (k, Some a), of_nat (Suc i))"
    and iterate_none: "next_slot (slots h) (unat n) = None \<Longrightarrow>
        fst (rte_hash_iterate H (Some h) n) = - ENOENT"
    and count_entries: "rte_hash_count H (Some h) = int (length (entries (slots h)))"
    and reset_empty: "\<exists>h'. rte_hash_reset H (Some h) = Some h' \<and> content (slots h') = Map.empty"

section \<open>Walking a table\<close>

text \<open>
  \<open>while (rte_hash_iterate (hash, &key, &data, &next) >= 0) body\<close>, from position
  \<open>next\<close>.  The key and data pointers are set only when the call succeeds.  Nothing in the loop itself bounds the walk, so it is a partial function.
\<close>

partial_function (option) hash_walk ::
  "('w, 'h, 'k) hash_api \<Rightarrow> 'h option \<Rightarrow> ('k \<times> addr option \<Rightarrow> 's \<Rightarrow> 's res) \<Rightarrow> 32 word \<Rightarrow> 's \<Rightarrow>
   's res option" where
  "hash_walk H h body next s =
     (case rte_hash_iterate H h next of (ret, entry, next) \<Rightarrow>
      if ret \<ge> 0 then
        (case entry of
           None \<Rightarrow> Some (Inl NullDeref)
         | Some e \<Rightarrow> (case body e s of Inl e \<Rightarrow> Some (Inl e) | Inr s \<Rightarrow> hash_walk H h body next s))
      else Some (Inr s))"

declare hash_walk.simps [code]

lemma entries_simps [simp]:
  "entries [] = []" "entries (None # xs) = entries xs" "entries (Some e # xs) = e # entries xs"
  "entries (xs @ ys) = entries xs @ entries ys"
  by (simp_all add: entries_def)

lemma next_slot_None: "next_slot xs n = None \<Longrightarrow> entries (drop n xs) = []"
proof (induction "length xs - n" arbitrary: n)
  case 0
  then show ?case by simp
next
  case (Suc m)
  then have n: "n < length xs" and m: "m = length xs - Suc n" by simp_all
  have none: "xs ! n = None"
    using Suc.prems n by (cases "xs ! n") (simp_all add: next_slot_def upt_conv_Cons)
  then have "next_slot xs (Suc n) = None"
    using Suc.prems n by (simp add: next_slot_def upt_conv_Cons)
  with Suc.hyps(1) [OF m] n none show ?case
    by (simp add: Cons_nth_drop_Suc [symmetric])
qed

lemma next_slot_Some:
  "next_slot xs n = Some i \<Longrightarrow>
   n \<le> i \<and> i < length xs \<and> (\<exists>e. xs ! i = Some e \<and> entries (drop n xs) = e # entries (drop (Suc i) xs))"
proof (induction "length xs - n" arbitrary: n)
  case 0
  then show ?case by (simp add: next_slot_def)
next
  case (Suc m)
  then have n: "n < length xs" and m: "m = length xs - Suc n" by simp_all
  show ?case
  proof (cases "xs ! n")
    case None
    then have "next_slot xs (Suc n) = Some i"
      using Suc.prems n by (simp add: next_slot_def upt_conv_Cons)
    with Suc.hyps(1) [OF m] n None show ?thesis
      by (auto simp: Cons_nth_drop_Suc [symmetric])
  next
    case (Some e)
    then have "i = n"
      using Suc.prems n by (simp add: next_slot_def upt_conv_Cons)
    with Some n show ?thesis by (simp add: Cons_nth_drop_Suc [symmetric])
  qed
qed

context rte_hash
begin

text \<open>The walk ends, and visits every entry once, in the order of the slots.\<close>

lemma hash_walk_from:
  "hash_walk H (Some h) body n s =
     Some (c_fold (entries (drop (unat n) (slots h))) (\<lambda>(k, a). body (k, Some a)) s)"
proof (induction "length (slots h) - unat n" arbitrary: n s rule: less_induct)
  case less
  show ?case
  proof (cases "next_slot (slots h) (unat n)")
    case None
    then have "fst (rte_hash_iterate H (Some h) n) < 0"
      using iterate_none by simp
    then show ?thesis
      by (subst hash_walk.simps) (auto simp: next_slot_None [OF None] split: prod.splits)
  next
    case (Some i)
    note at = next_slot_Some [OF Some]
    then obtain k a where slot: "slots h ! i = Some (k, a)"
      and split: "entries (drop (unat n) (slots h)) = (k, a) # entries (drop (Suc i) (slots h))"
      by force
    have "Suc i < 2 ^ 32" using at slots_bound [of h] by simp
    then have up: "unat (of_nat (Suc i) :: 32 word) = Suc i"
      by (simp add: unat_of_nat del: of_nat_Suc)
    have IH: "hash_walk H (Some h) body (of_nat (Suc i)) t =
        Some (c_fold (entries (drop (Suc i) (slots h))) (\<lambda>(k, a). body (k, Some a)) t)" for t
    proof -
      have "length (slots h) - Suc i < length (slots h) - unat n" using at by linarith
      then show ?thesis using less [of "of_nat (Suc i)" t] up by (simp del: of_nat_Suc)
    qed
    show ?thesis
      by (subst hash_walk.simps)
        (simp add: iterate_some [OF Some slot] split IH rbind_def del: of_nat_Suc split: sum.splits)
  qed
qed

lemma hash_walk_all:
  "hash_walk H (Some h) body 0 s = Some (c_fold (entries (slots h)) (\<lambda>(k, a). body (k, Some a)) s)"
  by (simp add: hash_walk_from)

lemma content_iff_entry: "content (slots h) k = Some a \<longleftrightarrow> (k, a) \<in> set (entries (slots h))"
  using slots_distinct [of h] by (simp add: content_def)

end

section \<open>A concrete allocator, clock and table\<close>

record ref_world =
  rw_live :: "addr list"
  rw_clock :: "64 word"

definition ref_dpdk :: "'a ref_world_scheme dpdk" where
  "ref_dpdk =
     \<lparr>rte_malloc = (\<lambda>w. let a = Suc (sum_list (rw_live w)) in (Some a, w\<lparr>rw_live := a # rw_live w\<rparr>)),
      rte_free = (\<lambda>a w. w\<lparr>rw_live := removeAll a (rw_live w)\<rparr>),
      rte_get_timer_cycles = (\<lambda>w. (rw_clock w, w)),
      rte_get_timer_hz = 1,
      rte_timer_reset = (\<lambda>p w. (0, w)),
      rte_timer_stop = (\<lambda>w. (0, w))\<rparr>"

definition ref_live :: "'a ref_world_scheme \<Rightarrow> addr set" where
  "ref_live w = set (rw_live w)"

interpretation ref_mem: dpdk_mem ref_dpdk ref_live
proof
  fix w w' :: "'a ref_world_scheme" and a
  assume m: "rte_malloc ref_dpdk w = (Some a, w')"
  have "x \<le> sum_list (rw_live w)" if "x \<in> set (rw_live w)" for x
    using that by (rule member_le_sum_list) simp
  with m show "a \<notin> ref_live w \<and> ref_live w' = insert a (ref_live w)"
    by (force simp: ref_dpdk_def ref_live_def Let_def)
qed (auto simp: ref_dpdk_def ref_live_def Let_def)

text \<open>A table is an association list; its slots are the first binding of each key, up to the
  capacity.\<close>

definition ref_entries :: "nat \<Rightarrow> ('k \<times> addr) list \<Rightarrow> ('k \<times> addr) list" where
  "ref_entries cap h = take cap (AList.clearjunk h)"

definition ref_slots :: "nat \<Rightarrow> ('k \<times> addr) list \<Rightarrow> ('k \<times> addr) option list" where
  "ref_slots cap h = map Some (ref_entries cap h)"

definition ref_hash :: "nat \<Rightarrow> ('w, ('k \<times> addr) list, 'k) hash_api" where
  "ref_hash cap =
     \<lparr>rte_hash_create = (\<lambda>w. (Some [], w)),
      rte_hash_lookup_data = (\<lambda>t k d. case t of None \<Rightarrow> (- EINVAL, d)
        | Some h \<Rightarrow> (case map_of (ref_entries cap h) k of None \<Rightarrow> (- ENOENT, d) | Some a \<Rightarrow> (0, Some a))),
      rte_hash_add_key_data = (\<lambda>t k a. case t of None \<Rightarrow> (- EINVAL, None)
        | Some h \<Rightarrow>
          (let es = filter (\<lambda>e. fst e \<noteq> k) (ref_entries cap h)
           in if length es < cap then (0, Some ((k, a) # es)) else (- 28, Some h))),
      rte_hash_del_key = (\<lambda>t k. case t of None \<Rightarrow> (- EINVAL, None)
        | Some h \<Rightarrow>
          (case map_of (ref_entries cap h) k of None \<Rightarrow> (- ENOENT, Some h)
           | Some a \<Rightarrow> (0, Some (filter (\<lambda>e. fst e \<noteq> k) (ref_entries cap h))))),
      rte_hash_iterate = (\<lambda>t n. case t of None \<Rightarrow> (- EINVAL, None, n)
        | Some h \<Rightarrow>
          (if unat n < length (ref_entries cap h)
           then (int (unat n), map_option (\<lambda>(k, a). (k, Some a)) (Some (ref_entries cap h ! unat n)),
                 of_nat (Suc (unat n)))
           else (- ENOENT, None, n))),
      rte_hash_count = (\<lambda>t. case t of None \<Rightarrow> - EINVAL | Some h \<Rightarrow> int (length (ref_entries cap h))),
      rte_hash_reset = map_option (\<lambda>_. []),
      rte_hash_free = (\<lambda>t w. w)\<rparr>"

lemma entries_map_Some [simp]: "entries (map Some xs) = xs"
  by (induction xs) auto

lemma distinct_ref_entries: "distinct (map fst (ref_entries cap h))"
  by (simp add: ref_entries_def take_map [symmetric] distinct_clearjunk)

lemma clearjunk_distinct: "distinct (map fst xs) \<Longrightarrow> AList.clearjunk xs = xs"
proof (induction xs)
  case (Cons x xs)
  then have "fst x \<notin> fst ` set xs" by simp
  then have "AList.delete (fst x) xs = xs"
    by (simp add: AList.delete_idem)
  with Cons show ?case by (cases x) simp
qed simp

lemma ref_entries_id: "distinct (map fst xs) \<Longrightarrow> length xs \<le> cap \<Longrightarrow> ref_entries cap xs = xs"
  by (simp add: ref_entries_def clearjunk_distinct)

lemma ref_entries_Nil [simp]: "ref_entries cap [] = []"
  by (simp add: ref_entries_def)

lemma length_ref_entries: "length (ref_entries cap h) \<le> cap"
  by (simp add: ref_entries_def)

lemma ref_entries_drop:
  "ref_entries cap (filter P (ref_entries cap h)) = filter P (ref_entries cap h)"
  by (rule ref_entries_id)
    (use distinct_ref_entries [of cap h] length_ref_entries [of cap h] in
      \<open>auto simp: distinct_map_filter intro: order_trans [OF length_filter_le]\<close>)

lemma map_of_filter_neq: "map_of (filter (\<lambda>e. fst e \<noteq> k) xs) = (map_of xs)(k := None)"
  by (induction xs) auto

lemma next_slot_all: "next_slot (map Some xs) n = (if n < length xs then Some n else None)"
  by (cases "n < length xs") (simp_all add: next_slot_def upt_conv_Cons)

abbreviation CACHE_SIZE :: nat where "CACHE_SIZE \<equiv> 1024"

interpretation ref_table: rte_hash "ref_hash CACHE_SIZE" "ref_slots CACHE_SIZE"
proof
  fix h :: "('k \<times> addr) list"
  show "distinct (map fst (entries (ref_slots CACHE_SIZE h)))"
    by (simp add: ref_slots_def distinct_ref_entries)
  show "length (ref_slots CACHE_SIZE h) < 2 ^ 31"
    using length_ref_entries [of CACHE_SIZE h] by (simp add: ref_slots_def)
  fix k a t
  show "\<exists>h'. t = Some h' \<and> content (ref_slots CACHE_SIZE h') = (content (ref_slots CACHE_SIZE h))(k \<mapsto> a)"
    if "rte_hash_add_key_data (ref_hash CACHE_SIZE) (Some h) k a = (0, t)"
  proof -
    let ?es = "filter (\<lambda>e. fst e \<noteq> k) (ref_entries CACHE_SIZE h)"
    from that have t: "t = Some ((k, a) # ?es)" and len: "length ?es < CACHE_SIZE"
      by (auto simp: ref_hash_def Let_def split: if_splits)
    have "ref_entries CACHE_SIZE ((k, a) # ?es) = (k, a) # ?es"
      by (rule ref_entries_id) (use len distinct_ref_entries [of CACHE_SIZE h] in \<open>auto simp: distinct_map_filter\<close>)
    then show ?thesis
      using t by (simp add: content_def ref_slots_def map_of_filter_neq)
  qed
qed (auto simp: ref_hash_def ref_slots_def content_def Let_def ref_entries_drop map_of_filter_neq
      next_slot_all split: if_splits option.splits)

lemma small_slots [simp]:
  "ref_slots CACHE_SIZE [] = []" "ref_slots CACHE_SIZE [(k, a)] = [Some (k, a)]"
  by (simp_all add: ref_slots_def ref_entries_def)

lemma small_content [simp]: "content [] = Map.empty" "content [Some (k, a)] = [k \<mapsto> a]"
  by (simp_all add: content_def)

text \<open>A world with two blocks in use and the clock at 100.\<close>

definition sample_world :: "ref_world" where
  "sample_world = \<lparr>rw_live = [5, 6], rw_clock = 100\<rparr>"

end
