(* ===== verification/Sqlite.thy ===== *)
theory Sqlite
  imports Types
begin

text \<open>
  The SQLite calls of the two cache files, as a record of parameters: \<open>'db\<close> is an open
  connection with the data behind it, \<open>'st\<close> a prepared statement with its bindings and its
  current row.  A null connection or statement is \<open>None\<close>.
\<close>

abbreviation (input) SQLITE_OK :: int where "SQLITE_OK \<equiv> 0"
abbreviation (input) SQLITE_ROW :: int where "SQLITE_ROW \<equiv> 100"
abbreviation (input) SQLITE_DONE :: int where "SQLITE_DONE \<equiv> 101"

record ('w, 'db, 'st) sqlite_api =
  sqlite3_open :: "string \<Rightarrow> 'w \<Rightarrow> int \<times> 'db option \<times> 'w"
  sqlite3_close :: "'db \<Rightarrow> 'w \<Rightarrow> int \<times> 'w"
  sqlite3_exec :: "'db \<Rightarrow> string \<Rightarrow> int \<times> 'db"
  sqlite3_prepare_v2 :: "'db \<Rightarrow> string \<Rightarrow> int \<times> 'st \<times> 'db"
  sqlite3_bind_text :: "'st \<Rightarrow> nat \<Rightarrow> byte list option \<Rightarrow> 'st"
  sqlite3_bind_int :: "'st \<Rightarrow> nat \<Rightarrow> int \<Rightarrow> 'st"
  sqlite3_bind_int64 :: "'st \<Rightarrow> nat \<Rightarrow> int \<Rightarrow> 'st"
  sqlite3_step :: "'db \<Rightarrow> 'st \<Rightarrow> int \<times> 'st \<times> 'db"
  sqlite3_column_text :: "'st \<Rightarrow> nat \<Rightarrow> byte list option"
  sqlite3_column_int :: "'st \<Rightarrow> nat \<Rightarrow> int"
  sqlite3_column_int64 :: "'st \<Rightarrow> nat \<Rightarrow> int"
  sqlite3_reset :: "'st \<Rightarrow> 'st"
  sqlite3_finalize :: "'st \<Rightarrow> 'db \<Rightarrow> int \<times> 'db"

text \<open>A concrete library that opens no database: every call reports \<open>SQLITE_CANTOPEN\<close>, 14.\<close>

definition no_sqlite :: "('w, unit, unit) sqlite_api" where
  "no_sqlite =
     \<lparr>sqlite3_open = (\<lambda>f w. (14, None, w)), sqlite3_close = (\<lambda>db w. (0, w)),
      sqlite3_exec = (\<lambda>db sql. (14, db)), sqlite3_prepare_v2 = (\<lambda>db sql. (14, (), db)),
      sqlite3_bind_text = (\<lambda>st i s. st), sqlite3_bind_int = (\<lambda>st i v. st),
      sqlite3_bind_int64 = (\<lambda>st i v. st), sqlite3_step = (\<lambda>db st. (14, st, db)),
      sqlite3_column_text = (\<lambda>st i. None), sqlite3_column_int = (\<lambda>st i. 0),
      sqlite3_column_int64 = (\<lambda>st i. 0), sqlite3_reset = id, sqlite3_finalize = (\<lambda>st db. (0, db))\<rparr>"

end
