(* ===== verification/Cache.thy ===== *)
theory Cache
  imports Dpdk Sqlite
begin

text \<open>
  What \<open>ip_cache.c\<close> and \<open>domain_cache.c\<close> have in common.  Each file keeps a hash table
  whose data pointers lead to heap nodes, a spinlock around the table, an SQLite handle and a
  save timer; a node points to a heap copy of its key.  The record below is that state, with
  the node and key heaps as maps from addresses.

  The two files repeat the same code for different structs.  Their functions are translated
  one by one in \<open>Ip_Cache\<close> and \<open>Domain_Cache\<close>; the functions here, parametrised by the
  key field of the node, carry the proofs for both.
\<close>

section \<open>State\<close>

record ('h, 'db, 'n, 'k) cache =
  cache_hash :: "'h option"
  cache_table :: "'db option"
  cache_spinlock :: bool
  cache_nodes :: "addr \<rightharpoonup> 'n"
  cache_keys :: "addr \<rightharpoonup> 'k"
  save_timer :: "64 word option"

section \<open>Locks, heap blocks, and division\<close>

definition spin_lock :: "('h, 'db, 'n, 'k) cache \<Rightarrow> ('h, 'db, 'n, 'k) cache res" where
  "spin_lock c = (if cache_spinlock c then Inl Deadlock else Inr (c\<lparr>cache_spinlock := True\<rparr>))"

definition spin_unlock :: "('h, 'db, 'n, 'k) cache \<Rightarrow> ('h, 'db, 'n, 'k) cache" where
  "spin_unlock c = c\<lparr>cache_spinlock := False\<rparr>"

definition u64_div :: "64 word \<Rightarrow> 64 word \<Rightarrow> 64 word res" where
  "u64_div a b = (if b = 0 then Inl DivByZero else Inr (a div b))"

text \<open>\<open>rte_free\<close> of a node and of a key copy; freeing a null pointer does nothing.\<close>

definition free_node ::
  "'w dpdk \<Rightarrow> addr \<Rightarrow> 'w \<times> ('h, 'db, 'n, 'k) cache \<Rightarrow> ('w \<times> ('h, 'db, 'n, 'k) cache) res" where
  "free_node D a = (\<lambda>(w, c).
     if cache_nodes c a = None then Inl BadFree
     else Inr (rte_free D a w, c\<lparr>cache_nodes := (cache_nodes c)(a := None)\<rparr>))"

definition free_key ::
  "'w dpdk \<Rightarrow> addr option \<Rightarrow> 'w \<times> ('h, 'db, 'n, 'k) cache \<Rightarrow> ('w \<times> ('h, 'db, 'n, 'k) cache) res" where
  "free_key D p = (\<lambda>(w, c).
     case p of
       None \<Rightarrow> Inr (w, c)
     | Some a \<Rightarrow>
         if cache_keys c a = None then Inl BadFree
         else Inr (rte_free D a w, c\<lparr>cache_keys := (cache_keys c)(a := None)\<rparr>))"

text \<open>\<open>rte_calloc\<close> or \<open>rte_malloc\<close> of a node; \<open>n\<close> is what the new block holds.\<close>

definition new_node ::
  "'w dpdk \<Rightarrow> 'n \<Rightarrow> 'w \<times> ('h, 'db, 'n, 'k) cache \<Rightarrow> addr option \<times> 'w \<times> ('h, 'db, 'n, 'k) cache" where
  "new_node D n = (\<lambda>(w, c).
     case rte_malloc D w of
       (None, w) \<Rightarrow> (None, w, c)
     | (Some a, w) \<Rightarrow> (Some a, w, c\<lparr>cache_nodes := (cache_nodes c)(a \<mapsto> n)\<rparr>))"

section \<open>The common operations\<close>

definition expired :: "64 word \<Rightarrow> 64 word \<Rightarrow> 'x node_cache_scheme \<Rightarrow> bool" where
  "expired now hz n \<longleftrightarrow> (now - timestamp n) div hz \<ge> ucast (ttl_seconds n)"

definition g_lookup ::
  "('x node_cache_scheme \<Rightarrow> addr option) \<Rightarrow> 'w dpdk \<Rightarrow> ('w, 'h, 'k) hash_api \<Rightarrow> 'k \<Rightarrow> addr option \<Rightarrow>
   'w \<times> ('h, 'db, 'x node_cache_scheme, 'k) cache \<Rightarrow>
   ((int \<times> addr option) \<times> 'w \<times> ('h, 'db, 'x node_cache_scheme, 'k) cache) res" where
  "g_lookup getk D H k return_node = (\<lambda>(w, c).
     rbind (spin_lock c) (\<lambda>c.
     case rte_hash_lookup_data H (cache_hash c) k return_node of (ret, return_node) \<Rightarrow>
     if ret \<ge> 0 \<and> return_node \<noteq> None then
       (case rte_get_timer_cycles D w of (now, w) \<Rightarrow>
        rbind (deref (cache_nodes c) (the return_node)) (\<lambda>node.
        rbind (u64_div (now - timestamp node) (rte_get_timer_hz D)) (\<lambda>age_seconds.
        if age_seconds \<ge> ucast (ttl_seconds node) then
          (case rte_hash_del_key H (cache_hash c) k of (ret_del, h) \<Rightarrow>
           let c = c\<lparr>cache_hash := h\<rparr> in
           if ret_del < 0 then Inr ((- ENOENT, return_node), w, spin_unlock c)
           else
             rbind (free_key D (getk node) (w, c)) (\<lambda>wc.
             rbind (free_node D (the return_node) wc) (\<lambda>(w, c).
             Inr ((- ENOENT, None), w, spin_unlock c))))
        else Inr ((ret, return_node), w, spin_unlock c))))
     else Inr ((ret, return_node), w, spin_unlock c)))"

definition g_add ::
  "(addr \<Rightarrow> 'x node_cache_scheme \<Rightarrow> 'x node_cache_scheme) \<Rightarrow> 'w dpdk \<Rightarrow> ('w, 'h, 'k) hash_api \<Rightarrow>
   'k res \<Rightarrow> addr \<Rightarrow> int \<Rightarrow> 'w \<times> ('h, 'db, 'x node_cache_scheme, 'k) cache \<Rightarrow>
   ('w \<times> ('h, 'db, 'x node_cache_scheme, 'k) cache) res" where
  "g_add setk D H copied node ttl = (\<lambda>(w, c).
     case rte_malloc D w of
       (None, w) \<Rightarrow> free_node D node (w, c)
     | (Some key_copy, w) \<Rightarrow>
         rbind copied (\<lambda>k.
         let c = c\<lparr>cache_keys := (cache_keys c)(key_copy \<mapsto> k)\<rparr> in
         case rte_get_timer_cycles D w of (now, w) \<Rightarrow>
         rbind (deref (cache_nodes c) node) (\<lambda>n.
         let c = c\<lparr>cache_nodes := (cache_nodes c)(node \<mapsto>
               setk key_copy (n\<lparr>timestamp := now, ttl_seconds := word_of_int ttl\<rparr>))\<rparr> in
         rbind (spin_lock c) (\<lambda>c.
         case rte_hash_add_key_data H (cache_hash c) k node of (ret, h) \<Rightarrow>
         let c = spin_unlock (c\<lparr>cache_hash := h\<rparr>) in
         if ret \<noteq> 0 then
           rbind (free_key D (Some key_copy) (w, c)) (\<lambda>wc. free_node D node wc)
         else Inr (w, c)))))"

definition g_insert ::
  "(addr \<Rightarrow> 'n \<Rightarrow> 'n) \<Rightarrow> 'w dpdk \<Rightarrow> ('w, 'h, 'k) hash_api \<Rightarrow> 'k res \<Rightarrow> addr \<Rightarrow>
   'w \<times> ('h, 'db, 'n, 'k) cache \<Rightarrow> (int \<times> 'w \<times> ('h, 'db, 'n, 'k) cache) res" where
  "g_insert setk D H copied node = (\<lambda>(w, c).
     case rte_malloc D w of
       (None, w) \<Rightarrow> Inr (- ENOMEM, w, c)
     | (Some key_copy, w) \<Rightarrow>
         rbind copied (\<lambda>k.
         let c = c\<lparr>cache_keys := (cache_keys c)(key_copy \<mapsto> k)\<rparr> in
         rbind (deref (cache_nodes c) node) (\<lambda>n.
         let c = c\<lparr>cache_nodes := (cache_nodes c)(node \<mapsto> setk key_copy n)\<rparr> in
         rbind (spin_lock c) (\<lambda>c.
         case rte_hash_add_key_data H (cache_hash c) k node of (ret, h) \<Rightarrow>
         let c = spin_unlock (c\<lparr>cache_hash := h\<rparr>) in
         if ret < 0 then
           rbind (free_key D (Some key_copy) (w, c)) (\<lambda>(w, c). Inr (ret, w, c))
         else Inr (0, w, c)))))"

definition g_close ::
  "('w, 'db, 'st) sqlite_api \<Rightarrow> 'w \<times> ('h, 'db, 'n, 'k) cache \<Rightarrow> 'w \<times> ('h, 'db, 'n, 'k) cache" where
  "g_close S = (\<lambda>(w, c).
     case cache_table c of
       None \<Rightarrow> (w, c\<lparr>cache_table := None\<rparr>)
     | Some db \<Rightarrow> (snd (sqlite3_close S db w), c\<lparr>cache_table := None\<rparr>))"

text \<open>The body of the loop that frees the nodes, and the release of the whole cache.\<close>

definition g_free_entry ::
  "('n \<Rightarrow> addr option) \<Rightarrow> 'w dpdk \<Rightarrow> 'k \<times> addr option \<Rightarrow> 'w \<times> ('h, 'db, 'n, 'k) cache \<Rightarrow>
   ('w \<times> ('h, 'db, 'n, 'k) cache) res" where
  "g_free_entry getk D = (\<lambda>(k, data) (w, c).
     case data of
       None \<Rightarrow> Inr (w, c)
     | Some a \<Rightarrow>
         rbind (deref (cache_nodes c) a) (\<lambda>node.
         rbind (free_key D (getk node) (w, c)) (free_node D a)))"

definition g_free ::
  "('n \<Rightarrow> addr option) \<Rightarrow> 'w dpdk \<Rightarrow> ('w, 'h, 'k) hash_api \<Rightarrow> ('w, 'db, 'st) sqlite_api \<Rightarrow>
   'w \<times> ('h, 'db, 'n, 'k) cache \<Rightarrow> ('w \<times> ('h, 'db, 'n, 'k) cache) res option" where
  "g_free getk D H S = (\<lambda>(w, c).
     if cache_hash c = None then Some (Inr (w, c))
     else (case spin_lock c of
       Inl e \<Rightarrow> Some (Inl e)
     | Inr c \<Rightarrow>
       (case hash_walk H (cache_hash c) (g_free_entry getk D) 0 (w, c) of
          None \<Rightarrow> None
        | Some (Inl e) \<Rightarrow> Some (Inl e)
        | Some (Inr (w, c)) \<Rightarrow>
            (case g_close S (rte_hash_free H (cache_hash c) w, c) of (w, c) \<Rightarrow>
             let c = spin_unlock (c\<lparr>cache_hash := None\<rparr>) in
             (case rte_timer_stop D w of (ret, w) \<Rightarrow>
              Some (Inr (w, if ret = 0 then c\<lparr>save_timer := None\<rparr> else c)))))))"

definition g_clear ::
  "('w, 'h, 'k) hash_api \<Rightarrow> ('h, 'db, 'n, 'k) cache \<Rightarrow> ('h, 'db, 'n, 'k) cache res" where
  "g_clear H c =
     (if cache_hash c = None then Inr c
      else rbind (spin_lock c) (\<lambda>c.
        Inr (spin_unlock (c\<lparr>cache_hash := rte_hash_reset H (cache_hash c)\<rparr>))))"

section \<open>Well-formed caches\<close>

text \<open>
  Every entry of the table leads to an allocated node that points to an allocated copy of the
  entry's key, and no two entries share a node.
\<close>

definition table_ok ::
  "('n \<Rightarrow> addr option) \<Rightarrow> ('k \<rightharpoonup> addr) \<Rightarrow> (addr \<rightharpoonup> 'n) \<Rightarrow> (addr \<rightharpoonup> 'k) \<Rightarrow> bool" where
  "table_ok getk m nodes keys \<longleftrightarrow>
     (\<forall>k a. m k = Some a \<longrightarrow> (\<exists>n ka. nodes a = Some n \<and> getk n = Some ka \<and> keys ka = Some k)) \<and>
     inj_on m (dom m)"

definition cache_ok ::
  "('h \<Rightarrow> ('k \<times> addr) option list) \<Rightarrow> ('w \<Rightarrow> addr set) \<Rightarrow> ('n \<Rightarrow> addr option) \<Rightarrow>
   'w \<times> ('h, 'db, 'n, 'k) cache \<Rightarrow> bool" where
  "cache_ok slots live getk = (\<lambda>(w, c).
     \<not> cache_spinlock c \<and>
     dom (cache_nodes c) \<union> dom (cache_keys c) \<subseteq> live w \<and>
     dom (cache_nodes c) \<inter> dom (cache_keys c) = {} \<and>
     (\<forall>h. cache_hash c = Some h \<longrightarrow> table_ok getk (content (slots h)) (cache_nodes c) (cache_keys c)))"

text \<open>The cache as a map from keys to nodes, and lookup on such a map.\<close>

definition cache_view :: "('h \<Rightarrow> ('k \<times> addr) option list) \<Rightarrow> ('h, 'db, 'n, 'k) cache \<Rightarrow> 'k \<rightharpoonup> 'n" where
  "cache_view slots c =
     (case cache_hash c of None \<Rightarrow> Map.empty | Some h \<Rightarrow> cache_nodes c \<circ>\<^sub>m content (slots h))"

definition ttl_lookup ::
  "64 word \<Rightarrow> 64 word \<Rightarrow> 'k \<Rightarrow> ('k \<rightharpoonup> 'x node_cache_scheme) \<Rightarrow>
   'x node_cache_scheme option \<times> ('k \<rightharpoonup> 'x node_cache_scheme)" where
  "ttl_lookup hz now k m =
     (case m k of
        None \<Rightarrow> (None, m)
      | Some n \<Rightarrow> if expired now hz n then (None, m(k := None)) else (Some n, m))"

lemma table_ok_entry:
  assumes "table_ok getk m nodes keys" "m k = Some a"
  obtains n ka where "nodes a = Some n" "getk n = Some ka" "keys ka = Some k"
  using assms unfolding table_ok_def by blast

lemma table_ok_inj: "table_ok getk m nodes keys \<Longrightarrow> m k = Some a \<Longrightarrow> m k' = Some a \<Longrightarrow> k = k'"
  by (auto simp: table_ok_def inj_on_def dom_def)

text \<open>Dropping an entry together with its node and its key copy.\<close>

lemma table_ok_remove:
  assumes ok: "table_ok getk m nodes keys" and k: "m k = Some a" "nodes a = Some n" "getk n = Some ka"
  shows "table_ok getk (m(k := None)) (nodes(a := None)) (keys(ka := None))"
  unfolding table_ok_def
proof (intro conjI allI impI)
  fix k' a' assume k': "(m(k := None)) k' = Some a'"
  then have m': "m k' = Some a'" "k' \<noteq> k" by (auto split: if_splits)
  obtain n' ka' where e': "nodes a' = Some n'" "getk n' = Some ka'" "keys ka' = Some k'"
    using table_ok_entry [OF ok m'(1)] .
  have "a' \<noteq> a" using table_ok_inj [OF ok k(1)] m' by auto
  moreover have "keys ka = Some k"
    by (rule table_ok_entry [OF ok k(1)]) (use k in simp)
  then have "ka' \<noteq> ka" using e' m' by auto
  ultimately show "\<exists>n ka'. (nodes(a := None)) a' = Some n \<and> getk n = Some ka' \<and> (keys(ka := None)) ka' = Some k'"
    using e' by auto
next
  show "inj_on (m(k := None)) (dom (m(k := None)))"
    using ok by (auto simp: table_ok_def inj_on_def dom_def)
qed

text \<open>Adding an entry for a node and a key copy that the table does not use yet.\<close>

lemma table_ok_add:
  assumes ok: "table_ok getk m nodes keys" and fresh: "a \<notin> ran m" "keys ka = None" "getk n = Some ka"
  shows "table_ok getk (m(k \<mapsto> a)) (nodes(a \<mapsto> n)) (keys(ka \<mapsto> k))"
  unfolding table_ok_def
proof (intro conjI allI impI)
  fix k' a' assume k': "(m(k \<mapsto> a)) k' = Some a'"
  show "\<exists>n' ka'. (nodes(a \<mapsto> n)) a' = Some n' \<and> getk n' = Some ka' \<and> (keys(ka \<mapsto> k)) ka' = Some k'"
  proof (cases "k' = k")
    case True
    then show ?thesis using k' fresh(3) by auto
  next
    case False
    then have m': "m k' = Some a'" using k' by auto
    then have "a' \<noteq> a" using fresh(1) by (auto simp: ran_def)
    obtain n' ka' where e: "nodes a' = Some n'" "getk n' = Some ka'" "keys ka' = Some k'"
      using table_ok_entry [OF ok m'] .
    with fresh(2) have "ka' \<noteq> ka" by auto
    with e \<open>a' \<noteq> a\<close> show ?thesis by simp
  qed
next
  show "inj_on (m(k \<mapsto> a)) (dom (m(k \<mapsto> a)))"
    using ok fresh(1) by (auto simp: table_ok_def inj_on_def dom_def ran_def)
qed

lemma table_ok_mono:
  assumes ok: "table_ok getk m nodes keys" and nodes: "\<And>a. a \<in> ran m \<Longrightarrow> nodes' a = nodes a"
    and keys: "keys \<subseteq>\<^sub>m keys'"
  shows "table_ok getk m nodes' keys'"
  unfolding table_ok_def
proof (intro conjI allI impI)
  fix k a assume m: "m k = Some a"
  obtain n ka where e: "nodes a = Some n" "getk n = Some ka" "keys ka = Some k"
    using table_ok_entry [OF ok m] .
  have "nodes' a = Some n" using nodes [of a] m e by (auto simp: ran_def)
  moreover have "keys' ka = Some k" using keys e(3) by (auto simp: map_le_def dom_def)
  ultimately show "\<exists>n ka. nodes' a = Some n \<and> getk n = Some ka \<and> keys' ka = Some k"
    using e(2) by blast
qed (use ok in \<open>simp add: table_ok_def\<close>)

section \<open>The operations keep the cache well formed\<close>

lemma spin_lock_free [simp]: "\<not> cache_spinlock c \<Longrightarrow> spin_lock c = Inr (c\<lparr>cache_spinlock := True\<rparr>)"
  by (simp add: spin_lock_def)

lemma unlock_locked [simp]: "\<not> cache_spinlock c \<Longrightarrow> c\<lparr>cache_spinlock := False\<rparr> = c"
  by (cases c) simp

lemma cache_okD:
  assumes "cache_ok slots live getk (w, c)"
  shows "\<not> cache_spinlock c" "dom (cache_nodes c) \<subseteq> live w" "dom (cache_keys c) \<subseteq> live w"
    "dom (cache_nodes c) \<inter> dom (cache_keys c) = {}"
    "cache_hash c = Some h \<Longrightarrow> table_ok getk (content (slots h)) (cache_nodes c) (cache_keys c)"
  using assms by (simp_all add: cache_ok_def)

lemma cache_ok_world: "cache_ok slots live getk (w, c) \<Longrightarrow> live w' = live w \<Longrightarrow> cache_ok slots live getk (w', c)"
  by (simp add: cache_ok_def)

locale cache_env = dpdk_mem D live + rte_hash H slots
  for D :: "'w dpdk" and live and H :: "('w, 'h, 'k) hash_api" and slots +
  fixes getk :: "'x node_cache_scheme \<Rightarrow> addr option"
    and setk :: "addr \<Rightarrow> 'x node_cache_scheme \<Rightarrow> 'x node_cache_scheme"
  assumes getk_setk: "getk (setk a n) = Some a"
    and setk_base: "node_cache.truncate (setk a n) = node_cache.truncate n"
begin

lemma lookup_no_table:
  assumes "cache_ok slots live getk (w, c)" "cache_hash c = None"
  shows "g_lookup getk D H k None (w, c) = Inr ((- EINVAL, None), w, c)"
  using cache_okD(1) [OF assms(1)] assms(2)
  by (simp add: g_lookup_def lookup_null spin_unlock_def)

lemma lookup_absent:
  assumes "cache_ok slots live getk (w, c)" "cache_hash c = Some h" "content (slots h) k = None"
  shows "g_lookup getk D H k None (w, c) = Inr ((- ENOENT, None), w, c)"
  using cache_okD(1) [OF assms(1)] assms(2,3)
  by (simp add: g_lookup_def lookup_miss spin_unlock_def)

lemma lookup_valid:
  assumes "cache_ok slots live getk (w, c)" "cache_hash c = Some h"
    and "content (slots h) k = Some a" "cache_nodes c a = Some n"
    and "rte_get_timer_cycles D w = (now, w')" "\<not> expired now (rte_get_timer_hz D) n"
  shows "\<exists>i \<ge> 0. g_lookup getk D H k None (w, c) = Inr ((i, Some a), w', c)"
proof -
  obtain i where "i \<ge> 0" "rte_hash_lookup_data H (Some h) k None = (i, Some a)"
    using lookup_hit [OF assms(3)] by blast
  then show ?thesis
    using cache_okD(1) [OF assms(1)] assms hz_pos
    by (simp add: g_lookup_def u64_div_def expired_def spin_unlock_def)
qed

lemma lookup_stale:
  assumes "cache_ok slots live getk (w, c)" "cache_hash c = Some h"
    and "content (slots h) k = Some a" "cache_nodes c a = Some n" "getk n = Some ka"
    and "rte_get_timer_cycles D w = (now, w')" "expired now (rte_get_timer_hz D) n"
  shows "\<exists>h'. content (slots h') = (content (slots h))(k := None) \<and>
     g_lookup getk D H k None (w, c) = Inr ((- ENOENT, None), rte_free D a (rte_free D ka w'),
       c\<lparr>cache_hash := Some h', cache_nodes := (cache_nodes c)(a := None),
         cache_keys := (cache_keys c)(ka := None)\<rparr>)"
proof -
  obtain i where i: "i \<ge> 0" "rte_hash_lookup_data H (Some h) k None = (i, Some a)"
    using lookup_hit [OF assms(3)] by blast
  obtain r h' where r: "r \<ge> 0" "rte_hash_del_key H (Some h) k = (r, Some h')"
    and h': "content (slots h') = (content (slots h))(k := None)"
    using del_hit [of h k] assms(3) by auto
  have "cache_keys c ka = Some k"
    by (rule table_ok_entry [OF cache_okD(5) [OF assms(1,2)] assms(3)]) (use assms(4,5) in simp)
  with i r h' show ?thesis
    using cache_okD(1) [OF assms(1)] assms hz_pos
    by (intro exI [of _ h']) (simp add: g_lookup_def u64_div_def expired_def free_node_def free_key_def
        Let_def spin_unlock_def)
qed

text \<open>Lookup implements lookup in a map whose entries expire, and frees what it drops.\<close>

lemma lookup_refines:
  assumes ok: "cache_ok slots live getk (w, c)" and h: "cache_hash c = Some h"
    and now: "rte_get_timer_cycles D w = (now, w1)"
  shows "\<exists>r rn w' c'. g_lookup getk D H k None (w, c) = Inr ((r, rn), w', c') \<and>
     cache_ok slots live getk (w', c') \<and>
     ttl_lookup (rte_get_timer_hz D) now k (cache_view slots c) =
       (map_option (the \<circ> cache_nodes c') rn, cache_view slots c') \<and>
     (if rn = None then r = - ENOENT else r \<ge> 0)"
proof (cases "content (slots h) k")
  case None
  then show ?thesis
    using lookup_absent [OF ok h None] ok h by (simp add: cache_view_def ttl_lookup_def)
next
  case (Some a)
  note table = cache_okD(5) [OF ok h]
  obtain n ka where n: "cache_nodes c a = Some n" "getk n = Some ka" "cache_keys c ka = Some k"
    using table_ok_entry [OF table Some] .
  have view: "cache_view slots c k = Some n"
    using h Some n by (simp add: cache_view_def)
  have live: "live w1 = live w" using cycles_live [OF now] .
  show ?thesis
  proof (cases "expired now (rte_get_timer_hz D) n")
    case False
    then obtain i where "i \<ge> 0" "g_lookup getk D H k None (w, c) = Inr ((i, Some a), w1, c)"
      using lookup_valid [OF ok h Some n(1) now] by blast
    with False view n(1) cache_ok_world [OF ok live] show ?thesis
      by (simp add: ttl_lookup_def)
  next
    case True
    then obtain h' where h': "content (slots h') = (content (slots h))(k := None)"
      and run: "g_lookup getk D H k None (w, c) = Inr ((- ENOENT, None), rte_free D a (rte_free D ka w1),
        c\<lparr>cache_hash := Some h', cache_nodes := (cache_nodes c)(a := None),
          cache_keys := (cache_keys c)(ka := None)\<rparr>)" (is "_ = Inr (_, ?w', ?c')")
      using lookup_stale [OF ok h Some n(1,2) now] by blast
    have "table_ok getk (content (slots h')) (cache_nodes ?c') (cache_keys ?c')"
      using table_ok_remove [OF table Some n(1,2)] h' by simp
    moreover have "cache_nodes c ka = None" "cache_keys c a = None"
      using cache_okD(4) [OF ok] n by (auto simp: dom_def)
    ultimately have "cache_ok slots live getk (?w', ?c')"
      using cache_okD(1-4) [OF ok] by (auto simp: cache_ok_def free_live live)
    moreover have "cache_view slots ?c' = (cache_view slots c)(k := None)"
    proof
      fix k'
      show "cache_view slots ?c' k' = ((cache_view slots c)(k := None)) k'"
        using h h' table_ok_inj [OF table Some, of k']
        by (auto simp: cache_view_def map_comp_def split: option.splits)
    qed
    ultimately show ?thesis
      using run True view by (simp add: ttl_lookup_def)
  qed
qed

end

text \<open>Storing a node under a key: the node is not in the table yet.\<close>

definition unused :: "('h \<Rightarrow> ('k \<times> addr) option list) \<Rightarrow> ('h, 'db, 'n, 'k) cache \<Rightarrow> addr \<Rightarrow> bool" where
  "unused slots c a \<longleftrightarrow> (\<forall>h. cache_hash c = Some h \<longrightarrow> a \<notin> ran (content (slots h)))"

lemma cache_view_cong:
  assumes "cache_hash c' = cache_hash c"
    and "\<And>h a. cache_hash c = Some h \<Longrightarrow> a \<in> ran (content (slots h)) \<Longrightarrow> cache_nodes c' a = cache_nodes c a"
  shows "cache_view slots c' = cache_view slots c"
  using assms by (fastforce simp: cache_view_def map_comp_def ran_def split: option.splits)

context cache_env
begin

text \<open>Freeing an unused node, with the heap entry of a key copy that is no longer there.\<close>

lemma drop_node_ok:
  assumes ok: "cache_ok slots live getk (w, c)" and a: "cache_nodes c a \<noteq> None" "unused slots c a"
    and live: "live w' = live w - {a}" and ka: "cache_keys c ka = None"
  shows "cache_ok slots live getk (w', c\<lparr>cache_nodes := (cache_nodes c)(a := None),
      cache_keys := (cache_keys c)(ka := None)\<rparr>)"
proof -
  have "cache_keys c a = None"
    using cache_okD(4) [OF ok] a(1) by (auto simp: dom_def)
  moreover have "table_ok getk (content (slots h)) ((cache_nodes c)(a := None)) (cache_keys c)"
    if "cache_hash c = Some h" for h
    by (rule table_ok_mono [OF cache_okD(5) [OF ok that]]) (use a(2) that in \<open>auto simp: unused_def\<close>)
  moreover have "(cache_keys c)(ka := None) = cache_keys c" using ka by auto
  ultimately show ?thesis
    using cache_okD(1-4) [OF ok] live by (auto simp: cache_ok_def)
qed

lemma drop_node_view:
  "unused slots c a \<Longrightarrow> cache_view slots (c\<lparr>cache_nodes := (cache_nodes c)(a := None), cache_keys := ks\<rparr>) = cache_view slots c"
  by (rule cache_view_cong) (auto simp: unused_def)

lemma add_no_memory:
  assumes "cache_nodes c a = Some n" "rte_malloc D w = (None, w1)"
  shows "g_add setk D H copied a ttl (w, c) =
     Inr (rte_free D a w1, c\<lparr>cache_nodes := (cache_nodes c)(a := None)\<rparr>)"
  using assms by (simp add: g_add_def free_node_def)

lemma add_rejected:
  assumes "cache_ok slots live getk (w, c)" "cache_nodes c a = Some n" "rte_malloc D w = (Some ka, w1)"
    and "rte_get_timer_cycles D w1 = (now, w2)"
    and "rte_hash_add_key_data H (cache_hash c) k a = (r, cache_hash c)" "r \<noteq> 0"
  shows "g_add setk D H (Inr k) a ttl (w, c) =
     Inr (rte_free D a (rte_free D ka w2),
       c\<lparr>cache_nodes := (cache_nodes c)(a := None), cache_keys := (cache_keys c)(ka := None)\<rparr>)"
  using cache_okD(1) [OF assms(1)] assms
  by (simp add: g_add_def free_node_def free_key_def spin_lock_def spin_unlock_def Let_def)

lemma add_stored:
  assumes "cache_ok slots live getk (w, c)" "cache_nodes c a = Some n" "rte_malloc D w = (Some ka, w1)"
    and "rte_get_timer_cycles D w1 = (now, w2)"
    and "rte_hash_add_key_data H (cache_hash c) k a = (0, h')"
  shows "g_add setk D H (Inr k) a ttl (w, c) =
     Inr (w2, c\<lparr>cache_hash := h', cache_keys := (cache_keys c)(ka \<mapsto> k),
       cache_nodes := (cache_nodes c)(a \<mapsto> setk ka (n\<lparr>timestamp := now, ttl_seconds := word_of_int ttl\<rparr>))\<rparr>)"
  using cache_okD(1) [OF assms(1)] assms
  by (simp add: g_add_def spin_lock_def spin_unlock_def Let_def)

lemma add_no_memory_ok:
  assumes ok: "cache_ok slots live getk (w, c)" and a: "cache_nodes c a = Some n" "unused slots c a"
    and m: "rte_malloc D w = (None, w1)"
  shows "cache_ok slots live getk (rte_free D a w1, c\<lparr>cache_nodes := (cache_nodes c)(a := None)\<rparr>)"
proof -
  have ka: "cache_keys c a = None" using cache_okD(4) [OF ok] a(1) by (auto simp: dom_def)
  then have same: "c\<lparr>cache_nodes := (cache_nodes c)(a := None), cache_keys := (cache_keys c)(a := None)\<rparr> =
      c\<lparr>cache_nodes := (cache_nodes c)(a := None)\<rparr>" by (simp add: fun_upd_idem)
  have "live (rte_free D a w1) = live w - {a}"
    using malloc_none [OF m] by (simp add: free_live)
  with drop_node_ok [OF ok _ a(2) _ ka] a(1) same show ?thesis by simp
qed

lemma fresh_key:
  assumes "cache_ok slots live getk (w, c)" "cache_nodes c a = Some n"
    and m: "rte_malloc D w = (Some ka, w1)" and t: "rte_get_timer_cycles D w1 = (now, w2)"
  shows "cache_keys c ka = None" "cache_nodes c ka = None" "ka \<noteq> a" "ka \<notin> live w"
    "live w2 = insert ka (live w)" "cache_keys c a = None"
  using malloc_some [OF m] cycles_live [OF t] cache_okD(2-4) [OF assms(1)] assms(2)
  by (auto simp: dom_def)

lemma add_rejected_ok:
  assumes ok: "cache_ok slots live getk (w, c)" and a: "cache_nodes c a = Some n" "unused slots c a"
    and m: "rte_malloc D w = (Some ka, w1)" and t: "rte_get_timer_cycles D w1 = (now, w2)"
  shows "cache_ok slots live getk (rte_free D a (rte_free D ka w2),
       c\<lparr>cache_nodes := (cache_nodes c)(a := None), cache_keys := (cache_keys c)(ka := None)\<rparr>)"
proof -
  note ka = fresh_key [OF ok a(1) m t]
  have "live (rte_free D a (rte_free D ka w2)) = live w - {a}"
    using ka by (auto simp: free_live)
  with drop_node_ok [OF ok _ a(2) _ ka(1)] a(1) show ?thesis by simp
qed

lemma add_stored_ok:
  assumes ok: "cache_ok slots live getk (w, c)" and a: "cache_nodes c a = Some n" "unused slots c a"
    and m: "rte_malloc D w = (Some ka, w1)" and t: "rte_get_timer_cycles D w1 = (now, w2)"
    and h: "cache_hash c = Some h" "content (slots h1) = (content (slots h))(k \<mapsto> a)"
    and k: "getk n' = Some ka"
    and c': "c' = c\<lparr>cache_hash := Some h1, cache_keys := (cache_keys c)(ka \<mapsto> k),
        cache_nodes := (cache_nodes c)(a \<mapsto> n')\<rparr>"
  shows "cache_ok slots live getk (w2, c')" "cache_view slots c' = (cache_view slots c)(k \<mapsto> n')"
proof -
  note ka = fresh_key [OF ok a(1) m t]
  have "table_ok getk (content (slots h1)) (cache_nodes c') (cache_keys c')"
    using table_ok_add [OF cache_okD(5) [OF ok h(1)] _ ka(1) k, of a k] a(2) h by (simp add: unused_def c')
  then show "cache_ok slots live getk (w2, c')"
    using cache_okD(1-4) [OF ok] h ka a(1) by (auto simp: cache_ok_def c')
  show "cache_view slots c' = (cache_view slots c)(k \<mapsto> n')"
    using h a(2)
    by (auto simp: c' cache_view_def map_comp_def unused_def ran_def fun_eq_iff split: option.splits)
qed

text \<open>Every run of the addition either stores the node or frees it and leaves the cache as it was.\<close>

lemma add_refines:
  assumes ok: "cache_ok slots live getk (w, c)" and a: "cache_nodes c a = Some n" "unused slots c a"
  shows "\<exists>w' c'. g_add setk D H (Inr k) a ttl (w, c) = Inr (w', c') \<and> cache_ok slots live getk (w', c') \<and>
     (cache_view slots c' = cache_view slots c \<and> cache_nodes c' = (cache_nodes c)(a := None) \<or>
      (\<exists>ka w1. rte_malloc D w = (Some ka, w1) \<and> cache_hash c' \<noteq> None \<and>
        cache_view slots c' = (cache_view slots c)(k \<mapsto> setk ka (n\<lparr>timestamp :=
          fst (rte_get_timer_cycles D w1), ttl_seconds := word_of_int ttl\<rparr>))))"
proof (cases "rte_malloc D w")
  case (Pair p w1)
  show ?thesis
  proof (cases p)
    case None
    with add_no_memory [OF a(1)] add_no_memory_ok [OF ok a] Pair drop_node_view [OF a(2), of "cache_keys c"]
    show ?thesis by simp
  next
    case (Some ka)
    note m = Pair [unfolded Some]
    obtain now w2 where t: "rte_get_timer_cycles D w1 = (now, w2)" by fastforce
    obtain r h' where r: "rte_hash_add_key_data H (cache_hash c) k a = (r, h')" by fastforce
    show ?thesis
    proof (cases "r = 0")
      case True
      then obtain h h1 where h: "cache_hash c = Some h" "h' = Some h1"
        and h1: "content (slots h1) = (content (slots h))(k \<mapsto> a)"
        using r add_null add_ok by (cases "cache_hash c") fastforce+
      with add_stored [OF ok a(1) m t] add_stored_ok [OF ok a m t h(1) h1 getk_setk refl] r True m t
      show ?thesis by auto
    next
      case False
      then have "h' = cache_hash c"
        using r add_null [of k a] add_err by (cases "cache_hash c") auto
      with add_rejected [OF ok a(1) m t] add_rejected_ok [OF ok a m t] r False drop_node_view [OF a(2)]
      show ?thesis by auto
    qed
  qed
qed

end

section \<open>Releasing and clearing a cache\<close>

text \<open>The key copies that a list of entries leads to.\<close>

definition key_copies :: "('n \<Rightarrow> addr option) \<Rightarrow> (addr \<rightharpoonup> 'n) \<Rightarrow> ('k \<times> addr) list \<Rightarrow> addr set" where
  "key_copies getk nodes es = {ka. \<exists>a \<in> snd ` set es. \<exists>n. nodes a = Some n \<and> getk n = Some ka}"

text \<open>No allocated node or key copy is out of reach of the table.\<close>

definition no_leak ::
  "('h \<Rightarrow> ('k \<times> addr) option list) \<Rightarrow> ('n \<Rightarrow> addr option) \<Rightarrow> ('h, 'db, 'n, 'k) cache \<Rightarrow> bool" where
  "no_leak slots getk c \<longleftrightarrow>
     (\<forall>a \<in> dom (cache_nodes c). \<exists>h. cache_hash c = Some h \<and> a \<in> ran (content (slots h))) \<and>
     (\<forall>ka \<in> dom (cache_keys c). \<exists>n \<in> ran (cache_nodes c). getk n = Some ka)"

lemma free_entry_run:
  assumes "cache_nodes c a = Some n" "getk n = Some ka" "cache_keys c ka \<noteq> None"
  shows "g_free_entry getk D (k, Some a) (w, c) =
     Inr (rte_free D a (rte_free D ka w),
       c\<lparr>cache_nodes := (cache_nodes c)(a := None), cache_keys := (cache_keys c)(ka := None)\<rparr>)"
  using assms by (simp add: g_free_entry_def free_node_def free_key_def)

lemma restrict_map_upd_None: "(m(a := None)) |` A = m |` (A - {a})"
  by (auto simp: restrict_map_def fun_eq_iff)

lemma restrict_to_empty: "dom m \<subseteq> A \<Longrightarrow> m |` (- A) = Map.empty"
  by (auto simp: restrict_map_def fun_eq_iff domIff subset_iff)

lemma free_walk:
  assumes "table_ok getk (map_of es) (cache_nodes c) (cache_keys c)" "distinct (map fst es)"
  shows "\<exists>w'. c_fold es (\<lambda>(k, a). g_free_entry getk D (k, Some a)) (w, c) =
     Inr (w', c\<lparr>cache_nodes := cache_nodes c |` (- snd ` set es),
                cache_keys := cache_keys c |` (- key_copies getk (cache_nodes c) es)\<rparr>)"
  using assms
proof (induction es arbitrary: w c)
  case Nil
  then show ?case by (simp add: key_copies_def)
next
  case (Cons e es)
  obtain k a where e: "e = (k, a)" by fastforce
  note ok = Cons.prems(1) [unfolded e]
  have ka: "map_of ((k, a) # es) k = Some a" by simp
  obtain n ka where n: "cache_nodes c a = Some n" "getk n = Some ka" "cache_keys c ka = Some k"
    using table_ok_entry [OF ok ka] .
  let ?c = "c\<lparr>cache_nodes := (cache_nodes c)(a := None), cache_keys := (cache_keys c)(ka := None)\<rparr>"
  have distinct: "distinct (map fst es)"
    using Cons.prems(2) by simp
  have rest: "(map_of ((k, a) # es))(k := None) = map_of es"
    using Cons.prems(2) e by (auto simp: fun_eq_iff map_of_eq_None_iff [THEN iffD2])
  have table: "table_ok getk (map_of es) (cache_nodes ?c) (cache_keys ?c)"
    using table_ok_remove [OF ok ka n(1,2)] unfolding rest by simp
  have "insert ka (key_copies getk (cache_nodes ?c) es) = key_copies getk (cache_nodes c) (e # es)"
    using n e by (fastforce simp: key_copies_def split: if_splits)
  then have keys: "cache_keys ?c |` (- key_copies getk (cache_nodes ?c) es) =
      cache_keys c |` (- key_copies getk (cache_nodes c) (e # es))"
    by (simp add: restrict_map_upd_None del: restrict_fun_upd fun_upd_restrict)
      (metis Compl_insert)
  have nodes: "cache_nodes ?c |` (- snd ` set es) = cache_nodes c |` (- snd ` set (e # es))"
    using e by (auto simp: restrict_map_def fun_eq_iff)
  obtain w' where "c_fold es (\<lambda>(k, a). g_free_entry getk D (k, Some a)) (rte_free D a (rte_free D ka w), ?c) =
      Inr (w', ?c\<lparr>cache_nodes := cache_nodes ?c |` (- snd ` set es),
                  cache_keys := cache_keys ?c |` (- key_copies getk (cache_nodes ?c) es)\<rparr>)"
    using Cons.IH [OF table distinct] by blast
  then show ?case
    unfolding keys nodes using n e by (simp add: free_entry_run)
qed

context cache_env
begin

text \<open>Releasing a cache ends, frees every node and key copy of the table once, and nothing else.\<close>

lemma free_runs:
  assumes ok: "cache_ok slots live getk (w, c)" and h: "cache_hash c = Some h"
  shows "\<exists>w' c'. g_free getk D H S (w, c) = Some (Inr (w', c')) \<and>
     cache_hash c' = None \<and> cache_table c' = None \<and> \<not> cache_spinlock c' \<and>
     cache_nodes c' = cache_nodes c |` (- snd ` set (entries (slots h))) \<and>
     cache_keys c' = cache_keys c |` (- key_copies getk (cache_nodes c) (entries (slots h)))"
proof -
  let ?c = "c\<lparr>cache_spinlock := True\<rparr>"
  have table: "table_ok getk (map_of (entries (slots h))) (cache_nodes ?c) (cache_keys ?c)"
    using cache_okD(5) [OF ok h] by (simp add: content_def)
  obtain w' where walk: "c_fold (entries (slots h)) (\<lambda>(k, a). g_free_entry getk D (k, Some a)) (w, ?c) =
      Inr (w', ?c\<lparr>cache_nodes := cache_nodes ?c |` (- snd ` set (entries (slots h))),
                cache_keys := cache_keys ?c |` (- key_copies getk (cache_nodes ?c) (entries (slots h)))\<rparr>)"
    using free_walk [OF table slots_distinct, of D w] ..
  show ?thesis
    using cache_okD(1) [OF ok] h
    by (simp add: g_free_def hash_walk_all walk g_close_def spin_unlock_def Let_def
        split: option.splits prod.splits)
qed

lemma free_all:
  assumes "cache_ok slots live getk (w, c)" "cache_hash c = Some h" "no_leak slots getk c"
  shows "\<exists>w' c'. g_free getk D H S (w, c) = Some (Inr (w', c')) \<and>
     cache_hash c' = None \<and> cache_table c' = None \<and> \<not> cache_spinlock c' \<and>
     cache_nodes c' = Map.empty \<and> cache_keys c' = Map.empty"
proof -
  have range: "snd ` set (entries (slots h)) = ran (content (slots h))"
    using content_iff_entry by (force simp: ran_def)
  have "dom (cache_nodes c) \<subseteq> snd ` set (entries (slots h))"
    using assms(2,3) range by (auto simp: no_leak_def)
  moreover have "dom (cache_keys c) \<subseteq> key_copies getk (cache_nodes c) (entries (slots h))"
  proof
    fix ka assume "ka \<in> dom (cache_keys c)"
    then obtain a n where n: "cache_nodes c a = Some n" "getk n = Some ka"
      using assms(3) by (fastforce simp: no_leak_def ran_def)
    then have "a \<in> snd ` set (entries (slots h))"
      using calculation by auto
    with n show "ka \<in> key_copies getk (cache_nodes c) (entries (slots h))"
      by (force simp: key_copies_def)
  qed
  ultimately show ?thesis
    using free_runs [OF assms(1,2), of S] by (fastforce simp: restrict_to_empty)
qed

text \<open>Clearing empties the table, and puts everything that it led to out of reach.\<close>

lemma clear_leaks:
  assumes ok: "cache_ok slots live getk (w, c)" and h: "cache_hash c = Some h"
  shows "\<exists>c'. g_clear H c = Inr c' \<and> cache_ok slots live getk (w, c') \<and>
     cache_view slots c' = Map.empty \<and> cache_nodes c' = cache_nodes c \<and> cache_keys c' = cache_keys c \<and>
     (no_leak slots getk c' \<longleftrightarrow> cache_nodes c = Map.empty \<and> cache_keys c = Map.empty)"
proof -
  obtain h' where h': "rte_hash_reset H (Some h) = Some h'" "content (slots h') = Map.empty"
    using reset_empty by blast
  let ?c = "c\<lparr>cache_hash := Some h'\<rparr>"
  have "g_clear H c = Inr ?c"
    using cache_okD(1) [OF ok] h h' by (simp add: g_clear_def spin_unlock_def)
  moreover have "cache_ok slots live getk (w, ?c)"
    using ok h' by (simp add: cache_ok_def table_ok_def)
  moreover have "no_leak slots getk ?c \<longleftrightarrow> cache_nodes c = Map.empty \<and> cache_keys c = Map.empty"
    using h' by (auto simp: no_leak_def)
  ultimately show ?thesis using h' by (auto simp: cache_view_def)
qed

text \<open>Storing a node that was read from the database.  When that fails the node is still the
  caller's to free, with a key field that may point to a freed copy.\<close>

lemma insert_added:
  assumes ok: "cache_ok slots live getk (w, c)" and a: "cache_nodes c a = Some n" "unused slots c a"
    and m: "rte_malloc D w = (Some ka, w1)"
    and r: "rte_hash_add_key_data H (cache_hash c) k a = (0, h')"
  shows "\<exists>w' c'. g_insert setk D H (Inr k) a (w, c) = Inr (0, w', c') \<and> cache_ok slots live getk (w', c') \<and>
     cache_view slots c' = (cache_view slots c)(k \<mapsto> setk ka n)"
proof -
  obtain now w2 where t: "rte_get_timer_cycles D w1 = (now, w2)" by fastforce
  obtain h h1 where h: "cache_hash c = Some h" "h' = Some h1"
    and h1: "content (slots h1) = (content (slots h))(k \<mapsto> a)"
    using r add_null add_ok by (cases "cache_hash c") fastforce+
  let ?c = "c\<lparr>cache_hash := Some h1, cache_keys := (cache_keys c)(ka \<mapsto> k),
    cache_nodes := (cache_nodes c)(a \<mapsto> setk ka n)\<rparr>"
  note st = add_stored_ok [OF ok a m t h(1) h1 getk_setk refl]
  have "g_insert setk D H (Inr k) a (w, c) = Inr (0, w1, ?c)"
    using m a r h cache_okD(1) [OF ok]
    by (simp add: g_insert_def spin_lock_def spin_unlock_def Let_def)
  moreover have "cache_ok slots live getk (w1, ?c)"
    using cache_ok_world [OF st(1)] cycles_live [OF t] by simp
  ultimately show ?thesis using st(2) by auto
qed

lemma insert_refused:
  assumes ok: "cache_ok slots live getk (w, c)" and a: "cache_nodes c a = Some n" "unused slots c a"
    and m: "rte_malloc D w = (Some ka, w1)"
    and r: "rte_hash_add_key_data H (cache_hash c) k a = (r, h')" "r \<noteq> 0"
  shows "\<exists>w' c'. g_insert setk D H (Inr k) a (w, c) = Inr (r, w', c') \<and> cache_ok slots live getk (w', c') \<and>
     r < 0 \<and> cache_view slots c' = cache_view slots c \<and> cache_keys c' = cache_keys c \<and>
     cache_nodes c' a \<noteq> None \<and> unused slots c' a"
proof -
  obtain now w2 where t: "rte_get_timer_cycles D w1 = (now, w2)" by fastforce
  note ka = fresh_key [OF ok a(1) m t]
  have h': "h' = cache_hash c" "r < 0"
    using r add_null [of k a] add_err by (cases "cache_hash c"; auto)+
  let ?c = "c\<lparr>cache_nodes := (cache_nodes c)(a \<mapsto> setk ka n)\<rparr>"
  have same: "(cache_keys c)(ka := None) = cache_keys c" using ka(1) by auto
  have "g_insert setk D H (Inr k) a (w, c) = Inr (r, rte_free D ka w1, ?c)"
    using m a r h' cache_okD(1) [OF ok]
    by (simp add: g_insert_def spin_lock_def spin_unlock_def Let_def free_key_def same)
  moreover have "table_ok getk (content (slots h)) (cache_nodes ?c) (cache_keys c)"
    if "cache_hash c = Some h" for h
    by (rule table_ok_mono [OF cache_okD(5) [OF ok that]]) (use a(2) that in \<open>auto simp: unused_def\<close>)
  then have "cache_ok slots live getk (rte_free D ka w1, ?c)"
    using ok ka malloc_some [OF m] a(1) by (auto simp: cache_ok_def free_live)
  moreover have "cache_view slots ?c = cache_view slots c"
    by (rule cache_view_cong) (use a(2) in \<open>auto simp: unused_def\<close>)
  ultimately show ?thesis using h'(2) a(2) by (simp add: unused_def)
qed

lemma insert_stores:
  assumes ok: "cache_ok slots live getk (w, c)" and a: "cache_nodes c a = Some n" "unused slots c a"
  shows "\<exists>r w' c'. g_insert setk D H (Inr k) a (w, c) = Inr (r, w', c') \<and> cache_ok slots live getk (w', c') \<and>
     (if r = 0 then \<exists>ka. cache_view slots c' = (cache_view slots c)(k \<mapsto> setk ka n)
      else r < 0 \<and> cache_view slots c' = cache_view slots c \<and> cache_keys c' = cache_keys c \<and>
        cache_nodes c' a \<noteq> None \<and> unused slots c' a)"
proof (cases "rte_malloc D w")
  case (Pair p w1)
  show ?thesis
  proof (cases p)
    case None
    with Pair malloc_none [of w w1] cache_ok_world [OF ok] a show ?thesis by (simp add: g_insert_def)
  next
    case (Some ka)
    note m = Pair [unfolded Some]
    obtain r h' where r: "rte_hash_add_key_data H (cache_hash c) k a = (r, h')" by fastforce
    show ?thesis
    proof (cases "r = 0")
      case True
      with insert_added [OF ok a m] r show ?thesis by metis
    next
      case False
      with insert_refused [OF ok a m r] show ?thesis by auto
    qed
  qed
qed

end

section \<open>What the operations leave alone\<close>

text \<open>The memory a cache owns.  An operation on it frees nothing else, and what it takes was free:
  whatever memory another party holds, it still holds after the step.\<close>

definition owned :: "('h, 'db, 'n, 'k) cache \<Rightarrow> addr set" where
  "owned c = dom (cache_nodes c) \<union> dom (cache_keys c)"

definition frame ::
  "('w \<Rightarrow> addr set) \<Rightarrow> 'w \<times> ('h, 'db, 'n, 'k) cache \<Rightarrow> 'w \<times> ('h, 'db, 'n, 'k) cache \<Rightarrow> bool" where
  "frame live = (\<lambda>(w, c) (w', c').
     \<forall>X. X \<subseteq> live w \<and> X \<inter> owned c = {} \<longrightarrow> X \<subseteq> live w' \<and> X \<inter> owned c' = {})"

lemma frame_same: "live w' = live w \<Longrightarrow> frame live (w, c) (w', c)"
  by (simp add: frame_def)

lemma frameI:
  assumes "live w - owned c \<subseteq> live w'" "owned c' \<inter> (live w - owned c) = {}"
  shows "frame live (w, c) (w', c')"
  using assms by (auto simp: frame_def)

context cache_env
begin

lemma lookup_cases:
  assumes ok: "cache_ok slots live getk (w, c)"
  obtains (no_table) "cache_hash c = None" "g_lookup getk D H k None (w, c) = Inr ((- EINVAL, None), w, c)"
  | (absent) h where "cache_hash c = Some h" "content (slots h) k = None"
      "g_lookup getk D H k None (w, c) = Inr ((- ENOENT, None), w, c)"
  | (valid) h a i w' where "cache_hash c = Some h" "content (slots h) k = Some a" "live w' = live w"
      "i \<ge> 0" "g_lookup getk D H k None (w, c) = Inr ((i, Some a), w', c)"
  | (stale) h h' a n ka w' where "cache_hash c = Some h" "content (slots h) k = Some a"
      "cache_nodes c a = Some n" "getk n = Some ka" "cache_keys c ka = Some k"
      "content (slots h') = (content (slots h))(k := None)" "live w' = live w - {a, ka}"
      "g_lookup getk D H k None (w, c) = Inr ((- ENOENT, None), w',
         c\<lparr>cache_hash := Some h', cache_nodes := (cache_nodes c)(a := None),
           cache_keys := (cache_keys c)(ka := None)\<rparr>)"
proof (cases "cache_hash c")
  case None
  then show thesis using lookup_no_table [OF ok] no_table by blast
next
  case (Some h)
  show thesis
  proof (cases "content (slots h) k")
    case None
    then show thesis using lookup_absent [OF ok Some] Some absent by blast
  next
    case a: (Some a)
    obtain n ka where n: "cache_nodes c a = Some n" "getk n = Some ka" "cache_keys c ka = Some k"
      using table_ok_entry [OF cache_okD(5) [OF ok Some] a] .
    obtain now w1 where now: "rte_get_timer_cycles D w = (now, w1)" by fastforce
    note live = cycles_live [OF now]
    show thesis
    proof (cases "expired now (rte_get_timer_hz D) n")
      case True
      have "live (rte_free D a (rte_free D ka w1)) = live w - {a, ka}"
        using live by (auto simp: free_live)
      with lookup_stale [OF ok Some a n(1,2) now True] Some a n stale show thesis by blast
    next
      case False
      with lookup_valid [OF ok Some a n(1) now] Some a live valid show thesis by blast
    qed
  qed
qed

lemma lookup_frame:
  assumes "cache_ok slots live getk (w, c)" "g_lookup getk D H k None (w, c) = Inr (r, w', c')"
  shows "frame live (w, c) (w', c')"
  using assms(1)
proof (cases rule: lookup_cases [where k = k])
  case (stale h h' a n ka w1)
  then have "w' = w1" "owned c' \<subseteq> owned c" "live w1 = live w - {a, ka}" "{a, ka} \<subseteq> owned c"
    using assms(2) by (auto simp: owned_def)
  then show ?thesis by (intro frameI) auto
qed (use assms(2) in \<open>simp_all add: frame_same\<close>)

lemma lookup_no_leak:
  assumes ok: "cache_ok slots live getk (w, c)" and leak: "no_leak slots getk c"
    and run: "g_lookup getk D H k None (w, c) = Inr (r, w', c')"
  shows "no_leak slots getk c'"
  using ok
proof (cases rule: lookup_cases [where k = k])
  case (stale h h' a n ka w1)
  have inj: "k' = k" if "content (slots h) k' = Some a" for k'
    using table_ok_inj [OF cache_okD(5) [OF ok stale(1)] that stale(2)] .
  have c': "c' = c\<lparr>cache_hash := Some h', cache_nodes := (cache_nodes c)(a := None),
           cache_keys := (cache_keys c)(ka := None)\<rparr>"
    using run stale by simp
  have "x \<in> ran (content (slots h'))" if x: "x \<in> dom (cache_nodes c)" "x \<noteq> a" for x
  proof -
    obtain k' where "content (slots h) k' = Some x"
      using leak stale(1) x(1) unfolding no_leak_def ran_def by fastforce
    with stale(2,6) x(2) have "content (slots h') k' = Some x" by auto
    then show ?thesis by (rule ranI)
  qed
  moreover have "\<exists>m \<in> ran ((cache_nodes c)(a := None)). getk m = Some x"
    if x: "x \<in> dom (cache_keys c)" "x \<noteq> ka" for x
  proof -
    obtain m b where m: "cache_nodes c b = Some m" "getk m = Some x"
      using leak x(1) unfolding no_leak_def ran_def by blast
    moreover have "b \<noteq> a" using m stale(3,4) x(2) by auto
    ultimately show ?thesis by (auto simp: ran_def)
  qed
  ultimately show ?thesis by (auto simp: no_leak_def c' split: if_splits)
qed (use run leak in auto)

lemma add_cases:
  assumes ok: "cache_ok slots live getk (w, c)" and a: "cache_nodes c a = Some n"
  obtains (dropped) w' where "g_add setk D H (Inr k) a ttl (w, c) =
        Inr (w', c\<lparr>cache_nodes := (cache_nodes c)(a := None)\<rparr>)" "live w' = live w - {a}"
  | (stored) h h' n' ka w' where "cache_hash c = Some h" "content (slots h') = (content (slots h))(k \<mapsto> a)"
      "ka \<notin> live w" "live w' = insert ka (live w)" "getk n' = Some ka"
      "g_add setk D H (Inr k) a ttl (w, c) =
         Inr (w', c\<lparr>cache_hash := Some h', cache_keys := (cache_keys c)(ka \<mapsto> k),
           cache_nodes := (cache_nodes c)(a \<mapsto> n')\<rparr>)"
proof (cases "rte_malloc D w")
  case (Pair p w1)
  show thesis
  proof (cases p)
    case None
    with Pair malloc_none [of w w1] add_no_memory [OF a] dropped show thesis
      by (simp add: free_live)
  next
    case (Some ka)
    note m = Pair [unfolded Some]
    obtain now w2 where t: "rte_get_timer_cycles D w1 = (now, w2)" by fastforce
    obtain r h' where r: "rte_hash_add_key_data H (cache_hash c) k a = (r, h')" by fastforce
    note ka = fresh_key [OF ok a m t]
    show thesis
    proof (cases "r = 0")
      case True
      then obtain h h1 where "cache_hash c = Some h" "h' = Some h1"
        "content (slots h1) = (content (slots h))(k \<mapsto> a)"
        using r add_null add_ok by (cases "cache_hash c") fastforce+
      with add_stored [OF ok a m t] r True ka stored getk_setk show thesis by metis
    next
      case False
      then have h': "h' = cache_hash c"
        using r add_null [of k a] add_err by (cases "cache_hash c") auto
      have same: "(cache_keys c)(ka := None) = cache_keys c" using ka(1) by auto
      have "live (rte_free D a (rte_free D ka w2)) = live w - {a}"
        using ka by (auto simp: free_live)
      moreover have "c\<lparr>cache_nodes := (cache_nodes c)(a := None), cache_keys := (cache_keys c)(ka := None)\<rparr> =
          c\<lparr>cache_nodes := (cache_nodes c)(a := None)\<rparr>" by (simp add: same)
      ultimately show thesis
        using add_rejected [OF ok a m t] r h' False dropped by metis
    qed
  qed
qed

lemma add_frame:
  assumes "cache_ok slots live getk (w, c)" "cache_nodes c a = Some n"
    and "g_add setk D H (Inr k) a ttl (w, c) = Inr (w', c')"
  shows "frame live (w, c) (w', c')"
  using assms(1,2)
proof (cases rule: add_cases [where k = k and ttl = ttl])
  case (dropped w1)
  then have "w' = w1" "owned c' \<subseteq> owned c" "live w1 = live w - {a}" "a \<in> owned c"
    using assms by (auto simp: owned_def)
  then show ?thesis by (intro frameI) auto
next
  case (stored h h' n' ka w1)
  then have "w' = w1" "owned c' \<subseteq> insert ka (owned c)" "live w1 = insert ka (live w)" "ka \<notin> live w"
    using assms by (auto simp: owned_def)
  then show ?thesis by (intro frameI) auto
qed

text \<open>Storing a node that is not in the table under a key that is not there loses no memory.\<close>

lemma add_no_leak:
  assumes ok: "cache_ok slots live getk (w, c)" and a: "cache_nodes c a = Some n" "unused slots c a"
    and leak: "no_leak slots getk (c\<lparr>cache_nodes := (cache_nodes c)(a := None)\<rparr>)"
    and absent: "cache_view slots c k = None"
    and run: "g_add setk D H (Inr k) a ttl (w, c) = Inr (w', c')"
  shows "no_leak slots getk c'"
  using ok a(1)
proof (cases rule: add_cases [where k = k and ttl = ttl])
  case (stored h h' n' ka w1)
  have c': "c' = c\<lparr>cache_hash := Some h', cache_keys := (cache_keys c)(ka \<mapsto> k),
       cache_nodes := (cache_nodes c)(a \<mapsto> n')\<rparr>"
    using run stored by simp
  have "content (slots h) k = None"
    using absent stored(1) table_ok_entry [OF cache_okD(5) [OF ok stored(1)]]
    by (fastforce simp: cache_view_def map_comp_def split: option.splits)
  then have ran: "ran (content (slots h')) = insert a (ran (content (slots h)))"
    using stored(2) by simp
  have "\<exists>m \<in> ran ((cache_nodes c)(a \<mapsto> n')). getk m = Some x" if x: "x \<in> dom (cache_keys c)" for x
  proof -
    obtain m where "m \<in> ran ((cache_nodes c)(a := None))" "getk m = Some x"
      using leak x unfolding no_leak_def by fastforce
    then obtain b where "cache_nodes c b = Some m" "getk m = Some x" "b \<noteq> a"
      by (auto simp: ran_def split: if_splits)
    then have "m \<in> ran ((cache_nodes c)(a \<mapsto> n'))" by (auto simp: ran_def)
    with \<open>getk m = Some x\<close> show ?thesis by blast
  qed
  moreover have "n' \<in> ran ((cache_nodes c)(a \<mapsto> n'))" by (auto simp: ran_def)
  moreover have "x \<in> ran (content (slots h'))" if "x \<in> dom ((cache_nodes c)(a \<mapsto> n'))" for x
    using leak stored(1) that ran by (cases "x = a") (auto simp: no_leak_def)
  ultimately show ?thesis
    using stored(5) unfolding no_leak_def c' by (simp; blast)
qed (use run leak in auto)

end

section \<open>The contract the packet processor relies on\<close>

text \<open>
  A cache with a time to live, seen through its \<open>view\<close>: a lookup is the lookup of an expiring
  map, an addition stores a copy of the given node with the new time stamp or leaves the view
  alone, neither faults, and both keep the invariant, the memory of others and the absence of
  leaks.  \<open>canon\<close> are the keys whose bytes are the ones an addition stores.
\<close>

locale ttl_cache =
  fixes lookup :: "'k \<Rightarrow> addr option \<Rightarrow> 'w \<times> ('h, 'db, 'x node_cache_scheme, 'k) cache \<Rightarrow>
      ((int \<times> addr option) \<times> 'w \<times> ('h, 'db, 'x node_cache_scheme, 'k) cache) res"
    and add :: "'k \<Rightarrow> addr \<Rightarrow> int \<Rightarrow> 'w \<times> ('h, 'db, 'x node_cache_scheme, 'k) cache \<Rightarrow>
      ('w \<times> ('h, 'db, 'x node_cache_scheme, 'k) cache) res"
    and canon :: "'k \<Rightarrow> bool"
    and slots :: "'h \<Rightarrow> ('k \<times> addr) option list" and live :: "'w \<Rightarrow> addr set"
    and getk :: "'x node_cache_scheme \<Rightarrow> addr option"
    and setk :: "addr \<Rightarrow> 'x node_cache_scheme \<Rightarrow> 'x node_cache_scheme"
    and clock :: "'w \<Rightarrow> 64 word" and stamp :: "'w \<Rightarrow> 64 word" and hz :: "64 word"
  assumes setk_data: "node_cache.truncate (setk a n) = node_cache.truncate n"
    and lookup_law: "cache_ok slots live getk (w, c) \<Longrightarrow>
      \<exists>r rn w' c'. lookup k None (w, c) = Inr ((r, rn), w', c') \<and>
        cache_ok slots live getk (w', c') \<and> frame live (w, c) (w', c') \<and>
        (no_leak slots getk c \<longrightarrow> no_leak slots getk c') \<and>
        (case cache_hash c of
           None \<Rightarrow> r = - EINVAL \<and> rn = None \<and> c' = c
         | Some h \<Rightarrow> cache_hash c' \<noteq> None \<and>
             ttl_lookup hz (clock w) k (cache_view slots c) =
               (map_option (the \<circ> cache_nodes c') rn, cache_view slots c') \<and>
             (case rn of None \<Rightarrow> r = - ENOENT | Some a \<Rightarrow> r \<ge> 0 \<and> cache_nodes c' a \<noteq> None))"
    and add_law: "cache_ok slots live getk (w, c) \<Longrightarrow> cache_nodes c a = Some n \<Longrightarrow> unused slots c a \<Longrightarrow>
      canon k \<Longrightarrow>
      \<exists>w' c'. add k a ttl (w, c) = Inr (w', c') \<and>
        cache_ok slots live getk (w', c') \<and> frame live (w, c) (w', c') \<and>
        (no_leak slots getk (c\<lparr>cache_nodes := (cache_nodes c)(a := None)\<rparr>) \<longrightarrow>
          cache_view slots c k = None \<longrightarrow> no_leak slots getk c') \<and>
        (cache_view slots c' = cache_view slots c \<and> cache_nodes c' = (cache_nodes c)(a := None) \<or>
         (\<exists>ka. cache_hash c' \<noteq> None \<and> cache_view slots c' = (cache_view slots c)(k \<mapsto>
           setk ka (n\<lparr>timestamp := stamp w, ttl_seconds := word_of_int ttl\<rparr>))))"
begin

lemma setk_fields [simp]:
  "categories (setk a n) = categories n" "solution_is_send (setk a n) = solution_is_send n"
  "trust_lvl (setk a n) = trust_lvl n" "timestamp (setk a n) = timestamp n"
  "ttl_seconds (setk a n) = ttl_seconds n"
  using setk_data [of a n] by (cases n; cases "setk a n"; simp add: node_cache.truncate_def)+

text \<open>What a lookup returns is a node that is stored under the key and still valid.\<close>

lemma lookup_hit_valid:
  assumes "cache_ok slots live getk (w, c)" "lookup k None (w, c) = Inr ((r, Some a), w', c')"
  shows "\<exists>n. cache_view slots c k = Some n \<and> cache_nodes c' a = Some n \<and> \<not> expired (clock w) hz n \<and>
     cache_view slots c' = cache_view slots c"
proof -
  obtain n where n: "cache_nodes c' a = Some n" "cache_hash c \<noteq> None"
    "ttl_lookup hz (clock w) k (cache_view slots c) = (Some n, cache_view slots c')"
    using lookup_law [OF assms(1), of k] assms(2) by (fastforce split: option.splits)
  then show ?thesis
    by (auto simp: ttl_lookup_def split: option.splits if_splits)
qed

lemma lookup_outcomes:
  assumes ok: "cache_ok slots live getk (w, c)"
  obtains (hit) r a n w' c' where "lookup k None (w, c) = Inr ((r, Some a), w', c')"
      "cache_ok slots live getk (w', c')" "frame live (w, c) (w', c')"
      "no_leak slots getk c \<Longrightarrow> no_leak slots getk c'" "r \<ge> 0" "cache_nodes c' a = Some n"
      "cache_view slots c k = Some n" "\<not> expired (clock w) hz n" "cache_view slots c' = cache_view slots c"
  | (miss) w' c' where "lookup k None (w, c) = Inr ((- ENOENT, None), w', c')"
      "cache_ok slots live getk (w', c')" "frame live (w, c) (w', c')"
      "no_leak slots getk c \<Longrightarrow> no_leak slots getk c'" "cache_view slots c' k = None"
      "\<forall>n. cache_view slots c k = Some n \<longrightarrow> expired (clock w) hz n"
      "\<forall>k'. k' \<noteq> k \<longrightarrow> cache_view slots c' k' = cache_view slots c k'"
  | (null) w' where "lookup k None (w, c) = Inr ((- EINVAL, None), w', c)" "cache_hash c = None"
      "cache_ok slots live getk (w', c)" "frame live (w, c) (w', c)"
proof -
  obtain r rn w' c' where run: "lookup k None (w, c) = Inr ((r, rn), w', c')"
    and keep: "cache_ok slots live getk (w', c')" "frame live (w, c) (w', c')"
      "no_leak slots getk c \<Longrightarrow> no_leak slots getk c'"
    and res: "case cache_hash c of
           None \<Rightarrow> r = - EINVAL \<and> rn = None \<and> c' = c
         | Some h \<Rightarrow> cache_hash c' \<noteq> None \<and>
             ttl_lookup hz (clock w) k (cache_view slots c) =
               (map_option (the \<circ> cache_nodes c') rn, cache_view slots c') \<and>
             (case rn of None \<Rightarrow> r = - ENOENT | Some a \<Rightarrow> r \<ge> 0 \<and> cache_nodes c' a \<noteq> None)"
    using lookup_law [OF ok, of k] by blast
  show thesis
  proof (cases "cache_hash c")
    case None
    with run keep res null show thesis by simp
  next
    case (Some h)
    show thesis
    proof (cases rn)
      case None
      with Some res have "r = - ENOENT" "cache_view slots c' k = None"
        "\<forall>n. cache_view slots c k = Some n \<longrightarrow> expired (clock w) hz n"
        "\<forall>k'. k' \<noteq> k \<longrightarrow> cache_view slots c' k' = cache_view slots c k'"
        by (auto simp: ttl_lookup_def eq_commute [of "(cache_view slots c)(k := None)"]
            split: option.splits if_splits)
      with None run keep miss show thesis by blast
    next
      case (Some a)
      with \<open>cache_hash c = Some h\<close> res obtain n where "r \<ge> 0" "cache_nodes c' a = Some n"
        "cache_view slots c k = Some n" "\<not> expired (clock w) hz n" "cache_view slots c' = cache_view slots c"
        by (auto simp: ttl_lookup_def split: option.splits if_splits)
      with Some run keep hit show thesis by blast
    qed
  qed
qed

lemma lookup_finds:
  assumes ok: "cache_ok slots live getk (w, c)"
    and n: "cache_view slots c k = Some n" "\<not> expired (clock w) hz n"
  shows "\<exists>r a w' c'. lookup k None (w, c) = Inr ((r, Some a), w', c') \<and> r \<ge> 0 \<and> cache_nodes c' a = Some n"
proof -
  obtain h where "cache_hash c = Some h" using n by (cases "cache_hash c") (auto simp: cache_view_def)
  then show ?thesis
    using lookup_law [OF ok, of k] n by (auto simp: ttl_lookup_def split: option.splits)
qed

lemma lookup_forgets:
  assumes ok: "cache_ok slots live getk (w, c)" and h: "cache_hash c \<noteq> None"
    and n: "cache_view slots c k = Some n" "expired (clock w) hz n"
  shows "\<exists>w' c'. lookup k None (w, c) = Inr ((- ENOENT, None), w', c') \<and>
     cache_view slots c' = (cache_view slots c)(k := None)"
proof -
  obtain h where "cache_hash c = Some h" using h by blast
  then show ?thesis
    using lookup_law [OF ok, of k] n by (auto simp: ttl_lookup_def split: option.splits)
qed

lemma add_others:
  assumes "cache_ok slots live getk (w, c)" "cache_nodes c a = Some n" "unused slots c a" "canon k"
    and "add k a ttl (w, c) = Inr (w', c')" "k' \<noteq> k"
  shows "cache_view slots c' k' = cache_view slots c k'"
  using add_law [OF assms(1-4), of ttl] assms(5,6) by auto

lemma add_then_lookup:
  assumes "cache_ok slots live getk (w, c)" "cache_nodes c a = Some n" "unused slots c a" "canon k"
  shows "\<exists>w' c'. add k a ttl (w, c) = Inr (w', c') \<and> cache_ok slots live getk (w', c') \<and>
     (cache_view slots c' = cache_view slots c \<and> cache_nodes c' = (cache_nodes c)(a := None) \<or>
      (\<forall>w2. live w2 = live w' \<longrightarrow>
        (\<exists>r rn w3 c3. lookup k None (w2, c') = Inr ((r, rn), w3, c3) \<and>
          (if (clock w2 - stamp w) div hz < ucast (word_of_int ttl :: 32 word)
           then r \<ge> 0 \<and> (\<exists>a' n'. rn = Some a' \<and> cache_nodes c3 a' = Some n' \<and>
             categories n' = categories n \<and> trust_lvl n' = trust_lvl n \<and>
             solution_is_send n' = solution_is_send n)
           else r = - ENOENT \<and> rn = None \<and> cache_view slots c3 k = None))))"
proof -
  obtain w' c' where run: "add k a ttl (w, c) = Inr (w', c')" and ok: "cache_ok slots live getk (w', c')"
    and res: "cache_view slots c' = cache_view slots c \<and> cache_nodes c' = (cache_nodes c)(a := None) \<or>
      (\<exists>ka. cache_hash c' \<noteq> None \<and> cache_view slots c' = (cache_view slots c)(k \<mapsto>
        setk ka (n\<lparr>timestamp := stamp w, ttl_seconds := word_of_int ttl\<rparr>)))"
    using add_law [OF assms, of ttl] by blast
  from res show ?thesis
  proof
    assume "\<exists>ka. cache_hash c' \<noteq> None \<and> cache_view slots c' = (cache_view slots c)(k \<mapsto>
        setk ka (n\<lparr>timestamp := stamp w, ttl_seconds := word_of_int ttl\<rparr>))"
    then obtain n' where h: "cache_hash c' \<noteq> None" and view: "cache_view slots c' k = Some n'"
      and n': "timestamp n' = stamp w" "ttl_seconds n' = word_of_int ttl" "categories n' = categories n"
        "trust_lvl n' = trust_lvl n" "solution_is_send n' = solution_is_send n"
      by fastforce
    have "\<exists>r rn w3 c3. lookup k None (w2, c') = Inr ((r, rn), w3, c3) \<and>
          (if (clock w2 - stamp w) div hz < ucast (word_of_int ttl :: 32 word)
           then r \<ge> 0 \<and> (\<exists>a' n'. rn = Some a' \<and> cache_nodes c3 a' = Some n' \<and>
             categories n' = categories n \<and> trust_lvl n' = trust_lvl n \<and>
             solution_is_send n' = solution_is_send n)
           else r = - ENOENT \<and> rn = None \<and> cache_view slots c3 k = None)" if same: "live w2 = live w'" for w2
    proof (cases "expired (clock w2) hz n'")
      case True
      then obtain w3 c3 where "lookup k None (w2, c') = Inr ((- ENOENT, None), w3, c3)"
        "cache_view slots c3 = (cache_view slots c')(k := None)"
        using lookup_forgets [OF cache_ok_world [OF ok same] h view] by blast
      with True n' show ?thesis by (simp add: expired_def not_less)
    next
      case False
      then obtain r a' w3 c3 where "lookup k None (w2, c') = Inr ((r, Some a'), w3, c3)" "r \<ge> 0"
        "cache_nodes c3 a' = Some n'"
        using lookup_finds [OF cache_ok_world [OF ok same] view] by blast
      with False n' show ?thesis by (simp add: expired_def not_le)
    qed
    with run ok show ?thesis by blast
  qed (use run ok in blast)
qed

end

context cache_env
begin

abbreviation now_of :: "'w \<Rightarrow> 64 word" where "now_of w \<equiv> fst (rte_get_timer_cycles D w)"

abbreviation stamp_of :: "'w \<Rightarrow> 64 word" where "stamp_of w \<equiv> now_of (snd (rte_malloc D w))"

lemma lookup_keeps_table:
  assumes "cache_ok slots live getk (w, c)" "cache_hash c = Some h"
    and "g_lookup getk D H k None (w, c) = Inr ((r, rn), w', c')"
  shows "cache_hash c' \<noteq> None \<and> (\<forall>a. rn = Some a \<longrightarrow> cache_nodes c' a \<noteq> None)"
  using assms(1)
proof (cases rule: lookup_cases [where k = k])
  case (valid h a i w')
  then show ?thesis
    using assms table_ok_entry [OF cache_okD(5) [OF assms(1) valid(1)] valid(2)] by auto
qed (use assms in auto)

lemma lookup_contract:
  assumes ok: "cache_ok slots live getk (w, c)"
  shows "\<exists>r rn w' c'. g_lookup getk D H k None (w, c) = Inr ((r, rn), w', c') \<and>
        cache_ok slots live getk (w', c') \<and> frame live (w, c) (w', c') \<and>
        (no_leak slots getk c \<longrightarrow> no_leak slots getk c') \<and>
        (case cache_hash c of
           None \<Rightarrow> r = - EINVAL \<and> rn = None \<and> c' = c
         | Some h \<Rightarrow> cache_hash c' \<noteq> None \<and>
             ttl_lookup (rte_get_timer_hz D) (now_of w) k (cache_view slots c) =
               (map_option (the \<circ> cache_nodes c') rn, cache_view slots c') \<and>
             (case rn of None \<Rightarrow> r = - ENOENT | Some a \<Rightarrow> r \<ge> 0 \<and> cache_nodes c' a \<noteq> None))"
proof (cases "cache_hash c")
  case None
  with lookup_no_table [OF ok] ok show ?thesis by (simp add: frame_same)
next
  case (Some h)
  obtain r rn w' c' where run: "g_lookup getk D H k None (w, c) = Inr ((r, rn), w', c')"
    and res: "cache_ok slots live getk (w', c')"
      "ttl_lookup (rte_get_timer_hz D) (now_of w) k (cache_view slots c) =
         (map_option (the \<circ> cache_nodes c') rn, cache_view slots c')"
      "if rn = None then r = - ENOENT else r \<ge> 0"
    using lookup_refines [OF ok Some, where k = k] prod.collapse by metis
  then show ?thesis
    using lookup_frame [OF ok run] lookup_no_leak [OF ok _ run] lookup_keeps_table [OF ok Some run] Some
    by (auto split: option.splits)
qed

lemma add_contract:
  assumes ok: "cache_ok slots live getk (w, c)" and a: "cache_nodes c a = Some n" "unused slots c a"
  shows "\<exists>w' c'. g_add setk D H (Inr k) a ttl (w, c) = Inr (w', c') \<and>
        cache_ok slots live getk (w', c') \<and> frame live (w, c) (w', c') \<and>
        (no_leak slots getk (c\<lparr>cache_nodes := (cache_nodes c)(a := None)\<rparr>) \<longrightarrow>
          cache_view slots c k = None \<longrightarrow> no_leak slots getk c') \<and>
        (cache_view slots c' = cache_view slots c \<and> cache_nodes c' = (cache_nodes c)(a := None) \<or>
         (\<exists>ka. cache_hash c' \<noteq> None \<and> cache_view slots c' = (cache_view slots c)(k \<mapsto>
           setk ka (n\<lparr>timestamp := stamp_of w, ttl_seconds := word_of_int ttl\<rparr>))))"
proof -
  obtain w' c' where run: "g_add setk D H (Inr k) a ttl (w, c) = Inr (w', c')"
    and res: "cache_ok slots live getk (w', c')"
      "cache_view slots c' = cache_view slots c \<and> cache_nodes c' = (cache_nodes c)(a := None) \<or>
       (\<exists>ka w1. rte_malloc D w = (Some ka, w1) \<and> cache_hash c' \<noteq> None \<and>
        cache_view slots c' = (cache_view slots c)(k \<mapsto> setk ka (n\<lparr>timestamp :=
          fst (rte_get_timer_cycles D w1), ttl_seconds := word_of_int ttl\<rparr>)))"
    using add_refines [OF ok a, of k ttl] by blast
  then show ?thesis
    using add_frame [OF ok a(1) run] add_no_leak [OF ok a _ _ run] by (metis snd_conv)
qed

end

sublocale cache_env \<subseteq> g: ttl_cache "g_lookup getk D H" "\<lambda>k. g_add setk D H (Inr k)" "\<lambda>_. True"
    slots live getk setk "\<lambda>w. fst (rte_get_timer_cycles D w)"
    "\<lambda>w. fst (rte_get_timer_cycles D (snd (rte_malloc D w)))" "rte_get_timer_hz D"
  by (unfold_locales; (rule setk_base lookup_contract add_contract; assumption)?)

section \<open>A new node for a decision\<close>

text \<open>What the packet processor does with a decision it has computed: allocate a node, set its
  fields, and add it.  \<open>f\<close> is the change of the new node and \<open>add\<close> the addition to the cache.\<close>

definition g_remember ::
  "'w dpdk \<Rightarrow> (addr \<Rightarrow> 'w \<times> ('h, 'db, 'n, 'k) cache \<Rightarrow> ('w \<times> ('h, 'db, 'n, 'k) cache) res) \<Rightarrow> 'n \<Rightarrow>
   ('n \<Rightarrow> 'n) \<Rightarrow> 'w \<times> ('h, 'db, 'n, 'k) cache \<Rightarrow> ('w \<times> ('h, 'db, 'n, 'k) cache) res" where
  "g_remember D add z f = (\<lambda>wc.
     case new_node D z wc of
       (None, w, c) \<Rightarrow> Inr (w, c)
     | (Some node, w, c) \<Rightarrow>
         rbind (deref (cache_nodes c) node) (\<lambda>n.
         add node (w, c\<lparr>cache_nodes := (cache_nodes c)(node \<mapsto> f n)\<rparr>)))"

text \<open>The time stamp the node gets: the clock after the allocation of the node and of its key.\<close>

definition node_stamp :: "'w dpdk \<Rightarrow> 'w \<Rightarrow> 64 word" where
  "node_stamp D w = fst (rte_get_timer_cycles D (snd (rte_malloc D (snd (rte_malloc D w)))))"

lemma frame_trans: "frame live wc wc1 \<Longrightarrow> frame live wc1 wc2 \<Longrightarrow> frame live wc wc2"
  by (cases wc; cases wc1; cases wc2) (simp add: frame_def)

context cache_env
begin

lemma new_node_ok:
  assumes ok: "cache_ok slots live getk (w, c)" and m: "rte_malloc D w = (Some a, w')"
    and c': "c' = c\<lparr>cache_nodes := (cache_nodes c)(a \<mapsto> n)\<rparr>"
  shows "cache_ok slots live getk (w', c')" "unused slots c' a" "cache_view slots c' = cache_view slots c"
    "frame live (w, c) (w', c')" "c'\<lparr>cache_nodes := (cache_nodes c')(a := None)\<rparr> = c"
proof -
  note live = malloc_some [OF m]
  have a: "cache_nodes c a = None" "cache_keys c a = None"
    using cache_okD(2,3) [OF ok] live by (auto simp: dom_def)
  have unused: "a \<notin> ran (content (slots h))" if "cache_hash c = Some h" for h
  proof
    assume "a \<in> ran (content (slots h))"
    then obtain k where "content (slots h) k = Some a" by (auto simp: ran_def)
    then show False using table_ok_entry [OF cache_okD(5) [OF ok that]] a(1) by fastforce
  qed
  then show "unused slots c' a" by (simp add: unused_def c')
  have "table_ok getk (content (slots h)) (cache_nodes c') (cache_keys c)" if "cache_hash c = Some h" for h
    by (rule table_ok_mono [OF cache_okD(5) [OF ok that]]) (use unused [OF that] in \<open>auto simp: c'\<close>)
  then show "cache_ok slots live getk (w', c')"
    using ok live a(2) by (auto simp: cache_ok_def c')
  show "cache_view slots c' = cache_view slots c"
    by (rule cache_view_cong) (use unused in \<open>auto simp: c'\<close>)
  show "frame live (w, c) (w', c')"
    using live by (intro frameI) (auto simp: owned_def c')
  have "(cache_nodes c)(a := None) = cache_nodes c" using a(1) by auto
  then show "c'\<lparr>cache_nodes := (cache_nodes c')(a := None)\<rparr> = c" by (simp add: c')
qed

lemma remember_contract:
  assumes ok: "cache_ok slots live getk (w, c)"
  shows "\<exists>w' c'. g_remember D (\<lambda>a. g_add setk D H (Inr k) a ttl) z f (w, c) = Inr (w', c') \<and>
     cache_ok slots live getk (w', c') \<and> frame live (w, c) (w', c') \<and>
     (no_leak slots getk c \<longrightarrow> cache_view slots c k = None \<longrightarrow> no_leak slots getk c') \<and>
     (cache_view slots c' = cache_view slots c \<or>
      (\<exists>ka. cache_view slots c' = (cache_view slots c)(k \<mapsto>
         setk ka ((f z)\<lparr>timestamp := node_stamp D w, ttl_seconds := word_of_int ttl\<rparr>))))"
proof (cases "rte_malloc D w")
  case (Pair p w1)
  show ?thesis
  proof (cases p)
    case None
    with Pair malloc_none [of w w1] cache_ok_world [OF ok] frame_same [of live w1 w c] show ?thesis
      by (simp add: g_remember_def new_node_def)
  next
    case (Some a)
    note m = Pair [unfolded Some]
    let ?c = "c\<lparr>cache_nodes := (cache_nodes c)(a \<mapsto> f z)\<rparr>"
    note new = new_node_ok [OF ok m refl, of "f z"]
    have run: "g_remember D (\<lambda>a. g_add setk D H (Inr k) a ttl) z f (w, c) = g_add setk D H (Inr k) a ttl (w1, ?c)"
      using m by (simp add: g_remember_def new_node_def)
    show ?thesis
      unfolding run
      using add_contract [OF new(1) _ new(2), of "f z" k ttl] frame_trans [OF new(4)] new(3,5) m
      by (auto simp: node_stamp_def)
  qed
qed

text \<open>Adding under a key that is already there replaces the entry, and the old node is lost.\<close>

lemma add_replaces:
  assumes ok: "cache_ok slots live getk (w, c)" and a: "cache_nodes c a = Some n" "unused slots c a"
    and k: "cache_view slots c k \<noteq> None" and run: "g_add setk D H (Inr k) a ttl (w, c) = Inr (w', c')"
  shows "c' = c\<lparr>cache_nodes := (cache_nodes c)(a := None)\<rparr> \<or> \<not> no_leak slots getk c'"
  using ok a(1)
proof (cases rule: add_cases [where k = k and ttl = ttl])
  case (stored h h' n' ka w1)
  have c': "c' = c\<lparr>cache_hash := Some h', cache_keys := (cache_keys c)(ka \<mapsto> k),
       cache_nodes := (cache_nodes c)(a \<mapsto> n')\<rparr>"
    using run stored by simp
  obtain b m where b: "content (slots h) k = Some b" "cache_nodes c b = Some m"
    using k stored(1) by (auto simp: cache_view_def map_comp_def split: option.splits)
  have "b \<noteq> a" using a(2) stored(1) b(1) by (auto simp: unused_def ran_def)
  have "content (slots h') k' \<noteq> Some b" for k'
    using table_ok_inj [OF cache_okD(5) [OF ok stored(1)] b(1), of k'] stored(2) \<open>b \<noteq> a\<close> by auto
  moreover have "b \<in> dom (cache_nodes c')" using b(2) \<open>b \<noteq> a\<close> by (auto simp: c')
  ultimately show ?thesis by (auto simp: no_leak_def c' ran_def)
qed (use run in simp)

lemma remember_replaces:
  assumes ok: "cache_ok slots live getk (w, c)" and k: "cache_view slots c k \<noteq> None"
    and run: "g_remember D (\<lambda>a. g_add setk D H (Inr k) a ttl) z f (w, c) = Inr (w', c')"
  shows "c' = c \<or> \<not> no_leak slots getk c'"
proof (cases "rte_malloc D w")
  case (Pair p w1)
  show ?thesis
  proof (cases p)
    case None
    with Pair run show ?thesis by (simp add: g_remember_def new_node_def)
  next
    case (Some a)
    note m = Pair [unfolded Some]
    note new = new_node_ok [OF ok m refl, of "f z"]
    have "g_add setk D H (Inr k) a ttl (w1, c\<lparr>cache_nodes := (cache_nodes c)(a \<mapsto> f z)\<rparr>) = Inr (w', c')"
      using run m by (simp add: g_remember_def new_node_def)
    from add_replaces [OF new(1) _ new(2) _ this] k new(3,5) show ?thesis by simp
  qed
qed

end

end
