(* ===== verification/Ip_Cache.thy ===== *)
theory Ip_Cache
  imports Cache
begin

text \<open>
  The address cache, \<open>src/worker/src/dpdk_filter/ip_cache.c\<close>, as far as it works in memory: the
  operations under the source's names, and the contract of \<open>Cache\<close> proved for them.
\<close>

type_synonym ('h, 'db) ip_cache = "('h, 'db, node_cache_ip, ip_key) cache"

abbreviation set_key :: "addr \<Rightarrow> node_cache_ip \<Rightarrow> node_cache_ip" where
  "set_key a n \<equiv> n\<lparr>key := Some a\<rparr>"

section \<open>The operations\<close>

definition insert_loaded_node_ip ::
  "'w dpdk \<Rightarrow> ('w, 'h, ip_key) hash_api \<Rightarrow> ip_key \<Rightarrow> addr \<Rightarrow> 'w \<times> ('h, 'db) ip_cache \<Rightarrow>
   (int \<times> 'w \<times> ('h, 'db) ip_cache) res" where
  "insert_loaded_node_ip D H ip node = (\<lambda>(w, c).
     case rte_malloc D w of
       (None, w) \<Rightarrow> Inr (- ENOMEM, w, c)
     | (Some key_copy, w) \<Rightarrow>
         let c = c\<lparr>cache_keys := (cache_keys c)(key_copy \<mapsto> ip)\<rparr> in
         rbind (deref (cache_nodes c) node) (\<lambda>n.
         let c = c\<lparr>cache_nodes := (cache_nodes c)(node \<mapsto> n\<lparr>key := Some key_copy\<rparr>)\<rparr> in
         rbind (spin_lock c) (\<lambda>c.
         case rte_hash_add_key_data H (cache_hash c) ip node of (ret, h) \<Rightarrow>
         let c = spin_unlock (c\<lparr>cache_hash := h\<rparr>) in
         if ret < 0 then
           rbind (free_key D (Some key_copy) (w, c)) (\<lambda>(w, c). Inr (ret, w, c))
         else Inr (0, w, c))))"

definition lookup_ip_cache ::
  "'w dpdk \<Rightarrow> ('w, 'h, ip_key) hash_api \<Rightarrow> ip_key \<Rightarrow> addr option \<Rightarrow> 'w \<times> ('h, 'db) ip_cache \<Rightarrow>
   ((int \<times> addr option) \<times> 'w \<times> ('h, 'db) ip_cache) res" where
  "lookup_ip_cache D H k return_node = (\<lambda>(w, c).
     rbind (spin_lock c) (\<lambda>c.
     case rte_hash_lookup_data H (cache_hash c) k return_node of (ret, return_node) \<Rightarrow>
     if ret \<ge> 0 \<and> return_node \<noteq> None then
       (case rte_get_timer_cycles D w of (now, w) \<Rightarrow>
        rbind (deref (cache_nodes c) (the return_node)) (\<lambda>node.
        rbind (u64_div (now - timestamp node) (rte_get_timer_hz D)) (\<lambda>age_seconds.
        if age_seconds \<ge> ucast (ttl_seconds node) then
          (case rte_hash_del_key H (cache_hash c) k of (ret_del, h) \<Rightarrow>
           let c = c\<lparr>cache_hash := h\<rparr> in
           if ret_del < 0 then Inr ((- ENOENT, return_node), w, spin_unlock c)
           else
             rbind (free_key D (key node) (w, c)) (\<lambda>wc.
             rbind (free_node D (the return_node) wc) (\<lambda>(w, c).
             Inr ((- ENOENT, None), w, spin_unlock c))))
        else Inr ((ret, return_node), w, spin_unlock c))))
     else Inr ((ret, return_node), w, spin_unlock c)))"

definition add_to_ip_cache ::
  "'w dpdk \<Rightarrow> ('w, 'h, ip_key) hash_api \<Rightarrow> ip_key \<Rightarrow> addr \<Rightarrow> int \<Rightarrow> 'w \<times> ('h, 'db) ip_cache \<Rightarrow>
   ('w \<times> ('h, 'db) ip_cache) res" where
  "add_to_ip_cache D H k node ttl = (\<lambda>(w, c).
     case rte_malloc D w of
       (None, w) \<Rightarrow> free_node D node (w, c)
     | (Some key_copy, w) \<Rightarrow>
         let c = c\<lparr>cache_keys := (cache_keys c)(key_copy \<mapsto> k)\<rparr> in
         case rte_get_timer_cycles D w of (now, w) \<Rightarrow>
         rbind (deref (cache_nodes c) node) (\<lambda>n.
         let c = c\<lparr>cache_nodes := (cache_nodes c)(node \<mapsto>
               n\<lparr>timestamp := now, ttl_seconds := word_of_int ttl, key := Some key_copy\<rparr>)\<rparr> in
         rbind (spin_lock c) (\<lambda>c.
         case rte_hash_add_key_data H (cache_hash c) k node of (ret, h) \<Rightarrow>
         let c = spin_unlock (c\<lparr>cache_hash := h\<rparr>) in
         if ret \<noteq> 0 then
           rbind (free_key D (Some key_copy) (w, c)) (\<lambda>wc. free_node D node wc)
         else Inr (w, c))))"

definition close_sqlite_cache_ip ::
  "('w, 'db, 'st) sqlite_api \<Rightarrow> 'w \<times> ('h, 'db) ip_cache \<Rightarrow> 'w \<times> ('h, 'db) ip_cache" where
  "close_sqlite_cache_ip S = (\<lambda>(w, c).
     case cache_table c of
       None \<Rightarrow> (w, c\<lparr>cache_table := None\<rparr>)
     | Some db \<Rightarrow> (snd (sqlite3_close S db w), c\<lparr>cache_table := None\<rparr>))"

definition free_ip_cache ::
  "'w dpdk \<Rightarrow> ('w, 'h, ip_key) hash_api \<Rightarrow> ('w, 'db, 'st) sqlite_api \<Rightarrow> 'w \<times> ('h, 'db) ip_cache \<Rightarrow>
   ('w \<times> ('h, 'db) ip_cache) res option" where
  "free_ip_cache D H S = (\<lambda>(w, c).
     if cache_hash c = None then Some (Inr (w, c))
     else (case spin_lock c of
       Inl e \<Rightarrow> Some (Inl e)
     | Inr c \<Rightarrow>
       (case hash_walk H (cache_hash c)
           (\<lambda>(k, data) (w, c). case data of
              None \<Rightarrow> Inr (w, c)
            | Some a \<Rightarrow>
                rbind (deref (cache_nodes c) a) (\<lambda>node.
                rbind (free_key D (key node) (w, c)) (free_node D a))) 0 (w, c) of
          None \<Rightarrow> None
        | Some (Inl e) \<Rightarrow> Some (Inl e)
        | Some (Inr (w, c)) \<Rightarrow>
            (case close_sqlite_cache_ip S (rte_hash_free H (cache_hash c) w, c) of (w, c) \<Rightarrow>
             let c = spin_unlock (c\<lparr>cache_hash := None\<rparr>) in
             (case rte_timer_stop D w of (ret, w) \<Rightarrow>
              Some (Inr (w, if ret = 0 then c\<lparr>save_timer := None\<rparr> else c)))))))"

definition clear_ip_cache ::
  "('w, 'h, ip_key) hash_api \<Rightarrow> ('h, 'db) ip_cache \<Rightarrow> ('h, 'db) ip_cache res" where
  "clear_ip_cache H c =
     (if cache_hash c = None then Inr c
      else rbind (spin_lock c) (\<lambda>c.
        Inr (spin_unlock (c\<lparr>cache_hash := rte_hash_reset H (cache_hash c)\<rparr>))))"

section \<open>They are the common operations\<close>

lemma lookup_ip_cache_common: "lookup_ip_cache = g_lookup key"
  by (simp add: lookup_ip_cache_def g_lookup_def fun_eq_iff)

lemma add_to_ip_cache_common: "add_to_ip_cache D H k = g_add set_key D H (Inr k)"
  by (intro ext) (simp only: add_to_ip_cache_def g_add_def rbind_Inr)

lemma free_ip_cache_common: "free_ip_cache = g_free key"
  by (intro ext) (simp only: free_ip_cache_def g_free_def g_free_entry_def g_close_def close_sqlite_cache_ip_def)

lemma clear_ip_cache_common: "clear_ip_cache = g_clear"
  by (simp add: clear_ip_cache_def g_clear_def fun_eq_iff)

lemma insert_loaded_node_ip_common: "insert_loaded_node_ip D H ip = g_insert set_key D H (Inr ip)"
  by (intro ext) (simp only: insert_loaded_node_ip_def g_insert_def rbind_Inr)

lemmas ip_cache_common = insert_loaded_node_ip_common lookup_ip_cache_common add_to_ip_cache_common free_ip_cache_common
  clear_ip_cache_common

locale ip_env = dpdk_mem D live + rte_hash H slots
  for D :: "'w dpdk" and live and H :: "('w, 'h, ip_key) hash_api" and slots

sublocale ip_env \<subseteq> cache_env D live H slots key set_key
  by unfold_locales (simp_all add: node_cache.truncate_def)

sublocale ip_env \<subseteq> ip: ttl_cache "lookup_ip_cache D H" "add_to_ip_cache D H" "\<lambda>_. True"
    slots live key set_key "\<lambda>w. fst (rte_get_timer_cycles D w)"
    "\<lambda>w. fst (rte_get_timer_cycles D (snd (rte_malloc D w)))" "rte_get_timer_hz D"
  unfolding ip_cache_common by (rule g.ttl_cache_axioms)

context ip_env
begin

lemmas ip_contract = ip.ttl_cache_axioms

lemmas ip_common = cache_env_axioms

end

interpretation ref_ip: ip_env ref_dpdk ref_live "ref_hash CACHE_SIZE" "ref_slots CACHE_SIZE"
  by unfold_locales

section \<open>A concrete cache\<close>

definition sample_ip :: ip_key where
  "sample_ip = set_ip4 (zero_ip_key\<lparr>version := 4\<rparr>) 0x0100007F"

definition sample_ip_node :: node_cache_ip where
  "sample_ip_node = zero_node_ip\<lparr>trust_lvl := 3, solution_is_send := True\<rparr>"

text \<open>A cache with an entry stored at time 90 for 60 seconds, and a cache whose node, at address
  5, is not stored yet.\<close>

definition sample_ip_cache :: "((ip_key \<times> addr) list, unit) ip_cache" where
  "sample_ip_cache =
     \<lparr>cache_hash = Some [(sample_ip, 5)], cache_table = None, cache_spinlock = False,
      cache_nodes = [5 \<mapsto> sample_ip_node\<lparr>timestamp := 90, ttl_seconds := 60, key := Some 6\<rparr>],
      cache_keys = [6 \<mapsto> sample_ip], save_timer = None\<rparr>"

definition fresh_ip_cache :: "((ip_key \<times> addr) list, unit) ip_cache" where
  "fresh_ip_cache =
     \<lparr>cache_hash = Some [], cache_table = None, cache_spinlock = False,
      cache_nodes = [5 \<mapsto> sample_ip_node], cache_keys = Map.empty, save_timer = None\<rparr>"

lemma sample_ip_cache_ok:
  "cache_ok (ref_slots CACHE_SIZE) ref_live key (sample_world, sample_ip_cache)"
  "no_leak (ref_slots CACHE_SIZE) key sample_ip_cache"
  "cache_ok (ref_slots CACHE_SIZE) ref_live key (sample_world, fresh_ip_cache)"
  "unused (ref_slots CACHE_SIZE) fresh_ip_cache 5"
  by (auto simp: cache_ok_def table_ok_def no_leak_def unused_def sample_ip_cache_def fresh_ip_cache_def
      sample_world_def ref_live_def inj_on_def ran_def split: if_splits)

section \<open>Properties of the address cache\<close>

text \<open>
  C8.  Looking up an address in a well-formed cache that has its table never faults and is the
  lookup of a map whose entries expire: the node it returns is the one stored under the key if
  its age in seconds is below its time to live; an older entry is removed and \<open>-ENOENT\<close>
  returned.  The cache stays well formed, and if no memory was out of reach before, none is
  after: the node and the key copy of a removed entry are freed.
\<close>

theorem lookup_ip_cache_refines:
  assumes "ip_env D live H slots" "cache_ok slots live key (w, c)" "cache_hash c = Some h"
  shows "\<exists>r rn w' c'. lookup_ip_cache D H k None (w, c) = Inr ((r, rn), w', c') \<and>
     cache_ok slots live key (w', c') \<and> (no_leak slots key c \<longrightarrow> no_leak slots key c') \<and>
     ttl_lookup (rte_get_timer_hz D) (fst (rte_get_timer_cycles D w)) k (cache_view slots c) =
       (map_option (the \<circ> cache_nodes c') rn, cache_view slots c') \<and>
     (case rn of None \<Rightarrow> r = - ENOENT | Some a \<Rightarrow> r \<ge> 0 \<and> cache_nodes c' a \<noteq> None)"
  using ttl_cache.lookup_law [OF ip_env.ip_contract [OF assms(1)] assms(2), of k] assms(3) by auto

theorem lookup_ip_cache_refines_witness:
  "\<exists>r rn w' c'. lookup_ip_cache ref_dpdk (ref_hash CACHE_SIZE) sample_ip None (sample_world, sample_ip_cache) =
       Inr ((r, rn), w', c') \<and>
     (case rn of None \<Rightarrow> r = - ENOENT | Some a \<Rightarrow> r \<ge> 0 \<and> cache_nodes c' a \<noteq> None)"
  using lookup_ip_cache_refines [OF ref_ip.ip_env_axioms sample_ip_cache_ok(1), of "[(sample_ip, 5)]" sample_ip]
  by (auto simp: sample_ip_cache_def)

text \<open>
  C9.  What is stored is found again until its time is up.  Adding a node that is not in the
  table never faults and keeps the cache well formed.  Either the addition fails, and then the
  node is freed and the cache as it was; or, at every later moment, a lookup of the same address
  returns the node's categories, trust level and decision while fewer than the given number of
  seconds, as an unsigned 32-bit number, have passed since the time stamp, and from then on
  \<open>-ENOENT\<close>.
\<close>

theorem add_to_ip_cache_then_lookup:
  assumes "ip_env D live H slots" "cache_ok slots live key (w, c)"
    and "cache_nodes c a = Some n" "unused slots c a"
  shows "\<exists>w' c'. add_to_ip_cache D H k a ttl (w, c) = Inr (w', c') \<and> cache_ok slots live key (w', c') \<and>
     (cache_view slots c' = cache_view slots c \<and> cache_nodes c' = (cache_nodes c)(a := None) \<or>
      (\<forall>w2. live w2 = live w' \<longrightarrow>
        (\<exists>r rn w3 c3. lookup_ip_cache D H k None (w2, c') = Inr ((r, rn), w3, c3) \<and>
          (if (fst (rte_get_timer_cycles D w2) - fst (rte_get_timer_cycles D (snd (rte_malloc D w))))
                div rte_get_timer_hz D < ucast (word_of_int ttl :: 32 word)
           then r \<ge> 0 \<and> (\<exists>a' n'. rn = Some a' \<and> cache_nodes c3 a' = Some n' \<and>
             categories n' = categories n \<and> trust_lvl n' = trust_lvl n \<and>
             solution_is_send n' = solution_is_send n)
           else r = - ENOENT \<and> rn = None \<and> cache_view slots c3 k = None))))"
  using ttl_cache.add_then_lookup [OF ip_env.ip_contract [OF assms(1)] assms(2-4) TrueI] .


theorem add_to_ip_cache_then_lookup_witness:
  "\<exists>w' c'. add_to_ip_cache ref_dpdk (ref_hash CACHE_SIZE) sample_ip 5 60 (sample_world, fresh_ip_cache) = Inr (w', c') \<and>
     cache_ok (ref_slots CACHE_SIZE) ref_live key (w', c')"
  using add_to_ip_cache_then_lookup [OF ref_ip.ip_env_axioms sample_ip_cache_ok(3) _ sample_ip_cache_ok(4),
      of sample_ip_node sample_ip 60]
  by (auto simp: fresh_ip_cache_def)

text \<open>
  C10.  Adding a node loses no memory, provided the address is not in the cache: if everything
  but the new node was within reach of the table before the call, everything is after it,
  whether the node was stored or the addition failed.
\<close>

theorem add_to_ip_cache_no_leak:
  assumes "ip_env D live H slots" "cache_ok slots live key (w, c)"
    and "cache_nodes c a = Some n" "unused slots c a" "cache_view slots c k = None"
    and "no_leak slots key (c\<lparr>cache_nodes := (cache_nodes c)(a := None)\<rparr>)"
    and "add_to_ip_cache D H k a ttl (w, c) = Inr (w', c')"
  shows "no_leak slots key c'"
  using cache_env.add_no_leak [OF ip_env.ip_common [OF assms(1)] assms(2-4) assms(6,5)] assms(7)
  unfolding ip_cache_common by blast

theorem add_to_ip_cache_no_leak_witness:
  "\<exists>w' c'. add_to_ip_cache ref_dpdk (ref_hash CACHE_SIZE) sample_ip 5 60 (sample_world, fresh_ip_cache) = Inr (w', c') \<and>
     no_leak (ref_slots CACHE_SIZE) key c'"
proof -
  have node: "cache_nodes fresh_ip_cache 5 = Some sample_ip_node"
    by (simp add: fresh_ip_cache_def)
  obtain w' c' where run: "add_to_ip_cache ref_dpdk (ref_hash CACHE_SIZE) sample_ip 5 60 (sample_world, fresh_ip_cache) =
      Inr (w', c')"
    using ref_ip.ip.add_law [OF sample_ip_cache_ok(3) node sample_ip_cache_ok(4), of sample_ip 60] by auto
  have "no_leak (ref_slots CACHE_SIZE) key c'"
    by (rule add_to_ip_cache_no_leak [OF ref_ip.ip_env_axioms sample_ip_cache_ok(3) node sample_ip_cache_ok(4) _ _ run])
      (simp_all add: fresh_ip_cache_def cache_view_def no_leak_def)
  with run show ?thesis by blast
qed



text \<open>
  C12.  Clearing the cache makes every lookup miss, and loses the memory of what was stored: the
  nodes and key copies stay allocated, and they are all within reach only if there were none.
\<close>

theorem clear_ip_cache_leaks:
  assumes "ip_env D live H slots" "cache_ok slots live key (w, c)" "cache_hash c = Some h"
  shows "\<exists>c'. clear_ip_cache H c = Inr c' \<and> cache_ok slots live key (w, c') \<and>
     cache_view slots c' = Map.empty \<and> cache_nodes c' = cache_nodes c \<and> cache_keys c' = cache_keys c \<and>
     (no_leak slots key c' \<longleftrightarrow> cache_nodes c = Map.empty \<and> cache_keys c = Map.empty)"
  using cache_env.clear_leaks [OF ip_env.ip_common [OF assms(1)] assms(2,3)]
  unfolding ip_cache_common .

theorem clear_ip_cache_leaks_witness:
  "\<exists>c'. clear_ip_cache (ref_hash CACHE_SIZE :: (ref_world, _, _) hash_api) sample_ip_cache = Inr c' \<and>
     \<not> no_leak (ref_slots CACHE_SIZE) key c'"
  using clear_ip_cache_leaks [OF ref_ip.ip_env_axioms sample_ip_cache_ok(1), of "[(sample_ip, 5)]"]
  by (auto simp: sample_ip_cache_def fun_eq_iff split: if_splits)

text \<open>
  Storing a node that was read from the database keeps its time stamp and its time to live.
  On failure a negative number is returned, the view and the key copies are as before, and the
  node is left to the caller.
\<close>

theorem insert_loaded_node_ip_stores:
  assumes "ip_env D live H slots" "cache_ok slots live key (w, c)"
    and "cache_nodes c a = Some n" "unused slots c a"
  shows "\<exists>r w' c'. insert_loaded_node_ip D H k a (w, c) = Inr (r, w', c') \<and> cache_ok slots live key (w', c') \<and>
     (if r = 0 then \<exists>ka. cache_view slots c' = (cache_view slots c)(k \<mapsto> n\<lparr>key := Some ka\<rparr>)
      else r < 0 \<and> cache_view slots c' = cache_view slots c \<and> cache_keys c' = cache_keys c \<and>
        cache_nodes c' a \<noteq> None \<and> unused slots c' a)"
  using cache_env.insert_stores [OF ip_env.ip_common [OF assms(1)] assms(2-4)]
  unfolding ip_cache_common .

theorem insert_loaded_node_ip_stores_witness:
  "\<exists>r w' c'. insert_loaded_node_ip ref_dpdk (ref_hash CACHE_SIZE) sample_ip 5 (sample_world, fresh_ip_cache) =
     Inr (r, w', c') \<and> cache_ok (ref_slots CACHE_SIZE) ref_live key (w', c')"
  using insert_loaded_node_ip_stores [OF ref_ip.ip_env_axioms sample_ip_cache_ok(3) _ sample_ip_cache_ok(4),
      of sample_ip_node sample_ip]
  by (auto simp: fresh_ip_cache_def)

end
