(* ===== verification/Domain_Cache.thy ===== *)
theory Domain_Cache
  imports Cache
begin

text \<open>
  The domain cache, \<open>src/worker/src/dpdk_filter/domain_cache.c\<close>, as far as it works in memory.
  The table compares all \<open>DOMAIN_MAX_LEN\<close> bytes of a key, so a name given to the lookup stands
  for the whole array; an addition stores the C string of the name, padded with zero bytes.
\<close>

type_synonym ('h, 'db) dns_cache = "('h, 'db, node_cache_domain, byte list) cache"

abbreviation set_key_domain :: "addr \<Rightarrow> node_cache_domain \<Rightarrow> node_cache_domain" where
  "set_key_domain a n \<equiv> n\<lparr>key_domain := Some a\<rparr>"

section \<open>The operations\<close>

definition insert_loaded_node_domain ::
  "'w dpdk \<Rightarrow> ('w, 'h, byte list) hash_api \<Rightarrow> byte list \<Rightarrow> addr \<Rightarrow> 'w \<times> ('h, 'db) dns_cache \<Rightarrow>
   (int \<times> 'w \<times> ('h, 'db) dns_cache) res" where
  "insert_loaded_node_domain D H name node = (\<lambda>(w, c).
     case rte_malloc D w of
       (None, w) \<Rightarrow> Inr (- ENOMEM, w, c)
     | (Some key_copy, w) \<Rightarrow>
         rbind (strncpy_bytes name DOMAIN_MAX_LEN) (\<lambda>key_bytes.
         rbind (rset key_bytes (DOMAIN_MAX_LEN - 1) 0) (\<lambda>key_bytes.
         let c = c\<lparr>cache_keys := (cache_keys c)(key_copy \<mapsto> key_bytes)\<rparr> in
         rbind (deref (cache_nodes c) node) (\<lambda>n.
         let c = c\<lparr>cache_nodes := (cache_nodes c)(node \<mapsto> n\<lparr>key_domain := Some key_copy\<rparr>)\<rparr> in
         rbind (spin_lock c) (\<lambda>c.
         case rte_hash_add_key_data H (cache_hash c) key_bytes node of (ret, h) \<Rightarrow>
         let c = spin_unlock (c\<lparr>cache_hash := h\<rparr>) in
         if ret < 0 then
           rbind (free_key D (Some key_copy) (w, c)) (\<lambda>(w, c). Inr (ret, w, c))
         else Inr (0, w, c))))))"

definition lookup_dns_cache ::
  "'w dpdk \<Rightarrow> ('w, 'h, byte list) hash_api \<Rightarrow> byte list \<Rightarrow> addr option \<Rightarrow> 'w \<times> ('h, 'db) dns_cache \<Rightarrow>
   ((int \<times> addr option) \<times> 'w \<times> ('h, 'db) dns_cache) res" where
  "lookup_dns_cache D H k return_node = (\<lambda>(w, c).
     rbind (spin_lock c) (\<lambda>c.
     case rte_hash_lookup_data H (cache_hash c) k return_node of (ret, return_node) \<Rightarrow>
     if ret \<ge> 0 \<and> return_node \<noteq> None then
       (case rte_get_timer_cycles D w of (now, w) \<Rightarrow>
        rbind (deref (cache_nodes c) (the return_node)) (\<lambda>node.
        rbind (u64_div (now - timestamp node) (rte_get_timer_hz D)) (\<lambda>age_seconds.
        if age_seconds \<ge> ucast (ttl_seconds node) then
          (case rte_hash_del_key H (cache_hash c) k of (ret_del, h) \<Rightarrow>
           let c = c\<lparr>cache_hash := h\<rparr> in
           if ret_del < 0 then Inr ((- ENOENT, return_node), w, spin_unlock c)
           else
             rbind (free_key D (key_domain node) (w, c)) (\<lambda>wc.
             rbind (free_node D (the return_node) wc) (\<lambda>(w, c).
             Inr ((- ENOENT, None), w, spin_unlock c))))
        else Inr ((ret, return_node), w, spin_unlock c))))
     else Inr ((ret, return_node), w, spin_unlock c)))"

definition add_to_dns_cache ::
  "'w dpdk \<Rightarrow> ('w, 'h, byte list) hash_api \<Rightarrow> byte list \<Rightarrow> addr \<Rightarrow> int \<Rightarrow> 'w \<times> ('h, 'db) dns_cache \<Rightarrow>
   ('w \<times> ('h, 'db) dns_cache) res" where
  "add_to_dns_cache D H name node ttl = (\<lambda>(w, c).
     case rte_malloc D w of
       (None, w) \<Rightarrow> free_node D node (w, c)
     | (Some key_copy, w) \<Rightarrow>
         rbind (strncpy_bytes name DOMAIN_MAX_LEN) (\<lambda>key_bytes.
         rbind (rset key_bytes (DOMAIN_MAX_LEN - 1) 0) (\<lambda>key_bytes.
         let c = c\<lparr>cache_keys := (cache_keys c)(key_copy \<mapsto> key_bytes)\<rparr> in
         case rte_get_timer_cycles D w of (now, w) \<Rightarrow>
         rbind (deref (cache_nodes c) node) (\<lambda>n.
         let c = c\<lparr>cache_nodes := (cache_nodes c)(node \<mapsto>
               n\<lparr>timestamp := now, ttl_seconds := word_of_int ttl, key_domain := Some key_copy\<rparr>)\<rparr> in
         rbind (spin_lock c) (\<lambda>c.
         case rte_hash_add_key_data H (cache_hash c) key_bytes node of (ret, h) \<Rightarrow>
         let c = spin_unlock (c\<lparr>cache_hash := h\<rparr>) in
         if ret \<noteq> 0 then
           rbind (free_key D (Some key_copy) (w, c)) (\<lambda>wc. free_node D node wc)
         else Inr (w, c))))))"

definition close_sqlite_cache ::
  "('w, 'db, 'st) sqlite_api \<Rightarrow> 'w \<times> ('h, 'db) dns_cache \<Rightarrow> 'w \<times> ('h, 'db) dns_cache" where
  "close_sqlite_cache S = (\<lambda>(w, c).
     case cache_table c of
       None \<Rightarrow> (w, c\<lparr>cache_table := None\<rparr>)
     | Some db \<Rightarrow> (snd (sqlite3_close S db w), c\<lparr>cache_table := None\<rparr>))"

definition free_dns_cache ::
  "'w dpdk \<Rightarrow> ('w, 'h, byte list) hash_api \<Rightarrow> ('w, 'db, 'st) sqlite_api \<Rightarrow> 'w \<times> ('h, 'db) dns_cache \<Rightarrow>
   ('w \<times> ('h, 'db) dns_cache) res option" where
  "free_dns_cache D H S = (\<lambda>(w, c).
     if cache_hash c = None then Some (Inr (w, c))
     else (case spin_lock c of
       Inl e \<Rightarrow> Some (Inl e)
     | Inr c \<Rightarrow>
       (case hash_walk H (cache_hash c)
           (\<lambda>(k, data) (w, c). case data of
              None \<Rightarrow> Inr (w, c)
            | Some a \<Rightarrow>
                rbind (deref (cache_nodes c) a) (\<lambda>node.
                rbind (free_key D (key_domain node) (w, c)) (free_node D a))) 0 (w, c) of
          None \<Rightarrow> None
        | Some (Inl e) \<Rightarrow> Some (Inl e)
        | Some (Inr (w, c)) \<Rightarrow>
            (case close_sqlite_cache S (rte_hash_free H (cache_hash c) w, c) of (w, c) \<Rightarrow>
             let c = spin_unlock (c\<lparr>cache_hash := None\<rparr>) in
             (case rte_timer_stop D w of (ret, w) \<Rightarrow>
              Some (Inr (w, if ret = 0 then c\<lparr>save_timer := None\<rparr> else c)))))))"

definition clear_dns_cache ::
  "('w, 'h, byte list) hash_api \<Rightarrow> ('h, 'db) dns_cache \<Rightarrow> ('h, 'db) dns_cache res" where
  "clear_dns_cache H c =
     (if cache_hash c = None then Inr c
      else rbind (spin_lock c) (\<lambda>c.
        Inr (spin_unlock (c\<lparr>cache_hash := rte_hash_reset H (cache_hash c)\<rparr>))))"

section \<open>They are the common operations\<close>

text \<open>
  The key bytes that an addition stores: the string of the name, cut after 259 bytes and filled
  up with zero bytes.  A name is canonical when its array already has these bytes.
\<close>

definition key_bytes_of :: "byte list \<Rightarrow> byte list res" where
  "key_bytes_of name =
     rbind (strncpy_bytes name DOMAIN_MAX_LEN) (\<lambda>key_bytes. rset key_bytes (DOMAIN_MAX_LEN - 1) 0)"

definition canonical :: "byte list \<Rightarrow> bool" where
  "canonical name \<longleftrightarrow> nul_term name \<and> name = pad_str DOMAIN_MAX_LEN (cstr name)"

lemma pad_str_update:
  assumes "0 < m"
  shows "(take m s @ replicate (m - length s) 0)[m - 1 := 0] = pad_str m s"
  using assms by (intro nth_equalityI) (auto simp: pad_str_def nth_append nth_list_update min_def)

lemma key_bytes_of_term: "nul_term name \<Longrightarrow> key_bytes_of name = Inr (pad_str DOMAIN_MAX_LEN (cstr name))"
  using pad_str_update [OF sizes_pos(6), of "cstr name"] sizes_pos(6)
  by (simp add: key_bytes_of_def strncpy_bytes_term rset_def min_def)

lemma key_bytes_of_canonical: "canonical name \<Longrightarrow> key_bytes_of name = Inr name"
  by (simp add: canonical_def key_bytes_of_term)

lemma lookup_dns_cache_common: "lookup_dns_cache = g_lookup key_domain"
  by (simp add: lookup_dns_cache_def g_lookup_def fun_eq_iff)

lemma add_to_dns_cache_common:
  "add_to_dns_cache D H name = g_add set_key_domain D H (key_bytes_of name)"
  by (intro ext) (simp only: add_to_dns_cache_def g_add_def key_bytes_of_def rbind_assoc)

lemma free_dns_cache_common: "free_dns_cache = g_free key_domain"
  by (intro ext) (simp only: free_dns_cache_def g_free_def g_free_entry_def g_close_def close_sqlite_cache_def)

lemma clear_dns_cache_common: "clear_dns_cache = g_clear"
  by (simp add: clear_dns_cache_def g_clear_def fun_eq_iff)

lemma canonical_pad: "nul_term name \<Longrightarrow> canonical (pad_str DOMAIN_MAX_LEN (cstr name))"
  by (simp add: canonical_def cstr_no_nul) (simp add: pad_str_def min_def)

lemma insert_loaded_node_domain_common:
  "insert_loaded_node_domain D H name = g_insert set_key_domain D H (key_bytes_of name)"
  by (intro ext) (simp only: insert_loaded_node_domain_def g_insert_def key_bytes_of_def rbind_assoc)

lemmas dns_cache_common = insert_loaded_node_domain_common lookup_dns_cache_common add_to_dns_cache_common free_dns_cache_common
  clear_dns_cache_common

locale dns_env = dpdk_mem D live + rte_hash H slots
  for D :: "'w dpdk" and live and H :: "('w, 'h, byte list) hash_api" and slots

sublocale dns_env \<subseteq> cache_env D live H slots key_domain set_key_domain
  by unfold_locales (simp_all add: node_cache.truncate_def)

context dns_env
begin

lemma add_canonical:
  assumes "cache_ok slots live key_domain (w, c)" "cache_nodes c a = Some n" "unused slots c a"
    and "canonical k"
  shows "\<exists>w' c'. g_add set_key_domain D H (key_bytes_of k) a ttl (w, c) = Inr (w', c') \<and>
        cache_ok slots live key_domain (w', c') \<and> frame live (w, c) (w', c') \<and>
        (no_leak slots key_domain (c\<lparr>cache_nodes := (cache_nodes c)(a := None)\<rparr>) \<longrightarrow>
          cache_view slots c k = None \<longrightarrow> no_leak slots key_domain c') \<and>
        (cache_view slots c' = cache_view slots c \<and> cache_nodes c' = (cache_nodes c)(a := None) \<or>
         (\<exists>ka. cache_hash c' \<noteq> None \<and> cache_view slots c' = (cache_view slots c)(k \<mapsto>
           set_key_domain ka (n\<lparr>timestamp := stamp_of w, ttl_seconds := word_of_int ttl\<rparr>))))"
  using add_contract [OF assms(1-3)] key_bytes_of_canonical [OF assms(4)] by simp

end

sublocale dns_env \<subseteq> dns: ttl_cache "lookup_dns_cache D H" "add_to_dns_cache D H" canonical
    slots live key_domain set_key_domain "\<lambda>w. fst (rte_get_timer_cycles D w)"
    "\<lambda>w. fst (rte_get_timer_cycles D (snd (rte_malloc D w)))" "rte_get_timer_hz D"
  unfolding dns_cache_common
  by (unfold_locales; (rule setk_base lookup_contract add_canonical; assumption)?)

context dns_env
begin

lemmas dns_contract = dns.ttl_cache_axioms

lemmas dns_common = cache_env_axioms

end

interpretation ref_dns: dns_env ref_dpdk ref_live "ref_hash CACHE_SIZE" "ref_slots CACHE_SIZE"
  by unfold_locales

section \<open>A concrete cache\<close>

definition sample_name :: "byte list" where
  "sample_name = pad_str DOMAIN_MAX_LEN [97, 46, 98]"

definition sample_domain_node :: node_cache_domain where
  "sample_domain_node = zero_node_domain\<lparr>trust_lvl := 3, solution_is_send := True\<rparr>"

definition sample_dns_cache :: "((byte list \<times> addr) list, unit) dns_cache" where
  "sample_dns_cache =
     \<lparr>cache_hash = Some [(sample_name, 5)], cache_table = None, cache_spinlock = False,
      cache_nodes = [5 \<mapsto> sample_domain_node\<lparr>timestamp := 90, ttl_seconds := 60, key_domain := Some 6\<rparr>],
      cache_keys = [6 \<mapsto> sample_name], save_timer = None\<rparr>"

definition fresh_dns_cache :: "((byte list \<times> addr) list, unit) dns_cache" where
  "fresh_dns_cache =
     \<lparr>cache_hash = Some [], cache_table = None, cache_spinlock = False,
      cache_nodes = [5 \<mapsto> sample_domain_node], cache_keys = Map.empty, save_timer = None\<rparr>"

lemma sample_dns_cache_ok:
  "cache_ok (ref_slots CACHE_SIZE) ref_live key_domain (sample_world, sample_dns_cache)"
  "no_leak (ref_slots CACHE_SIZE) key_domain sample_dns_cache"
  "cache_ok (ref_slots CACHE_SIZE) ref_live key_domain (sample_world, fresh_dns_cache)"
  "unused (ref_slots CACHE_SIZE) fresh_dns_cache 5"
  by (auto simp: cache_ok_def table_ok_def no_leak_def unused_def sample_dns_cache_def fresh_dns_cache_def
      sample_world_def ref_live_def inj_on_def ran_def split: if_splits)

section \<open>Properties of the domain cache\<close>

text \<open>
  C14.  Looking up a name in a well-formed cache that has its table never faults and is the
  lookup of a map whose entries expire, on the whole key array: the node returned is the one
  stored under these bytes and younger than its time to live; an older entry is removed, its
  node and key copy freed, and \<open>-ENOENT\<close> returned.
\<close>

theorem lookup_dns_cache_refines:
  assumes "dns_env D live H slots" "cache_ok slots live key_domain (w, c)" "cache_hash c = Some h"
  shows "\<exists>r rn w' c'. lookup_dns_cache D H k None (w, c) = Inr ((r, rn), w', c') \<and>
     cache_ok slots live key_domain (w', c') \<and>
     (no_leak slots key_domain c \<longrightarrow> no_leak slots key_domain c') \<and>
     ttl_lookup (rte_get_timer_hz D) (fst (rte_get_timer_cycles D w)) k (cache_view slots c) =
       (map_option (the \<circ> cache_nodes c') rn, cache_view slots c') \<and>
     (case rn of None \<Rightarrow> r = - ENOENT | Some a \<Rightarrow> r \<ge> 0 \<and> cache_nodes c' a \<noteq> None)"
  using ttl_cache.lookup_law [OF dns_env.dns_contract [OF assms(1)] assms(2), of k] assms(3) by auto

theorem lookup_dns_cache_refines_witness:
  "\<exists>r rn w' c'. lookup_dns_cache ref_dpdk (ref_hash CACHE_SIZE) sample_name None (sample_world, sample_dns_cache) =
       Inr ((r, rn), w', c') \<and>
     (case rn of None \<Rightarrow> r = - ENOENT | Some a \<Rightarrow> r \<ge> 0 \<and> cache_nodes c' a \<noteq> None)"
  using lookup_dns_cache_refines [OF ref_dns.dns_env_axioms sample_dns_cache_ok(1), of "[(sample_name, 5)]" sample_name]
  by (auto simp: sample_dns_cache_def)

text \<open>
  C15.  Adding a node under a terminated name stores it under the name's C string, cut after 259
  bytes and padded with zero bytes.  Either the addition fails, and then the node is freed and
  the cache as it was; or, at every later moment, a lookup with the padded array returns the
  node's categories, trust level and decision until the given number of seconds has passed since
  the time stamp, and \<open>-ENOENT\<close> from then on.  No other array is affected, also not one
  that holds the same string followed by other bytes.
\<close>

theorem add_to_dns_cache_then_lookup:
  assumes "dns_env D live H slots" "cache_ok slots live key_domain (w, c)"
    and "cache_nodes c a = Some n" "unused slots c a" "nul_term name"
  shows "\<exists>w' c'. add_to_dns_cache D H name a ttl (w, c) = Inr (w', c') \<and>
     cache_ok slots live key_domain (w', c') \<and>
     (\<forall>k. k \<noteq> pad_str DOMAIN_MAX_LEN (cstr name) \<longrightarrow> cache_view slots c' k = cache_view slots c k) \<and>
     (cache_view slots c' = cache_view slots c \<and> cache_nodes c' = (cache_nodes c)(a := None) \<or>
      (\<forall>w2. live w2 = live w' \<longrightarrow>
        (\<exists>r rn w3 c3. lookup_dns_cache D H (pad_str DOMAIN_MAX_LEN (cstr name)) None (w2, c') =
            Inr ((r, rn), w3, c3) \<and>
          (if (fst (rte_get_timer_cycles D w2) - fst (rte_get_timer_cycles D (snd (rte_malloc D w))))
                div rte_get_timer_hz D < ucast (word_of_int ttl :: 32 word)
           then r \<ge> 0 \<and> (\<exists>a' n'. rn = Some a' \<and> cache_nodes c3 a' = Some n' \<and>
             categories n' = categories n \<and> trust_lvl n' = trust_lvl n \<and>
             solution_is_send n' = solution_is_send n)
           else r = - ENOENT \<and> rn = None \<and>
             cache_view slots c3 (pad_str DOMAIN_MAX_LEN (cstr name)) = None))))"
proof -
  let ?k = "pad_str DOMAIN_MAX_LEN (cstr name)"
  have same: "add_to_dns_cache D H name = add_to_dns_cache D H ?k"
    using key_bytes_of_term [OF assms(5)] key_bytes_of_canonical [OF canonical_pad [OF assms(5)]]
    by (simp add: add_to_dns_cache_common)
  note env = dns_env.dns_contract [OF assms(1)]
  note found = ttl_cache.add_then_lookup [OF env assms(2-4) canonical_pad [OF assms(5)], of ttl]
  note others = ttl_cache.add_others [OF env assms(2-4) canonical_pad [OF assms(5)], of ttl]
  show ?thesis unfolding same using found others by (elim exE conjE) (intro exI conjI allI impI; assumption?)
qed

theorem add_to_dns_cache_then_lookup_witness:
  "\<exists>w' c'. add_to_dns_cache ref_dpdk (ref_hash CACHE_SIZE) [97, 46, 98, 0] 5 60 (sample_world, fresh_dns_cache) =
       Inr (w', c') \<and> cache_ok (ref_slots CACHE_SIZE) ref_live key_domain (w', c')"
  using add_to_dns_cache_then_lookup [OF ref_dns.dns_env_axioms sample_dns_cache_ok(3) _ sample_dns_cache_ok(4),
      of sample_domain_node "[97, 46, 98, 0]" 60]
  by (auto simp: fresh_dns_cache_def)



end
