(* ===== verification/Inet.thy ===== *)
theory Inet
  imports Types
begin

text \<open>
  The text form of addresses, \<open>inet_ntop\<close> of the C library, as far as the filter uses it.  The
  IPv6 form follows the library: the first longest run of at least two zero groups is written
  \<open>::\<close>, and an IPv4-mapped or IPv4-compatible address ends in dotted decimal.
\<close>

abbreviation INET6_ADDRSTRLEN :: nat where "INET6_ADDRSTRLEN \<equiv> 46"

definition digit :: "nat \<Rightarrow> byte" where
  "digit d = (if d < 10 then of_nat (48 + d) else of_nat (87 + d))"

fun digits :: "nat \<Rightarrow> nat \<Rightarrow> byte list" where
  "digits b n = (if b \<le> 1 \<or> n < b then [digit n] else digits b (n div b) @ [digit (n mod b)])"

declare digits.simps [simp del]

fun dotted_decimal :: "byte list \<Rightarrow> byte list" where
  "dotted_decimal [] = []"
| "dotted_decimal [b] = digits 10 (unat b)"
| "dotted_decimal (b # bs) = digits 10 (unat b) @ of_char (CHR ''.'') # dotted_decimal bs"

definition inet_ntop4 :: "32 word \<Rightarrow> byte list" where
  "inet_ntop4 a = dotted_decimal (bytes32 a)"

fun groups :: "byte list \<Rightarrow> nat list" where
  "groups (x # y # bs) = (unat x * 256 + unat y) # groups bs"
| "groups _ = []"

definition zero_run :: "nat list \<Rightarrow> nat \<Rightarrow> nat" where
  "zero_run gs i = length (takeWhile (\<lambda>g. g = 0) (drop i gs))"

definition best_run :: "nat list \<Rightarrow> nat \<times> nat" where
  "best_run gs =
     foldl (\<lambda>(base, len) i. if zero_run gs i > len then (i, zero_run gs i) else (base, len))
       (0, 0) [0..<length gs]"

definition ntop6_group :: "byte list \<Rightarrow> nat list \<Rightarrow> nat \<Rightarrow> nat \<Rightarrow> nat \<Rightarrow> byte list" where
  "ntop6_group bs gs base len i =
     (if 2 \<le> len \<and> base \<le> i \<and> i < base + len then (if i = base then [of_char (CHR '':'')] else [])
      else (if i \<noteq> 0 then [of_char (CHR '':'')] else []) @ digits 16 (gs ! i))"

definition inet_ntop6 :: "byte list \<Rightarrow> byte list" where
  "inet_ntop6 bs =
     (let gs = groups bs; (base, len) = best_run gs in
      if base = 0 \<and> (len = 6 \<or> len = 5 \<and> gs ! 5 = 65535) then
        concat (map (ntop6_group bs gs base len) [0..<6]) @ of_char (CHR '':'') # dotted_decimal (drop 12 bs)
      else
        concat (map (ntop6_group bs gs base len) [0..<8]) @
        (if 2 \<le> len \<and> base + len = 8 then [of_char (CHR '':'')] else []))"

text \<open>The texts hold no zero byte: they are C strings in a zeroed buffer.\<close>

lemma digit_nz: "d < 16 \<Longrightarrow> digit d \<noteq> 0"
  by (auto simp: digit_def word_of_nat_eq_0_iff simp del: of_nat_add dest: dvd_imp_le)

lemma digits_nz: "1 < b \<Longrightarrow> b \<le> 16 \<Longrightarrow> 0 \<notin> set (digits b n)"
proof (induction b n rule: digits.induct)
  case (1 b n)
  have "n mod b < 16" using 1 mod_less_divisor [of b n] by linarith
  then have "digit (n mod b) \<noteq> 0" by (rule digit_nz)
  moreover have "digit n \<noteq> 0" if "n < b" using that 1 by (intro digit_nz) simp
  ultimately show ?case
    using 1 by (subst digits.simps) auto
qed

lemma dotted_decimal_nz: "0 \<notin> set (dotted_decimal bs)"
  by (induction bs rule: dotted_decimal.induct) (auto simp: digits_nz)

lemma ntop4_nz [simp]: "0 \<notin> set (inet_ntop4 a)"
  by (simp add: inet_ntop4_def dotted_decimal_nz)

lemma ntop6_nz [simp]: "0 \<notin> set (inet_ntop6 bs)"
  by (auto simp: inet_ntop6_def ntop6_group_def digits_nz dotted_decimal_nz Let_def split: prod.splits if_splits)

section \<open>Reading addresses\<close>

text \<open>
  \<open>inet_pton\<close> of the C library, on the bytes of a C string.  The IPv4 scanner keeps the finished
  octets, the octet being read and whether it has a digit; leading zeros are refused.
\<close>

definition dec_val :: "byte \<Rightarrow> nat option" where
  "dec_val ch = (let n = unat ch in if 48 \<le> n \<and> n \<le> 57 then Some (n - 48) else None)"

definition hex_val :: "byte \<Rightarrow> nat option" where
  "hex_val ch =
     (let n = unat ch in
      if 48 \<le> n \<and> n \<le> 57 then Some (n - 48)
      else if 97 \<le> n \<and> n \<le> 102 then Some (n - 87)
      else if 65 \<le> n \<and> n \<le> 70 then Some (n - 55) else None)"

fun pton4_loop :: "byte list \<Rightarrow> bool \<Rightarrow> nat \<Rightarrow> byte list \<Rightarrow> byte list option" where
  "pton4_loop [] saw_digit cur out =
     (if saw_digit \<and> length out = 3 then Some (out @ [of_nat cur]) else None)"
| "pton4_loop (ch # src) saw_digit cur out =
     (case dec_val ch of
        Some d \<Rightarrow>
          if saw_digit \<and> cur = 0 \<or> cur * 10 + d > 255 then None
          else pton4_loop src True (cur * 10 + d) out
      | None \<Rightarrow>
          if ch = of_char (CHR ''.'') \<and> saw_digit \<and> length out < 3
          then pton4_loop src False 0 (out @ [of_nat cur]) else None)"

definition inet_pton4 :: "byte list \<Rightarrow> byte list option" where
  "inet_pton4 src = pton4_loop src False 0 []"

text \<open>
  The IPv6 scanner keeps the start of the current token, the value and number of its hexadecimal
  digits, the bytes written and the place of \<open>::\<close>.
\<close>

abbreviation colon :: byte where "colon \<equiv> of_char (CHR '':'')"

abbreviation group_bytes :: "nat \<Rightarrow> byte list" where
  "group_bytes v \<equiv> [of_nat (v div 256), of_nat (v mod 256)]"

fun pton6_loop ::
  "byte list \<Rightarrow> byte list \<Rightarrow> nat \<Rightarrow> nat \<Rightarrow> byte list \<Rightarrow> nat option \<Rightarrow> (nat \<times> nat \<times> byte list \<times> nat option) option" where
  "pton6_loop curtok [] val xdigits out colonp = Some (val, xdigits, out, colonp)"
| "pton6_loop curtok (ch # src) val xdigits out colonp =
     (case hex_val ch of
        Some d \<Rightarrow> if xdigits = 4 then None else pton6_loop curtok src (val * 16 + d) (xdigits + 1) out colonp
      | None \<Rightarrow>
          if ch = colon then
            if xdigits = 0 then
              if colonp \<noteq> None then None else pton6_loop src src val xdigits out (Some (length out))
            else if src = [] \<or> length out + 2 > 16 then None
            else pton6_loop src src 0 0 (out @ group_bytes val) colonp
          else if ch = of_char (CHR ''.'') \<and> length out + 4 \<le> 16 then
            (case inet_pton4 curtok of
               Some bs \<Rightarrow> Some (val, 0, out @ bs, colonp)
             | None \<Rightarrow> None)
          else None)"

definition pton6_finish :: "nat \<times> nat \<times> byte list \<times> nat option \<Rightarrow> byte list option" where
  "pton6_finish r =
     (case r of (val, xdigits, out, colonp) \<Rightarrow>
      if xdigits > 0 \<and> length out + 2 > 16 then None
      else
        let out = (if xdigits > 0 then out @ group_bytes val else out) in
        case colonp of
          None \<Rightarrow> if length out = 16 then Some out else None
        | Some c \<Rightarrow>
            if length out = 16 then None
            else Some (take c out @ replicate (16 - length out) 0 @ drop c out))"

definition inet_pton6 :: "byte list \<Rightarrow> byte list option" where
  "inet_pton6 src =
     (case src of
        [] \<Rightarrow> None
      | ch # rest \<Rightarrow>
          let src' = (if ch = colon then rest else src) in
          if ch = colon \<and> (rest = [] \<or> hd rest \<noteq> colon) then None
          else Option.bind (pton6_loop src' src' 0 0 [] None) pton6_finish)"

section \<open>Reading what was printed: IPv4\<close>

lemma unat_digit: "d < 16 \<Longrightarrow> unat (digit d) = (if d < 10 then 48 + d else 87 + d)"
  by (auto simp: digit_def unat_of_nat take_bit_nat_eq_self simp del: of_nat_add)

lemma dec_val_digit [simp]: "d < 10 \<Longrightarrow> dec_val (digit d) = Some d"
  by (simp add: dec_val_def unat_digit Let_def)

lemma hex_val_digit [simp]: "d < 16 \<Longrightarrow> hex_val (digit d) = Some d"
  by (simp add: hex_val_def unat_digit Let_def)

lemma val_punct [simp]:
  "dec_val 46 = None" "dec_val 58 = None" "hex_val 46 = None" "hex_val 58 = None"
  by (simp_all add: dec_val_def hex_val_def Let_def)

lemma digits_small: "n < b \<Longrightarrow> digits b n = [digit n]"
  by (simp add: digits.simps)

lemma digits_big: "1 < b \<Longrightarrow> b \<le> n \<Longrightarrow> digits b n = digits b (n div b) @ [digit (n mod b)]"
  by (subst digits.simps) auto

lemma pton4_digits:
  assumes "n < 256"
  shows "pton4_loop (digits 10 n @ rest) False 0 out = pton4_loop rest True n out"
proof -
  have m: "n mod 10 < 10" "n div 10 mod 10 < 10" by simp_all
  consider "n < 10" | "10 \<le> n" "n < 100" | "100 \<le> n" by linarith
  then show ?thesis
  proof cases
    case 2
    then have "digits 10 n = [digit (n div 10), digit (n mod 10)]"
      by (simp add: digits_big digits_small)
    moreover have "0 < n div 10" "n div 10 \<le> 255" using 2 assms by auto
    ultimately show ?thesis using 2 m(1) by auto
  next
    case 3
    then have "digits 10 n = [digit (n div 10 div 10), digit (n div 10 mod 10), digit (n mod 10)]"
      using assms by (simp add: digits_big digits_small)
    with 3 m assms show ?thesis by (simp add: algebra_simps) linarith
  qed (simp add: digits_small)
qed

lemma pton4_octet:
  "length out < 3 \<Longrightarrow>
   pton4_loop (digits 10 (unat b) @ 46 # rest) False 0 out =
   pton4_loop rest False 0 (out @ [b])"
  using unsigned_less [of b, where ?'a = nat] by (simp add: pton4_digits)

lemma pton4_dotted:
  assumes "length bs = 4"
  shows "inet_pton4 (dotted_decimal bs) = Some bs"
proof -
  obtain a b c d where bs: "bs = [a, b, c, d]"
    using assms by (auto simp: eval_nat_numeral length_Suc_conv)
  show ?thesis
    using pton4_digits [of "unat d" "[]" "[a, b, c]"] unsigned_less [of d, where ?'a = nat]
    by (simp add: bs inet_pton4_def pton4_octet)
qed

lemma pton4_ntop4: "inet_pton4 (inet_ntop4 a) = Some (bytes32 a)"
  by (simp add: inet_ntop4_def pton4_dotted)

section \<open>Reading what was printed: IPv6\<close>

text \<open>The text as a list of groups, each with the colon before it.\<close>

definition colons :: "nat list \<Rightarrow> byte list" where
  "colons gs = concat (map (\<lambda>g. colon # digits 16 g) gs)"

abbreviation bytes_of :: "nat list \<Rightarrow> byte list" where
  "bytes_of gs \<equiv> concat (map group_bytes gs)"

lemma bytes_of_length: "length (bytes_of gs) = 2 * length gs"
  by (induction gs) auto

lemma bytes_of_last: "gs \<noteq> [] \<Longrightarrow> bytes_of gs = bytes_of (butlast gs) @ group_bytes (last gs)"
  by (cases gs rule: rev_cases) simp_all

lemma bytes_of_zeros: "bytes_of (replicate n 0) = replicate (2 * n) 0"
  by (induction n) simp_all

lemma bytes_of_groups: "even (length bs) \<Longrightarrow> bytes_of (groups bs) = bs"
proof (induction bs rule: groups.induct)
  case (1 x y bs)
  have "unat x < 256" "unat y < 256"
    using unsigned_less [of x, where ?'a = nat] unsigned_less [of y, where ?'a = nat] by simp_all
  with 1 show ?case by simp
qed auto

lemma groups_less: "g \<in> set (groups bs) \<Longrightarrow> g < 65536"
proof (induction bs rule: groups.induct)
  case (1 x y bs)
  have "unat x < 256" "unat y < 256"
    using unsigned_less [of x, where ?'a = nat] unsigned_less [of y, where ?'a = nat] by simp_all
  with 1 show ?case by auto
qed auto

lemma length_groups: "length (groups bs) = length bs div 2"
  by (induction bs rule: groups.induct) auto

lemma digits_length: "n < 16 ^ Suc k \<Longrightarrow> length (digits 16 n) \<le> Suc k"
proof (induction k arbitrary: n)
  case (Suc k)
  show ?case
  proof (cases "n < 16")
    case False
    moreover have "n div 16 < 16 ^ Suc k" using Suc.prems by (simp add: less_mult_imp_div_less)
    ultimately show ?thesis using Suc.IH [of "n div 16"] by (simp add: digits_big)
  qed (simp add: digits_small)
qed (simp add: digits_small)

lemma digits_pos [simp]: "0 < length (digits b n)"
  by (subst digits.simps) auto

lemma digits_nonempty [simp]: "digits b n \<noteq> []"
  using digits_pos [of b n] by (simp del: digits_pos)

lemma pton6_digits:
  assumes "x + length (digits 16 n) \<le> 4"
  shows "pton6_loop cur (digits 16 n @ rest) v x out col =
    pton6_loop cur rest (v * 16 ^ length (digits 16 n) + n) (x + length (digits 16 n)) out col"
  using assms
proof (induction n arbitrary: rest rule: less_induct)
  case (less n)
  show ?case
  proof (cases "n < 16")
    case True
    with less.prems show ?thesis by (simp add: digits_small)
  next
    case False
    then have d: "digits 16 n = digits 16 (n div 16) @ [digit (n mod 16)]" by (simp add: digits_big)
    have v: "n + v * k * 16 = v * (16 * k) + n" for k :: nat
      by simp
    show ?thesis
      using less.IH [of "n div 16"] less.prems False d by (simp add: v)
  qed
qed

lemma pton6_group:
  assumes "g < 65536"
  shows "pton6_loop cur (digits 16 g @ rest) 0 0 out col = pton6_loop cur rest g (length (digits 16 g)) out col"
  using pton6_digits [of 0 g] digits_length [of g 3] assms by simp

lemma pton6_colon:
  assumes "0 < x" "src \<noteq> []" "length out \<le> 14"
  shows "pton6_loop cur (58 # src) g x out col = pton6_loop src src 0 0 (out @ group_bytes g) col"
  using assms by simp

text \<open>A list of groups after a group, up to whatever follows.\<close>

lemma pton6_colons:
  assumes "0 < x" "\<forall>h \<in> set gs. h < 65536" "length out + 2 * length gs \<le> 16"
  shows "\<exists>cur' x'. pton6_loop cur (colons gs @ rest) g x out col =
      pton6_loop cur' rest (last (g # gs)) x' (out @ bytes_of (butlast (g # gs))) col \<and> 0 < x' \<and>
      (gs \<noteq> [] \<longrightarrow> cur' = digits 16 (last gs) @ rest)"
  using assms
proof (induction gs arbitrary: cur g x out)
  case (Cons h gs)
  have nonempty: "digits 16 h @ colons gs @ rest \<noteq> []"
    by simp
  have "pton6_loop cur (colons (h # gs) @ rest) g x out col =
      pton6_loop (digits 16 h @ colons gs @ rest) (colons gs @ rest) h (length (digits 16 h)) (out @ group_bytes g) col"
    using Cons.prems pton6_colon [OF Cons.prems(1) nonempty, of out cur g col] pton6_group [of h]
    by (simp add: colons_def)
  moreover have "\<exists>cur' x'. pton6_loop (digits 16 h @ colons gs @ rest) (colons gs @ rest) h (length (digits 16 h))
        (out @ group_bytes g) col =
      pton6_loop cur' rest (last (h # gs)) x' ((out @ group_bytes g) @ bytes_of (butlast (h # gs))) col \<and> 0 < x' \<and>
      (gs \<noteq> [] \<longrightarrow> cur' = digits 16 (last gs) @ rest)"
    using Cons.prems by (intro Cons.IH) auto
  ultimately show ?case
    by (cases gs) (auto simp: colons_def)
qed (auto simp: colons_def)

text \<open>The run that is left out consists of zero groups.\<close>

lemma zero_run_zero: "i < zero_run gs b \<Longrightarrow> gs ! (b + i) = 0"
  using set_takeWhileD [of _ "\<lambda>g. g = 0" "drop b gs"] nth_mem [of i "takeWhile (\<lambda>g. g = 0) (drop b gs)"]
    takeWhile_nth [of i "\<lambda>g. g = 0" "drop b gs"] length_takeWhile_le [of "\<lambda>g. g = 0" "drop b gs"]
  by (auto simp: zero_run_def)

lemma zero_run_le: "zero_run gs b \<le> length gs - b"
  using length_takeWhile_le [of "\<lambda>g. g = 0" "drop b gs"] by (simp add: zero_run_def)

lemma best_run_is_run: "best_run gs = (b, n) \<Longrightarrow> n = 0 \<or> n = zero_run gs b"
proof -
  let ?step = "\<lambda>(base, len) i. if zero_run gs i > len then (i, zero_run gs i) else (base, len)"
  have "snd (foldl ?step a is) = 0 \<or> snd (foldl ?step a is) = zero_run gs (fst (foldl ?step a is))"
    if "snd a = 0 \<or> snd a = zero_run gs (fst a)" for a "is"
    using that by (induction "is" arbitrary: a) (auto split: prod.splits)
  from this [of "(0, 0)" "[0..<length gs]"] show "best_run gs = (b, n) \<Longrightarrow> n = 0 \<or> n = zero_run gs b"
    by (simp add: best_run_def)
qed

lemma best_run_zeros:
  assumes "best_run gs = (b, n)" "2 \<le> n"
  shows "b + n \<le> length gs" "gs = take b gs @ replicate n 0 @ drop (b + n) gs"
proof -
  have n: "n = zero_run gs b" using best_run_is_run [OF assms(1)] assms(2) by simp
  then show le: "b + n \<le> length gs" using zero_run_le [of gs b] assms(2) by linarith
  show "gs = take b gs @ replicate n 0 @ drop (b + n) gs"
  proof (rule nth_equalityI)
    fix i assume "i < length gs"
    with le zero_run_zero [of "i - b" gs b] n show "gs ! i = (take b gs @ replicate n 0 @ drop (b + n) gs) ! i"
      by (auto simp: nth_append)
  qed (use le in simp)
qed

text \<open>The printed text: groups before the run, \<open>::\<close>, and groups after it.\<close>

definition head_text :: "nat list \<Rightarrow> byte list" where
  "head_text gs = (case gs of [] \<Rightarrow> [] | g # gs \<Rightarrow> digits 16 g @ colons gs)"

lemma group_text_out:
  assumes "\<forall>i \<in> {a..<b}. 0 < i \<and> \<not> (2 \<le> n \<and> base \<le> i \<and> i < base + n)"
  shows "concat (map (ntop6_group bs gs base n) [a..<b]) = colons (map ((!) gs) [a..<b])"
proof -
  have "map (ntop6_group bs gs base n) [a..<b] = map (\<lambda>i. colon # digits 16 (gs ! i)) [a..<b]"
    using assms by (intro map_cong) (auto simp: ntop6_group_def)
  then show ?thesis unfolding colons_def by (simp only: map_map comp_def)
qed

lemma group_text_run:
  assumes "2 \<le> n"
  shows "concat (map (ntop6_group bs gs base n) [base..<base + n]) = [colon]"
proof -
  have "[base..<base + n] = base # [Suc base..<base + n]" using assms by (simp add: upt_conv_Cons)
  moreover have "concat (map (ntop6_group bs gs base n) [Suc base..<base + n]) = []"
    using assms by (auto simp: ntop6_group_def)
  ultimately show ?thesis using assms by (simp add: ntop6_group_def)
qed

lemma group_text_head:
  assumes "0 < b" "\<forall>i < b. \<not> (2 \<le> n \<and> base \<le> i \<and> i < base + n)"
  shows "concat (map (ntop6_group bs gs base n) [0..<b]) = head_text (map ((!) gs) [0..<b])"
proof -
  have "[0..<b] = 0 # [1..<b]" using assms(1) by (simp add: upt_conv_Cons)
  moreover have "concat (map (ntop6_group bs gs base n) [1..<b]) = colons (map ((!) gs) [1..<b])"
    using assms(2) by (intro group_text_out) auto
  moreover have "ntop6_group bs gs base n 0 = digits 16 (gs ! 0)"
    using assms by (auto simp: ntop6_group_def)
  ultimately show ?thesis by (simp add: head_text_def)
qed

lemma slice_upt: "b \<le> length gs \<Longrightarrow> map ((!) gs) [a..<b] = drop a (take b gs)"
  by (auto intro: nth_equalityI)

lemma group_text_split:
  assumes n: "2 \<le> n" and m: "base + n \<le> m" "m \<le> length gs"
  shows "concat (map (ntop6_group bs gs base n) [0..<m]) =
    head_text (take base gs) @ colon # colons (drop (base + n) (take m gs))"
proof -
  have "[0..<m] = [0..<base] @ [base..<base + n] @ [base + n..<m]"
    using m(1) upt_add_eq_append [of 0 base "m - base"] upt_add_eq_append [of base "base + n" "m - (base + n)"]
    by simp
  moreover have "concat (map (ntop6_group bs gs base n) [0..<base]) = head_text (take base gs)"
    using group_text_head [of base n base bs gs] m slice_upt [of base gs 0]
    by (cases "base = 0") (auto simp: head_text_def)
  moreover have "concat (map (ntop6_group bs gs base n) [base + n..<m]) = colons (drop (base + n) (take m gs))"
    using group_text_out [of "base + n" m n base bs gs] slice_upt [OF m(2)] n by auto
  ultimately show ?thesis using group_text_run [OF n] by simp
qed

text \<open>Reading the groups before \<open>::\<close>, and the groups after it.\<close>

lemma pton6_head:
  assumes "\<forall>h \<in> set gs. h < 65536" "2 * length gs \<le> 16" "gs \<noteq> []"
  shows "\<exists>cur' x'. pton6_loop cur (head_text gs @ rest) 0 0 [] None =
      pton6_loop cur' rest (last gs) x' (bytes_of (butlast gs)) None \<and> 0 < x'"
proof -
  obtain g hs where gs: "gs = g # hs" using assms(3) by (cases gs) auto
  then have "pton6_loop cur (head_text gs @ rest) 0 0 [] None =
      pton6_loop cur (colons hs @ rest) g (length (digits 16 g)) [] None"
    using assms(1) by (simp add: head_text_def pton6_group)
  moreover obtain cur' x' where "pton6_loop cur (colons hs @ rest) g (length (digits 16 g)) [] None =
      pton6_loop cur' rest (last gs) x' (bytes_of (butlast gs)) None" "0 < x'"
    using pton6_colons [of "length (digits 16 g)" hs "[]" cur rest g None] assms(1,2)
    unfolding gs append_Nil by auto
  ultimately show ?thesis by (intro exI [of _ cur'] exI [of _ x']) simp
qed

lemma pton6_tail:
  assumes "\<forall>h \<in> set gs. h < 65536" "length out + 2 * length gs < 16"
  shows "Option.bind (pton6_loop cur (head_text gs) 0 0 out (Some (length out))) pton6_finish =
    Some (out @ replicate (16 - length out - 2 * length gs) 0 @ bytes_of gs)"
proof (cases gs)
  case (Cons g hs)
  have "pton6_loop cur (head_text gs) 0 0 out (Some (length out)) =
      pton6_loop cur (colons hs @ []) g (length (digits 16 g)) out (Some (length out))"
    using assms(1) Cons pton6_group [of g cur "colons hs" out] by (simp add: head_text_def)
  moreover obtain cur' x' where "pton6_loop cur (colons hs @ []) g (length (digits 16 g)) out (Some (length out)) =
      pton6_loop cur' [] (last gs) x' (out @ bytes_of (butlast gs)) (Some (length out))" and x: "0 < x'"
    using pton6_colons [of "length (digits 16 g)" hs out cur "[]" g "Some (length out)"] assms
    unfolding Cons by auto
  ultimately have run: "pton6_loop cur (head_text gs) 0 0 out (Some (length out)) =
      Some (last gs, x', out @ bytes_of (butlast gs), Some (length out))"
    by simp
  have last: "bytes_of gs = bytes_of (butlast gs) @ group_bytes (last gs)"
    using Cons by (intro bytes_of_last) simp
  have len: "length (bytes_of (butlast gs)) + 2 = 2 * length gs"
    using Cons by (simp add: bytes_of_length)
  have "pton6_finish (last gs, x', out @ bytes_of (butlast gs), Some (length out)) =
      Some (take (length out) (out @ bytes_of gs) @ replicate (16 - length (out @ bytes_of gs)) 0 @
            drop (length out) (out @ bytes_of gs))"
    using x len assms(2) unfolding last by (simp add: pton6_finish_def Let_def)
  then show ?thesis
    using run by (simp add: bytes_of_length)
qed (use assms in \<open>simp add: head_text_def pton6_finish_def\<close>)

lemma digits_hex: "c \<in> set (digits 16 n) \<Longrightarrow> hex_val c \<noteq> None"
proof (induction n rule: less_induct)
  case (less n)
  show ?case
  proof (cases "n < 16")
    case False
    then consider "c = digit (n mod 16)" | "c \<in> set (digits 16 (n div 16))"
      using less.prems by (auto simp: digits_big)
    then show ?thesis
      using less.IH [of "n div 16"] False by cases simp_all
  qed (use less.prems in \<open>simp add: digits_small\<close>)
qed

lemma head_text_hd:
  assumes "gs \<noteq> []"
  obtains c rest where "head_text gs = c # rest" "c \<noteq> 58"
proof -
  obtain g hs c ds where "gs = g # hs" "digits 16 g = c # ds"
    using assms digits_nonempty [of 16 "hd gs"] by (cases gs; cases "digits 16 (hd gs)") auto
  moreover from this digits_hex [of c g] have "c \<noteq> 58" by auto
  ultimately show thesis using that by (simp add: head_text_def)
qed

lemma pton6_text_run:
  assumes small: "\<forall>h \<in> set (P @ S). h < 65536" and len: "2 * length P + 2 * length S < 16"
  shows "inet_pton6 (head_text P @ 58 # 58 # head_text S) =
    Some (bytes_of P @ replicate (16 - 2 * length P - 2 * length S) 0 @ bytes_of S)"
proof -
  have tail: "Option.bind (pton6_loop cur (head_text S) 0 0 (bytes_of P) (Some (length (bytes_of P)))) pton6_finish =
      Some (bytes_of P @ replicate (16 - 2 * length P - 2 * length S) 0 @ bytes_of S)" for cur
    using pton6_tail [of S "bytes_of P" cur] small len by (simp add: bytes_of_length)
  show ?thesis
  proof (cases "P = []")
    case True
    with tail show ?thesis by (simp add: inet_pton6_def head_text_def)
  next
    case False
    let ?text = "head_text P @ 58 # 58 # head_text S"
    obtain cur' x' where read: "pton6_loop ?text ?text 0 0 [] None =
        pton6_loop cur' (58 # 58 # head_text S) (last P) x' (bytes_of (butlast P)) None" and x: "0 < x'"
      using pton6_head [of P ?text "58 # 58 # head_text S"] small len False by auto
    have "length (bytes_of (butlast P)) \<le> 14" using len False by (simp add: bytes_of_length)
    with x have "pton6_loop ?text ?text 0 0 [] None =
        pton6_loop (head_text S) (head_text S) 0 0 (bytes_of P) (Some (length (bytes_of P)))"
      unfolding read bytes_of_last [OF False] by simp
    moreover obtain c rest where "head_text P = c # rest" "c \<noteq> 58" by (rule head_text_hd [OF False])
    ultimately show ?thesis
      using tail by (simp add: inet_pton6_def Let_def)
  qed
qed

lemma pton6_text_full:
  assumes "\<forall>h \<in> set gs. h < 65536" "length gs = 8"
  shows "inet_pton6 (head_text gs) = Some (bytes_of gs)"
proof -
  have ne: "gs \<noteq> []" using assms(2) by auto
  obtain cur' x' where read: "pton6_loop (head_text gs) (head_text gs @ []) 0 0 [] None =
      pton6_loop cur' [] (last gs) x' (bytes_of (butlast gs)) None" and x: "0 < x'"
    using pton6_head [of gs "head_text gs" "[]"] assms ne by auto
  have "pton6_finish (last gs, x', bytes_of (butlast gs), None) = Some (bytes_of gs)"
    using x assms(2) unfolding bytes_of_last [OF ne] by (simp add: pton6_finish_def bytes_of_length)
  moreover obtain c rest where "head_text gs = c # rest" "c \<noteq> 58" by (rule head_text_hd [OF ne])
  ultimately show ?thesis
    using read by (simp add: inet_pton6_def Let_def)
qed

text \<open>A text that ends in dotted decimal.\<close>

lemma pton6_decimal:
  assumes "n < 256"
  shows "\<exists>v x. pton6_loop cur (digits 10 n @ rest) 0 0 out col = pton6_loop cur rest v x out col"
proof -
  have m: "n mod 10 < 16" "n div 10 mod 10 < 16" "n div 10 div 10 < 16"
    using assms by (simp_all add: less_le_trans [of _ 10])
  consider "n < 10" | "10 \<le> n" "n < 100" | "100 \<le> n" by linarith
  then show ?thesis
  proof cases
    case 1
    then show ?thesis by (simp add: digits_small) blast
  next
    case 2
    then have "digits 10 n = [digit (n div 10), digit (n mod 10)]" "n div 10 < 16"
      by (simp_all add: digits_big digits_small)
    with m show ?thesis by simp blast
  next
    case 3
    then have "digits 10 n = [digit (n div 10 div 10), digit (n div 10 mod 10), digit (n mod 10)]"
      using assms by (simp add: digits_big digits_small)
    with m show ?thesis by simp blast
  qed
qed

lemma pton6_dotted:
  assumes "length bs = 4" "length out \<le> 12"
  shows "\<exists>v. pton6_loop (dotted_decimal bs) (dotted_decimal bs) 0 0 out col = Some (v, 0, out @ bs, col)"
proof -
  obtain a b c d where bs: "bs = [a, b, c, d]"
    using assms(1) by (auto simp: eval_nat_numeral length_Suc_conv)
  obtain rest where shape: "dotted_decimal bs = digits 10 (unat a) @ 46 # rest"
    by (simp add: bs)
  obtain v x where "pton6_loop (dotted_decimal bs) (dotted_decimal bs) 0 0 out col =
      pton6_loop (dotted_decimal bs) (46 # rest) v x out col"
    using pton6_decimal [of "unat a" "dotted_decimal bs" "46 # rest" out col] unsigned_less [of a, where ?'a = nat]
    unfolding shape by auto
  then show ?thesis
    using assms pton4_dotted [OF assms(1)] by auto
qed

lemma colons_Cons: "colons (g # gs) = 58 # head_text (g # gs)"
  by (simp add: colons_def head_text_def)

lemma ntop6_plain:
  assumes "length gs = 8" "best_run gs = (base, n)"
  shows "concat (map (ntop6_group bs gs base n) [0..<8]) @ (if 2 \<le> n \<and> base + n = 8 then [colon] else []) =
    (if 2 \<le> n then head_text (take base gs) @ 58 # 58 # head_text (drop (base + n) gs) else head_text gs)"
proof (cases "2 \<le> n")
  case True
  note run = best_run_zeros [OF assms(2) True]
  have "colons (drop (base + n) gs) @ (if base + n = 8 then [colon] else []) = 58 # head_text (drop (base + n) gs)"
    using assms(1) run(1) by (cases "drop (base + n) gs") (auto simp: colons_Cons colons_def head_text_def)
  then show ?thesis
    using group_text_split [OF True, of base 8 gs bs] run(1) assms(1) True by simp
next
  case False
  then show ?thesis
    using group_text_head [of 8 n base bs gs] slice_upt [of 8 gs 0] assms(1) by simp
qed

lemma ntop6_mapped:
  assumes "length gs = 8" "best_run gs = (0, n)" "n = 6 \<or> n = 5 \<and> gs ! 5 = 65535"
  shows "concat (map (ntop6_group bs gs 0 n) [0..<6]) =
    (if n = 6 then [58] else 58 # 58 # digits 16 65535)"
proof -
  have "drop n (take 6 gs) = (if n = 6 then [] else [gs ! 5])"
    using assms(1,3) Cons_nth_drop_Suc [of 5 gs, symmetric] by (auto simp: drop_take)
  then show ?thesis
    using group_text_split [of n 0 6 gs bs] assms by (auto simp: head_text_def colons_def)
qed

lemma pton6_mapped:
  assumes bs: "length bs = 16" and gs: "length gs = 8" "gs = replicate n 0 @ drop n gs" and bytes: "bytes_of gs = bs"
    and n: "n = 6 \<or> n = 5 \<and> gs ! 5 = 65535"
  shows "inet_pton6 ((if n = 6 then [58] else 58 # 58 # digits 16 65535) @ 58 # dotted_decimal (drop 12 bs)) = Some bs"
proof -
  let ?tail = "dotted_decimal (drop 12 bs)"
  have tail: "\<exists>v. pton6_loop ?tail ?tail 0 0 out col = Some (v, 0, out @ drop 12 bs, col)" if "length out \<le> 12" for out col
    using pton6_dotted [of "drop 12 bs" out col] bs that by simp
  have ne: "?tail \<noteq> []" using tail [of "[]" None] bs by auto
  show ?thesis
  proof (cases "n = 6")
    case True
    have "bytes_of gs = bytes_of (replicate 6 0) @ bytes_of (drop 6 gs)"
      by (subst gs(2)) (simp only: True map_append concat_append)
    then have "bs = replicate 12 0 @ bytes_of (drop 6 gs)"
      unfolding bytes_of_zeros bytes by simp
    then have "bs = replicate 12 0 @ drop 12 bs"
      using arg_cong [of bs _ "drop 12"] by simp
    with True tail [of "[]" "Some 0"] bs show ?thesis by (auto simp: inet_pton6_def pton6_finish_def)
  next
    case False
    then have "drop n gs = 65535 # drop 6 gs" and five: "n = 5"
      using gs(1) n Cons_nth_drop_Suc [of 5 gs] by simp_all
    then have "bytes_of gs = bytes_of (replicate 5 0) @ bytes_of (65535 # drop 6 gs)"
      by (subst gs(2)) (simp only: map_append concat_append)
    then have "bs = replicate 10 0 @ [255, 255] @ bytes_of (drop 6 gs)"
      unfolding bytes_of_zeros bytes by simp
    then have "bs = replicate 10 0 @ [255, 255] @ drop 12 bs"
      using arg_cong [of bs _ "drop 12"] by simp
    with False tail [of "[255, 255]" "Some 0"] bs ne show ?thesis
      by (auto simp: inet_pton6_def pton6_finish_def pton6_group)
  qed
qed

lemma pton6_ntop6:
  assumes "length bs = 16"
  shows "inet_pton6 (inet_ntop6 bs) = Some bs"
proof -
  obtain base n where best: "best_run (groups bs) = (base, n)" by (cases "best_run (groups bs)")
  let ?gs = "groups bs"
  have len: "length ?gs = 8" and small: "\<forall>h \<in> set ?gs. h < 65536" and bytes: "bytes_of ?gs = bs"
    using assms groups_less by (auto simp: length_groups bytes_of_groups)
  show ?thesis
  proof (cases "base = 0 \<and> (n = 6 \<or> n = 5 \<and> ?gs ! 5 = 65535)")
    case False
    have shape: "inet_ntop6 bs = (if 2 \<le> n then head_text (take base ?gs) @ 58 # 58 # head_text (drop (base + n) ?gs)
        else head_text ?gs)"
      unfolding inet_ntop6_def best Let_def prod.case if_not_P [OF False] by (rule ntop6_plain [OF len best])
    show ?thesis
    proof (cases "2 \<le> n")
      case True
      note run = best_run_zeros [OF best True]
      have "bs = bytes_of (take base ?gs @ replicate n 0 @ drop (base + n) ?gs)" using run(2) bytes by simp
      also have "\<dots> = bytes_of (take base ?gs) @ replicate (2 * n) 0 @ bytes_of (drop (base + n) ?gs)"
        unfolding map_append concat_append bytes_of_zeros ..
      finally have split: "bs = bytes_of (take base ?gs) @ replicate (2 * n) 0 @ bytes_of (drop (base + n) ?gs)" .
      have "16 - 2 * length (take base ?gs) - 2 * length (drop (base + n) ?gs) = 2 * n"
        using run(1) len by simp
      moreover have "\<forall>h \<in> set (take base ?gs @ drop (base + n) ?gs). h < 65536"
        using small by (auto dest: in_set_takeD in_set_dropD)
      ultimately have "inet_pton6 (inet_ntop6 bs) =
          Some (bytes_of (take base ?gs) @ replicate (2 * n) 0 @ bytes_of (drop (base + n) ?gs))"
        using pton6_text_run [of "take base ?gs" "drop (base + n) ?gs"] run(1) len True
        by (simp add: shape)
      with split show ?thesis by simp
    qed (use pton6_text_full [OF small len] bytes shape in simp)
  next
    case True
    then have shape: "inet_ntop6 bs = concat (map (ntop6_group bs ?gs 0 n) [0..<6]) @ 58 # dotted_decimal (drop 12 bs)"
      by (simp add: inet_ntop6_def best)
    have run: "?gs = replicate n 0 @ drop n ?gs" using best_run_zeros(2) [OF best] True by auto
    show ?thesis
      unfolding shape using pton6_mapped [OF assms len run] ntop6_mapped [OF len, of n bs] best True bytes by auto
  qed
qed

text \<open>A text with a colon is not an IPv4 address, and every IPv6 text has one.\<close>

lemma pton4_colon: "58 \<in> set src \<Longrightarrow> pton4_loop src saw cur out = None"
  by (induction src saw cur out rule: pton4_loop.induct) (auto split: option.splits)

lemma head_text_colon: "1 < length gs \<Longrightarrow> 58 \<in> set (head_text gs)"
  by (cases gs; cases "tl gs") (auto simp: head_text_def colons_def)

lemma ntop6_colon:
  assumes "length bs = 16"
  shows "58 \<in> set (inet_ntop6 bs)"
proof -
  obtain base n where best: "best_run (groups bs) = (base, n)" by (cases "best_run (groups bs)")
  have len: "length (groups bs) = 8" using assms by (simp add: length_groups)
  show ?thesis
  proof (cases "base = 0 \<and> (n = 6 \<or> n = 5 \<and> groups bs ! 5 = 65535)")
    case True
    then show ?thesis by (simp add: inet_ntop6_def best)
  next
    case False
    then have "inet_ntop6 bs = concat (map (ntop6_group bs (groups bs) base n) [0..<8]) @
        (if 2 \<le> n \<and> base + n = 8 then [colon] else [])"
      unfolding inet_ntop6_def best Let_def prod.case by (rule if_not_P)
    then show ?thesis
      using head_text_colon [of "groups bs"] len by (simp only: ntop6_plain [OF len best]) simp
  qed
qed

section \<open>Addresses that are read have their size\<close>

lemma pton4_loop_length: "pton4_loop src saw cur out = Some bs \<Longrightarrow> length bs = 4"
  by (induction src saw cur out rule: pton4_loop.induct) (auto split: option.splits if_splits)

lemma pton4_length: "inet_pton4 src = Some bs \<Longrightarrow> length bs = 4"
  unfolding inet_pton4_def by (rule pton4_loop_length)

lemma pton6_loop_length:
  "pton6_loop cur src v x out col = Some (v', x', out', col') \<Longrightarrow> length out \<le> 16 \<Longrightarrow> length out' \<le> 16"
proof (induction cur src v x out col rule: pton6_loop.induct)
  case (2 cur ch src v x out col)
  then show ?case
    by (auto simp: pton4_length split: option.splits if_splits)
qed simp

lemma pton6_finish_length: "pton6_finish (v, x, out, col) = Some bs \<Longrightarrow> length out \<le> 16 \<Longrightarrow> length bs = 16"
  by (auto simp: pton6_finish_def Let_def split: if_splits option.splits)

lemma pton6_length:
  assumes "inet_pton6 src = Some bs"
  shows "length bs = 16"
proof (cases src)
  case (Cons ch rest)
  define src' where "src' = (if ch = colon then rest else src)"
  have "Option.bind (pton6_loop src' src' 0 0 [] None) pton6_finish = Some bs"
    using assms Cons by (auto simp: inet_pton6_def src'_def Let_def split: if_splits)
  then obtain v x out col where "pton6_loop src' src' 0 0 [] None = Some (v, x, out, col)"
    "pton6_finish (v, x, out, col) = Some bs"
    by (auto simp: bind_eq_Some_conv)
  then show ?thesis using pton6_loop_length pton6_finish_length by force
qed (use assms in \<open>simp add: inet_pton6_def\<close>)

end
