(* ===== verification/Proc_Packets.thy ===== *)
theory Proc_Packets
  imports Forward Packet_Filter Ip_Cache Domain_Cache Inet "HOL-Library.Multiset"
begin

text \<open>
  The processing of a burst of packets, \<open>pakage_processing\<close> of
  \<open>src/worker/src/dpdk_filter/proc_packets.c\<close>: each packet is parsed, looked up in the cache of
  names or of addresses, classified and filtered when it is not there, sent or dropped, and the
  decision stored.  The two halves of the loop body are definitions of their own.
\<close>

section \<open>State and environment\<close>

record ('w, 'hi, 'hd, 'db) proc_state = "'w net_state" +
  ip_state :: "('hi, 'db) ip_cache"
  dns_state :: "('hd, 'db) dns_cache"

text \<open>The libraries below the program, and the contents of the uninitialised variable
  \<open>req_clas\<close> on the stack.\<close>

record ('w, 'hi, 'hd) env =
  net_of :: "'w net_api"
  ptypes_of :: ptype_api
  dpdk_of :: "'w dpdk"
  ip_api :: "('w, 'hi, ip_key) hash_api"
  dns_api :: "('w, 'hd, byte list) hash_api"
  rpc_of :: "'w rpc"
  stack_of :: "'w \<Rightarrow> requested_classification"

section \<open>The operations\<close>

definition ip_key_of :: "info_of_pakage \<Rightarrow> ip_key" where
  "ip_key_of info =
     (if ip_version info = IP_4 then set_ip4 (zero_ip_key\<lparr>version := 4\<rparr>) (ip4_dist info)
      else set_ip6 (zero_ip_key\<lparr>version := 6\<rparr>) (ip6_dist info))"

definition ip_str_of :: "info_of_pakage \<Rightarrow> byte list" where
  "ip_str_of info =
     pad_str INET6_ADDRSTRLEN
       (if ip_version info = IP_4 then inet_ntop4 (ip4_dist info) else inet_ntop6 (ip6_dist info))"

definition drop_on_error ::
  "addr \<Rightarrow> ('w, 'hi, 'hd, 'db) proc_state \<Rightarrow> ('w, 'hi, 'hd, 'db) proc_state res" where
  "drop_on_error a s = rte_pktmbuf_free a (s\<lparr>instance_of := record_packet_dropped (instance_of s)\<rparr>)"

definition remember_ip ::
  "('w, 'hi, 'hd) env \<Rightarrow> BASE_POLICY \<Rightarrow> info_of_pakage \<Rightarrow> bool \<Rightarrow> ('w, 'hi, 'hd, 'db) proc_state \<Rightarrow>
   ('w, 'hi, 'hd, 'db) proc_state res" where
  "remember_ip E policy info solution s =
     (case new_node (dpdk_of E) zero_node_ip (world s, ip_state s) of
        (None, w, c) \<Rightarrow> Inr (s\<lparr>world := w, ip_state := c\<rparr>)
      | (Some node, w, c) \<Rightarrow>
          rbind (deref (cache_nodes c) node) (\<lambda>n.
          rbind (add_to_ip_cache (dpdk_of E) (ip_api E) (ip_key_of info) node (ttl_ip policy)
            (w, c\<lparr>cache_nodes := (cache_nodes c)(node \<mapsto> n\<lparr>solution_is_send := solution\<rparr>)\<rparr>)) (\<lambda>(w, c).
          Inr (s\<lparr>world := w, ip_state := c\<rparr>))))"

definition process_ip ::
  "('w, 'hi, 'hd) env \<Rightarrow> BASE_POLICY \<Rightarrow> addr \<Rightarrow> addr \<Rightarrow> 16 word \<Rightarrow> addr \<Rightarrow> info_of_pakage \<Rightarrow>
   ('w, 'hi, 'hd, 'db) proc_state \<Rightarrow> ('w, 'hi, 'hd, 'db) proc_state res" where
  "process_ip E policy port_in port_out q a info s =
     rbind (lookup_ip_cache (dpdk_of E) (ip_api E) (ip_key_of info) None (world s, ip_state s))
       (\<lambda>((ret, cached_node_ip), w, c).
     let s = s\<lparr>world := w, ip_state := c\<rparr> in
     if ret \<ge> 0 \<and> cached_node_ip \<noteq> None then
       rbind (deref (cache_nodes c) (the cached_node_ip)) (\<lambda>n.
       package_sending_decision (net_of E) (ptypes_of E) (solution_is_send n) a port_in port_out q s)
     else if ret = - ENOENT then
       rbind (worker_classify (rpc_of E) (instance_of s) (c_lit ''ip'') (ip_str_of info)
                (stack_of E (world s)) (world s)) (\<lambda>(classification_success, req_clas, w).
       let s = s\<lparr>world := w\<rparr> in
       rbind (if classification_success then main_filtring_by_ip req_clas policy info else Inr True) (\<lambda>solution.
       rbind (package_sending_decision (net_of E) (ptypes_of E) solution a port_in port_out q s) (\<lambda>s.
       remember_ip E policy info solution s)))
     else drop_on_error a s)"

definition remember_domain ::
  "('w, 'hi, 'hd) env \<Rightarrow> BASE_POLICY \<Rightarrow> info_of_pakage \<Rightarrow> bool \<Rightarrow> ('w, 'hi, 'hd, 'db) proc_state \<Rightarrow>
   ('w, 'hi, 'hd, 'db) proc_state res" where
  "remember_domain E policy info solution s =
     (case new_node (dpdk_of E) zero_node_domain (world s, dns_state s) of
        (None, w, c) \<Rightarrow> Inr (s\<lparr>world := w, dns_state := c\<rparr>)
      | (Some node, w, c) \<Rightarrow>
          rbind (deref (cache_nodes c) node) (\<lambda>n.
          rbind (add_to_dns_cache (dpdk_of E) (dns_api E) (domain info) node (ttl_domain policy)
            (w, c\<lparr>cache_nodes := (cache_nodes c)(node \<mapsto> n\<lparr>solution_is_send := solution\<rparr>)\<rparr>)) (\<lambda>(w, c).
          Inr (s\<lparr>world := w, dns_state := c\<rparr>))))"

definition process_domain ::
  "('w, 'hi, 'hd) env \<Rightarrow> BASE_POLICY \<Rightarrow> addr \<Rightarrow> addr \<Rightarrow> 16 word \<Rightarrow> addr \<Rightarrow> info_of_pakage \<Rightarrow>
   ('w, 'hi, 'hd, 'db) proc_state \<Rightarrow> ('w, 'hi, 'hd, 'db) proc_state res" where
  "process_domain E policy port_in port_out q a info s =
     rbind (lookup_dns_cache (dpdk_of E) (dns_api E) (domain info) None (world s, dns_state s))
       (\<lambda>((ret, cached_node_domain), w, c).
     let s = s\<lparr>world := w, dns_state := c\<rparr> in
     if ret \<ge> 0 \<and> cached_node_domain \<noteq> None then
       rbind (deref (cache_nodes c) (the cached_node_domain)) (\<lambda>n.
       package_sending_decision (net_of E) (ptypes_of E) (solution_is_send n) a port_in port_out q s)
     else if ret = - ENOENT then
       rbind (worker_classify (rpc_of E) (instance_of s) (c_lit ''domain'') (domain info)
                (stack_of E (world s)) (world s)) (\<lambda>(classification_success, req_clas, w).
       let s = s\<lparr>world := w\<rparr> in
       rbind (if classification_success then main_filtring_by_domain req_clas policy info else Inr True) (\<lambda>solution.
       rbind (package_sending_decision (net_of E) (ptypes_of E) solution a port_in port_out q s) (\<lambda>s.
       remember_domain E policy info solution s)))
     else drop_on_error a s)"

definition process_packet ::
  "('w, 'hi, 'hd) env \<Rightarrow> BASE_POLICY \<Rightarrow> addr \<Rightarrow> addr \<Rightarrow> addr \<Rightarrow> 16 word \<Rightarrow> addr \<Rightarrow>
   ('w, 'hi, 'hd, 'db) proc_state \<Rightarrow> ('w, 'hi, 'hd, 'db) proc_state res" where
  "process_packet E policy port_in port_out port_exception q a s =
     (let s = s\<lparr>instance_of := record_packet_received (instance_of s)\<rparr> in
      rbind (deref (mbufs s) a) (\<lambda>pkt.
      rbind (parsing_pakage (ptypes_of E) pkt zero_info) (\<lambda>info_pac.
      rbind (rget (domain info_pac) 0) (\<lambda>b.
      if b = 0 then
        rbind (check_is_exception (number_port info_pac)) (\<lambda>exception.
        if exception then
          package_sending_decision (net_of E) (ptypes_of E) True a port_in port_exception q s
        else process_ip E policy port_in port_out q a info_pac s)
      else
        rbind (check_is_exception (number_port info_pac)) (\<lambda>exception.
        if exception then
          package_sending_decision (net_of E) (ptypes_of E) True a port_in port_exception q s
        else process_domain E policy port_in port_out q a info_pac s)))))"

text \<open>The received mbufs become the program's.\<close>

definition rx_packets ::
  "'w net_api \<Rightarrow> addr \<Rightarrow> 16 word \<Rightarrow> 16 word \<Rightarrow> ('w, 'x) net_state_scheme \<Rightarrow>
   addr list \<times> ('w, 'x) net_state_scheme" where
  "rx_packets N port q nb_pkts s =
     (case rte_eth_rx_burst N (port_id (ports s port)) q nb_pkts (world s) of (pkts, w) \<Rightarrow>
      (map fst pkts, s\<lparr>world := w, mbufs := mbufs s ++ map_of pkts\<rparr>))"

definition pakage_processing ::
  "('w, 'hi, 'hd) env \<Rightarrow> addr \<Rightarrow> addr \<Rightarrow> addr \<Rightarrow> 16 word \<Rightarrow> 16 word \<Rightarrow> BASE_POLICY \<Rightarrow> bool \<Rightarrow>
   ('w, 'hi, 'hd, 'db) proc_state \<Rightarrow> ('w, 'hi, 'hd, 'db) proc_state res" where
  "pakage_processing E port_in port_out port_exception q nb_pkts policy filtring_is_turned_off s =
     (case rx_packets (net_of E) port_in q nb_pkts s of (pkts, s) \<Rightarrow>
      if filtring_is_turned_off then
        c_fold pkts (\<lambda>a s.
          package_sending_decision (net_of E) (ptypes_of E) True a port_in port_out q
            (s\<lparr>instance_of := record_packet_received (instance_of s)\<rparr>)) s
      else c_fold pkts (process_packet E policy port_in port_out port_exception q) s)"

section \<open>Invariant\<close>

text \<open>Both caches are well formed and own separate memory.\<close>

definition proc_ok ::
  "('w \<Rightarrow> addr set) \<Rightarrow> ('hi \<Rightarrow> (ip_key \<times> addr) option list) \<Rightarrow> ('hd \<Rightarrow> (byte list \<times> addr) option list) \<Rightarrow>
   ('w, 'hi, 'hd, 'db) proc_state \<Rightarrow> bool" where
  "proc_ok live si sd s \<longleftrightarrow>
     cache_ok si live key (world s, ip_state s) \<and> cache_ok sd live key_domain (world s, dns_state s) \<and>
     owned (ip_state s) \<inter> owned (dns_state s) = {}"

definition proc_clean ::
  "('hi \<Rightarrow> (ip_key \<times> addr) option list) \<Rightarrow> ('hd \<Rightarrow> (byte list \<times> addr) option list) \<Rightarrow>
   ('w, 'hi, 'hd, 'db) proc_state \<Rightarrow> bool" where
  "proc_clean si sd s \<longleftrightarrow> no_leak si key (ip_state s) \<and> no_leak sd key_domain (dns_state s)"

text \<open>A packet was disposed of exactly once, and the ports stay usable.\<close>

definition handled ::
  "addr \<Rightarrow> ('w, 'hi, 'hd, 'db) proc_state \<Rightarrow> ('w, 'hi, 'hd, 'db) proc_state \<Rightarrow> bool" where
  "handled a s s' \<longleftrightarrow>
     mbufs s' = (mbufs s)(a := None) \<and>
     (sent s' = sent s \<and> freed s' = freed s @ [a] \<or>
      (\<exists>f. sent s' = sent s @ [(a, f)]) \<and> freed s' = freed s) \<and>
     (\<forall>p. wf_port (ports s p) \<longrightarrow> wf_port (ports s' p)) \<and>
     configuration (instance_of s') = configuration (instance_of s)"

lemma owned_live: "cache_ok slots live getk (w, c) \<Longrightarrow> owned c \<subseteq> live w"
  by (simp add: cache_ok_def owned_def)

lemma proc_okD:
  assumes "proc_ok live si sd s"
  shows "cache_ok si live key (world s, ip_state s)" "cache_ok sd live key_domain (world s, dns_state s)"
  using assms by (simp_all add: proc_ok_def)

lemma proc_ok_world: "proc_ok live si sd s \<Longrightarrow> live w = live (world s) \<Longrightarrow> proc_ok live si sd (s\<lparr>world := w\<rparr>)"
  by (simp add: proc_ok_def cache_ok_def)

lemma proc_ok_ip:
  assumes "proc_ok live si sd s" "cache_ok si live key (w, c)" "frame live (world s, ip_state s) (w, c)"
  shows "proc_ok live si sd (s\<lparr>world := w, ip_state := c\<rparr>)"
proof -
  have "owned (dns_state s) \<subseteq> live w \<and> owned (dns_state s) \<inter> owned c = {}"
    using assms(1,3) owned_live [of sd live key_domain "world s" "dns_state s"]
    unfolding proc_ok_def frame_def by blast
  with assms(1,2) show ?thesis
    by (auto simp: proc_ok_def cache_ok_def owned_def)
qed

lemma proc_ok_dns:
  assumes "proc_ok live si sd s" "cache_ok sd live key_domain (w, c)" "frame live (world s, dns_state s) (w, c)"
  shows "proc_ok live si sd (s\<lparr>world := w, dns_state := c\<rparr>)"
proof -
  have "owned (ip_state s) \<subseteq> live w \<and> owned (ip_state s) \<inter> owned c = {}"
    using assms(1,3) owned_live [of si live key "world s" "ip_state s"]
    unfolding proc_ok_def frame_def by blast
  with assms(1,2) show ?thesis
    by (auto simp: proc_ok_def cache_ok_def owned_def)
qed

lemma world_first:
  fixes s :: "('w, 'hi, 'hd, 'db) proc_state"
  shows "s\<lparr>ip_state := ci, world := w\<rparr> = s\<lparr>world := w, ip_state := ci\<rparr>"
    "s\<lparr>dns_state := cd, world := w\<rparr> = s\<lparr>world := w, dns_state := cd\<rparr>"
  by (cases s; simp)+

lemma same_update:
  fixes s :: "('w, 'hi, 'hd, 'db) proc_state"
  assumes "s\<lparr>world := w, dns_state := c\<rparr> = s\<lparr>world := w', dns_state := c'\<rparr>"
  shows "w = w' \<and> c = c'"
  using assms by (cases s) simp

lemma more_caches:
  fixes s s' :: "('w, 'hi, 'hd, 'db) proc_state"
  assumes "net_state.more s' = net_state.more s"
  shows "ip_state s' = ip_state s" "dns_state s' = dns_state s"
  using assms by (cases s; cases s'; simp)+

lemma disposed_handled: "disposed N a s s' \<Longrightarrow> handled a s s'"
  by (simp add: disposed_def handled_def)

section \<open>Decisions are always defined\<close>

text \<open>
  The site is decided before the level table would be read out of bounds.  The environment is
  \<open>answering\<close> under a policy when every classification returns, leaves the program's memory
  alone, and when it succeeds its result is a table of strings that the filter decides.
\<close>

definition covered :: "requested_classification \<Rightarrow> BASE_POLICY \<Rightarrow> bool" where
  "covered req p \<longleftrightarrow>
     is_unknown req \<or> category_names (get_categories req) \<inter> category_names (locked_categories p) \<noteq> {} \<or>
     get_trust_level req < min_trust_level p \<or> locked_by_level req (categories_with_lvl p)"

definition answering :: "('w, 'hi, 'hd) env \<Rightarrow> ('w \<Rightarrow> addr set) \<Rightarrow> BASE_POLICY \<Rightarrow> bool" where
  "answering E live policy \<longleftrightarrow>
     (\<forall>i type target w. nul_term type \<longrightarrow> nul_term target \<longrightarrow>
        (\<exists>ok req w'. worker_classify (rpc_of E) i type target (stack_of E w) w = Inr (ok, req, w') \<and>
           live w' = live w \<and> (ok \<longrightarrow> wf_class req \<and> covered req policy)))"

lemma filter_decides:
  assumes "wf_class req" "wf_policy p" "wf_info info" "covered req p"
  shows "\<exists>d. main_filtring_by_domain req p info = Inr d" "\<exists>d. main_filtring_by_ip req p info = Inr d"
  using assms
  by (auto simp: main_filtring_by_domain_def main_filtring_by_ip_def check_categories_and_trust_level_eq
      check_domain_is_block_eq check_domain_is_allow_eq check_ip_is_block_eq check_ip_is_allow_eq
      wf_policy_def wf_info_def covered_def)

lemma answering_decides:
  assumes "answering E live policy" "wf_policy policy" "wf_info info" "nul_term type" "nul_term target"
  obtains ok req w' where
    "worker_classify (rpc_of E) i type target (stack_of E w) w = Inr (ok, req, w')" "live w' = live w"
    "\<exists>d. (if ok then main_filtring_by_ip req policy info else Inr True) = Inr d"
    "\<exists>d. (if ok then main_filtring_by_domain req policy info else Inr True) = Inr d"
proof -
  obtain ok req w' where run: "worker_classify (rpc_of E) i type target (stack_of E w) w = Inr (ok, req, w')"
    and w': "live w' = live w" and good: "ok \<longrightarrow> wf_class req \<and> covered req policy"
    using assms(1,4,5) unfolding answering_def by blast
  with filter_decides [OF _ assms(2,3)] that show thesis by (cases ok) auto
qed

section \<open>One packet\<close>

locale proc_env = ip: ip_env "dpdk_of E" live "ip_api E" si + dns: dns_env "dpdk_of E" live "dns_api E" sd
  for E :: "('w, 'hi, 'hd) env" and live si sd +
  assumes tx_live: "live (snd (rte_eth_tx_burst (net_of E) p q m w)) = live w"
    and rx_live: "live (snd (rte_eth_rx_burst (net_of E) p q n w)) = live w"
    and rx_distinct: "distinct (map fst (fst (rte_eth_rx_burst (net_of E) p q n w)))"

lemma remember_ip_common:
  "remember_ip E policy info d s =
     rbind (g_remember (dpdk_of E)
         (\<lambda>a. g_add set_key (dpdk_of E) (ip_api E) (Inr (ip_key_of info)) a (ttl_ip policy)) zero_node_ip
         (\<lambda>n. n\<lparr>solution_is_send := d\<rparr>) (world s, ip_state s))
       (\<lambda>(w, c). Inr (s\<lparr>world := w, ip_state := c\<rparr>))"
  by (auto simp: remember_ip_def g_remember_def add_to_ip_cache_common rbind_assoc split: prod.splits option.splits)

lemma remember_domain_common:
  assumes "nul_term (domain info)"
  shows "remember_domain E policy info d s =
     rbind (g_remember (dpdk_of E)
         (\<lambda>a. g_add set_key_domain (dpdk_of E) (dns_api E) (Inr (pad_str DOMAIN_MAX_LEN (cstr (domain info)))) a
            (ttl_domain policy)) zero_node_domain
         (\<lambda>n. n\<lparr>solution_is_send := d\<rparr>) (world s, dns_state s))
       (\<lambda>(w, c). Inr (s\<lparr>world := w, dns_state := c\<rparr>))"
  using key_bytes_of_term [OF assms]
  by (auto simp: remember_domain_def g_remember_def add_to_dns_cache_common rbind_assoc
      split: prod.splits option.splits)

lemma nul_term_ip_str [simp]: "nul_term (ip_str_of info)"
  by (simp add: ip_str_of_def)

context proc_env
begin

lemma proc_ok_disposed:
  assumes "proc_ok live si sd s" "disposed (net_of E) a s s'"
  shows "proc_ok live si sd s'" "proc_clean si sd s' \<longleftrightarrow> proc_clean si sd s"
proof -
  have same: "ip_state s' = ip_state s" "dns_state s' = dns_state s"
    using assms(2) more_caches [of s' s] by (simp_all add: disposed_def)
  moreover have "live (world s') = live (world s)"
    using assms(2) tx_live by (auto simp: disposed_def)
  ultimately show "proc_ok live si sd s'" "proc_clean si sd s' \<longleftrightarrow> proc_clean si sd s"
    using assms(1) by (simp_all add: proc_ok_def cache_ok_def proc_clean_def)
qed

lemma decision_safe:
  assumes "proc_ok live si sd s" "mbufs s a = Some pkt" "26 \<le> length (mb_buf pkt)" "wf_port (ports s port_out)"
  shows "\<exists>s'. package_sending_decision (net_of E) (ptypes_of E) d a port_in port_out q s = Inr s' \<and>
    disposed (net_of E) a s s' \<and> proc_ok live si sd s' \<and> (proc_clean si sd s' \<longleftrightarrow> proc_clean si sd s) \<and>
    handled a s s' \<and> ip_state s' = ip_state s \<and> dns_state s' = dns_state s"
proof -
  obtain s' where "package_sending_decision (net_of E) (ptypes_of E) d a port_in port_out q s = Inr s'"
    and d: "disposed (net_of E) a s s'"
    using decision_disposed [OF assms(2-4)] by blast
  with proc_ok_disposed [OF assms(1) d] disposed_handled [OF d] more_caches [of s' s] show ?thesis
    by (simp add: disposed_def)
qed

lemma drop_on_error_safe:
  assumes "proc_ok live si sd s" "mbufs s a = Some pkt"
  shows "\<exists>s'. drop_on_error a s = Inr s' \<and> proc_ok live si sd s' \<and> handled a s s' \<and>
     (proc_clean si sd s' \<longleftrightarrow> proc_clean si sd s)"
  using assms by (simp add: drop_on_error_def rte_pktmbuf_free_def handled_def proc_ok_def proc_clean_def)

lemma remember_ip_safe:
  assumes ok: "proc_ok live si sd s"
  shows "\<exists>w' c'. remember_ip E policy info d s = Inr (s\<lparr>world := w', ip_state := c'\<rparr>) \<and>
     proc_ok live si sd (s\<lparr>world := w', ip_state := c'\<rparr>) \<and>
     (proc_clean si sd s \<longrightarrow> cache_view si (ip_state s) (ip_key_of info) = None \<longrightarrow>
        proc_clean si sd (s\<lparr>world := w', ip_state := c'\<rparr>)) \<and>
     (cache_view si c' = cache_view si (ip_state s) \<or>
      (\<exists>ka. cache_view si c' = (cache_view si (ip_state s))(ip_key_of info \<mapsto>
         zero_node_ip\<lparr>solution_is_send := d, timestamp := node_stamp (dpdk_of E) (world s), ttl_seconds := word_of_int (ttl_ip policy),
           key := Some ka\<rparr>)))"
proof -
  obtain w' c' where run: "g_remember (dpdk_of E)
      (\<lambda>a. g_add set_key (dpdk_of E) (ip_api E) (Inr (ip_key_of info)) a (ttl_ip policy)) zero_node_ip
      (\<lambda>n. n\<lparr>solution_is_send := d\<rparr>) (world s, ip_state s) = Inr (w', c')"
    and keep: "cache_ok si live key (w', c')" "frame live (world s, ip_state s) (w', c')"
    and rest: "no_leak si key (ip_state s) \<longrightarrow> cache_view si (ip_state s) (ip_key_of info) = None \<longrightarrow> no_leak si key c'"
      "cache_view si c' = cache_view si (ip_state s) \<or>
       (\<exists>ka. cache_view si c' = (cache_view si (ip_state s))(ip_key_of info \<mapsto>
         zero_node_ip\<lparr>solution_is_send := d, timestamp := node_stamp (dpdk_of E) (world s), ttl_seconds := word_of_int (ttl_ip policy),
           key := Some ka\<rparr>))"
    using ip.remember_contract [OF proc_okD(1) [OF ok], of "ip_key_of info" "ttl_ip policy" zero_node_ip
        "\<lambda>n. n\<lparr>solution_is_send := d\<rparr>"] by (elim exE conjE) (rule that)
  have "remember_ip E policy info d s = Inr (s\<lparr>world := w', ip_state := c'\<rparr>)"
    using run by (simp add: remember_ip_common)
  moreover have "proc_clean si sd s \<longrightarrow> cache_view si (ip_state s) (ip_key_of info) = None \<longrightarrow>
      proc_clean si sd (s\<lparr>world := w', ip_state := c'\<rparr>)"
    using rest(1) by (simp add: proc_clean_def)
  ultimately show ?thesis
    using proc_ok_ip [OF ok keep] rest(2) by (intro exI conjI)
qed

lemma remember_domain_safe:
  assumes ok: "proc_ok live si sd s" and name: "nul_term (domain info)"
    and k: "k = pad_str DOMAIN_MAX_LEN (cstr (domain info))"
  shows "\<exists>w' c'. remember_domain E policy info d s = Inr (s\<lparr>world := w', dns_state := c'\<rparr>) \<and>
     proc_ok live si sd (s\<lparr>world := w', dns_state := c'\<rparr>) \<and>
     (proc_clean si sd s \<longrightarrow> cache_view sd (dns_state s) k = None \<longrightarrow>
        proc_clean si sd (s\<lparr>world := w', dns_state := c'\<rparr>)) \<and>
     (cache_view sd c' = cache_view sd (dns_state s) \<or>
      (\<exists>ka. cache_view sd c' = (cache_view sd (dns_state s))(k \<mapsto>
         zero_node_domain\<lparr>solution_is_send := d, timestamp := node_stamp (dpdk_of E) (world s), ttl_seconds := word_of_int (ttl_domain policy),
           key_domain := Some ka\<rparr>)))"
proof -
  obtain w' c' where run: "g_remember (dpdk_of E)
      (\<lambda>a. g_add set_key_domain (dpdk_of E) (dns_api E) (Inr k) a (ttl_domain policy)) zero_node_domain
      (\<lambda>n. n\<lparr>solution_is_send := d\<rparr>) (world s, dns_state s) = Inr (w', c')"
    and keep: "cache_ok sd live key_domain (w', c')" "frame live (world s, dns_state s) (w', c')"
    and rest: "no_leak sd key_domain (dns_state s) \<longrightarrow> cache_view sd (dns_state s) k = None \<longrightarrow> no_leak sd key_domain c'"
      "cache_view sd c' = cache_view sd (dns_state s) \<or>
       (\<exists>ka. cache_view sd c' = (cache_view sd (dns_state s))(k \<mapsto>
         zero_node_domain\<lparr>solution_is_send := d, timestamp := node_stamp (dpdk_of E) (world s), ttl_seconds := word_of_int (ttl_domain policy),
           key_domain := Some ka\<rparr>))"
    using dns.remember_contract [OF proc_okD(2) [OF ok], of k "ttl_domain policy" zero_node_domain
        "\<lambda>n. n\<lparr>solution_is_send := d\<rparr>"] by (elim exE conjE) (rule that)
  have "remember_domain E policy info d s = Inr (s\<lparr>world := w', dns_state := c'\<rparr>)"
    using run by (simp add: remember_domain_common [OF name] k)
  moreover have "proc_clean si sd s \<longrightarrow> cache_view sd (dns_state s) k = None \<longrightarrow>
      proc_clean si sd (s\<lparr>world := w', dns_state := c'\<rparr>)"
    using rest(1) by (simp add: proc_clean_def)
  ultimately show ?thesis
    using proc_ok_dns [OF ok keep] rest(2) by (intro exI conjI)
qed

end

context proc_env
begin

abbreviation now :: "'w \<Rightarrow> 64 word" where "now w \<equiv> fst (rte_get_timer_cycles (dpdk_of E) w)"

abbreviation hz :: "64 word" where "hz \<equiv> rte_get_timer_hz (dpdk_of E)"

text \<open>The three ways an address is looked up, with what the processor does next.\<close>

lemma process_ip_outcomes:
  assumes ok: "proc_ok live si sd s"
  obtains (hit) n w' c' where "cache_view si (ip_state s) (ip_key_of info) = Some n"
      "\<not> expired (now (world s)) hz n"
      "proc_ok live si sd (s\<lparr>world := w', ip_state := c'\<rparr>)" "cache_view si c' = cache_view si (ip_state s)"
      "proc_clean si sd s \<Longrightarrow> proc_clean si sd (s\<lparr>world := w', ip_state := c'\<rparr>)"
      "process_ip E policy port_in port_out q a info s =
         package_sending_decision (net_of E) (ptypes_of E) (solution_is_send n) a port_in port_out q
           (s\<lparr>world := w', ip_state := c'\<rparr>)"
  | (miss) w' c' where "\<forall>n. cache_view si (ip_state s) (ip_key_of info) = Some n \<longrightarrow> expired (now (world s)) hz n"
      "proc_ok live si sd (s\<lparr>world := w', ip_state := c'\<rparr>)" "cache_view si c' (ip_key_of info) = None"
      "\<forall>k. k \<noteq> ip_key_of info \<longrightarrow> cache_view si c' k = cache_view si (ip_state s) k"
      "proc_clean si sd s \<Longrightarrow> proc_clean si sd (s\<lparr>world := w', ip_state := c'\<rparr>)"
      "process_ip E policy port_in port_out q a info s =
         rbind (worker_classify (rpc_of E) (instance_of s) (c_lit ''ip'') (ip_str_of info) (stack_of E w') w')
           (\<lambda>(ok, req, w).
         rbind (if ok then main_filtring_by_ip req policy info else Inr True) (\<lambda>d.
         rbind (package_sending_decision (net_of E) (ptypes_of E) d a port_in port_out q
                 (s\<lparr>world := w, ip_state := c'\<rparr>))
           (remember_ip E policy info d)))"
  | (null) w' where "cache_hash (ip_state s) = None" "proc_ok live si sd (s\<lparr>world := w'\<rparr>)"
      "process_ip E policy port_in port_out q a info s = drop_on_error a (s\<lparr>world := w'\<rparr>)"
  using proc_okD(1) [OF ok]
proof (cases rule: ip.ip.lookup_outcomes [where k = "ip_key_of info"])
  case (hit r b n w' c')
  have "process_ip E policy port_in port_out q a info s =
      package_sending_decision (net_of E) (ptypes_of E) (solution_is_send n) a port_in port_out q
        (s\<lparr>world := w', ip_state := c'\<rparr>)"
    using hit by (simp add: process_ip_def Let_def)
  with hit that(1) [of n c' w'] proc_ok_ip [OF ok hit(2,3)] show thesis
    by (simp add: proc_clean_def)
next
  case (miss w' c')
  have "process_ip E policy port_in port_out q a info s =
         rbind (worker_classify (rpc_of E) (instance_of s) (c_lit ''ip'') (ip_str_of info) (stack_of E w') w')
           (\<lambda>(ok, req, w).
         rbind (if ok then main_filtring_by_ip req policy info else Inr True) (\<lambda>d.
         rbind (package_sending_decision (net_of E) (ptypes_of E) d a port_in port_out q
                 (s\<lparr>world := w, ip_state := c'\<rparr>))
           (remember_ip E policy info d)))"
    using miss(1) by (simp add: process_ip_def Let_def world_first)
  with miss that(2) [of c' w'] proc_ok_ip [OF ok miss(2,3)] show thesis
    by (simp add: proc_clean_def)
next
  case (null w')
  have same: "s\<lparr>world := w', ip_state := ip_state s\<rparr> = s\<lparr>world := w'\<rparr>" by simp
  have "process_ip E policy port_in port_out q a info s = drop_on_error a (s\<lparr>world := w'\<rparr>)"
    using null(1) same by (simp add: process_ip_def Let_def)
  with null that(3) [of w'] proc_ok_ip [OF ok null(3,4)] same show thesis by simp
qed

text \<open>A valid entry decides, whatever the policy is.\<close>

lemma process_ip_hit:
  assumes ok: "proc_ok live si sd s"
    and n: "cache_view si (ip_state s) (ip_key_of info) = Some n" "\<not> expired (now (world s)) hz n"
  shows "\<exists>w' c'. cache_view si c' = cache_view si (ip_state s) \<and>
     (\<forall>policy. process_ip E policy port_in port_out q a info s =
       package_sending_decision (net_of E) (ptypes_of E) (solution_is_send n) a port_in port_out q
         (s\<lparr>world := w', ip_state := c'\<rparr>))"
  using proc_okD(1) [OF ok]
proof (cases rule: ip.ip.lookup_outcomes [where k = "ip_key_of info"])
  case (hit r b m w' c')
  then show ?thesis
    using n by (intro exI [of _ w'] exI [of _ c']) (simp add: process_ip_def Let_def)
next
  case (null w')
  with n show ?thesis by (simp add: cache_view_def)
qed (use n in auto)

lemma process_domain_outcomes:
  assumes ok: "proc_ok live si sd s"
  obtains (hit) n w' c' where "cache_view sd (dns_state s) (domain info) = Some n"
      "\<not> expired (now (world s)) hz n"
      "proc_ok live si sd (s\<lparr>world := w', dns_state := c'\<rparr>)" "cache_view sd c' = cache_view sd (dns_state s)"
      "proc_clean si sd s \<Longrightarrow> proc_clean si sd (s\<lparr>world := w', dns_state := c'\<rparr>)"
      "process_domain E policy port_in port_out q a info s =
         package_sending_decision (net_of E) (ptypes_of E) (solution_is_send n) a port_in port_out q
           (s\<lparr>world := w', dns_state := c'\<rparr>)"
  | (miss) w' c' where "\<forall>n. cache_view sd (dns_state s) (domain info) = Some n \<longrightarrow> expired (now (world s)) hz n"
      "proc_ok live si sd (s\<lparr>world := w', dns_state := c'\<rparr>)" "cache_view sd c' (domain info) = None"
      "\<forall>k. k \<noteq> domain info \<longrightarrow> cache_view sd c' k = cache_view sd (dns_state s) k"
      "proc_clean si sd s \<Longrightarrow> proc_clean si sd (s\<lparr>world := w', dns_state := c'\<rparr>)"
      "process_domain E policy port_in port_out q a info s =
         rbind (worker_classify (rpc_of E) (instance_of s) (c_lit ''domain'') (domain info) (stack_of E w') w')
           (\<lambda>(ok, req, w).
         rbind (if ok then main_filtring_by_domain req policy info else Inr True) (\<lambda>d.
         rbind (package_sending_decision (net_of E) (ptypes_of E) d a port_in port_out q
                 (s\<lparr>world := w, dns_state := c'\<rparr>))
           (remember_domain E policy info d)))"
  | (null) w' where "cache_hash (dns_state s) = None" "proc_ok live si sd (s\<lparr>world := w'\<rparr>)"
      "process_domain E policy port_in port_out q a info s = drop_on_error a (s\<lparr>world := w'\<rparr>)"
  using proc_okD(2) [OF ok]
proof (cases rule: dns.dns.lookup_outcomes [where k = "domain info"])
  case (hit r b n w' c')
  have "process_domain E policy port_in port_out q a info s =
      package_sending_decision (net_of E) (ptypes_of E) (solution_is_send n) a port_in port_out q
        (s\<lparr>world := w', dns_state := c'\<rparr>)"
    using hit by (simp add: process_domain_def Let_def)
  with hit that(1) [of n c' w'] proc_ok_dns [OF ok hit(2,3)] show thesis
    by (simp add: proc_clean_def)
next
  case (miss w' c')
  have "process_domain E policy port_in port_out q a info s =
         rbind (worker_classify (rpc_of E) (instance_of s) (c_lit ''domain'') (domain info) (stack_of E w') w')
           (\<lambda>(ok, req, w).
         rbind (if ok then main_filtring_by_domain req policy info else Inr True) (\<lambda>d.
         rbind (package_sending_decision (net_of E) (ptypes_of E) d a port_in port_out q
                 (s\<lparr>world := w, dns_state := c'\<rparr>))
           (remember_domain E policy info d)))"
    using miss(1) by (simp add: process_domain_def Let_def world_first)
  with miss that(2) [of c' w'] proc_ok_dns [OF ok miss(2,3)] show thesis
    by (simp add: proc_clean_def)
next
  case (null w')
  have same: "s\<lparr>world := w', dns_state := dns_state s\<rparr> = s\<lparr>world := w'\<rparr>" by simp
  have "process_domain E policy port_in port_out q a info s = drop_on_error a (s\<lparr>world := w'\<rparr>)"
    using null(1) same by (simp add: process_domain_def Let_def)
  with null that(3) [of w'] proc_ok_dns [OF ok null(3,4)] same show thesis by simp
qed

end

text \<open>What is not a packet or a port does not matter for its disposal.\<close>

lemma handled_before [simp]:
  "handled a (s\<lparr>world := w\<rparr>) s' = handled a s s'" "handled a (s\<lparr>ip_state := ci\<rparr>) s' = handled a s s'"
  "handled a (s\<lparr>dns_state := cd\<rparr>) s' = handled a s s'" "handled a (s\<lparr>instance_of := record_packet_received (instance_of s)\<rparr>) s' = handled a s s'"
  by (simp_all add: handled_def)

lemma handled_after [simp]:
  "handled a s (s'\<lparr>world := w\<rparr>) = handled a s s'" "handled a s (s'\<lparr>ip_state := ci\<rparr>) = handled a s s'"
  "handled a s (s'\<lparr>dns_state := cd\<rparr>) = handled a s s'"
  by (simp_all add: handled_def)

lemma proc_ok_instance [simp]: "proc_ok live si sd (s\<lparr>instance_of := wk\<rparr>) = proc_ok live si sd s"
  by (simp add: proc_ok_def)

lemma proc_clean_rest [simp]:
  "proc_clean si sd (s\<lparr>instance_of := wk\<rparr>) = proc_clean si sd s" "proc_clean si sd (s\<lparr>world := w\<rparr>) = proc_clean si sd s"
  by (simp_all add: proc_clean_def)

context proc_env
begin

lemma process_ip_safe:
  assumes ok: "proc_ok live si sd s" and pkt: "mbufs s a = Some pkt" "26 \<le> length (mb_buf pkt)"
    and out: "wf_port (ports s port_out)" and policy: "wf_policy policy" and info: "wf_info info"
    and ans: "answering E live policy"
  shows "\<exists>s'. process_ip E policy port_in port_out q a info s = Inr s' \<and> proc_ok live si sd s' \<and>
     handled a s s' \<and> (proc_clean si sd s \<longrightarrow> proc_clean si sd s')"
  using ok
proof (cases rule: process_ip_outcomes [where info = info and policy = policy and port_in = port_in
      and port_out = port_out and q = q and a = a])
  case (hit n w' c')
  then show ?thesis
    using decision_safe [OF hit(3), of a pkt port_out "solution_is_send n" port_in q] pkt out by auto
next
  case (miss w' c')
  obtain ok req w2 d where classified: "worker_classify (rpc_of E) (instance_of s) (c_lit ''ip'') (ip_str_of info)
      (stack_of E w') w' = Inr (ok, req, w2)" "live w2 = live w'"
    and d: "(if ok then main_filtring_by_ip req policy info else Inr True) = Inr d"
    by (rule answering_decides [OF ans policy info, of "c_lit ''ip''" "ip_str_of info" "instance_of s" w']) auto
  let ?s = "s\<lparr>world := w2, ip_state := c'\<rparr>"
  have ok2: "proc_ok live si sd ?s"
    using proc_ok_world [OF miss(2), of w2] classified(2) by (simp add: world_first)
  obtain s3 where s3: "package_sending_decision (net_of E) (ptypes_of E) d a port_in port_out q ?s = Inr s3"
    "proc_ok live si sd s3" "proc_clean si sd s3 \<longleftrightarrow> proc_clean si sd ?s" "handled a ?s s3" "ip_state s3 = c'"
    using decision_safe [OF ok2, of a pkt port_out d port_in q] pkt out by auto
  have "proc_clean si sd s \<Longrightarrow> proc_clean si sd s3"
    using miss(5) s3(3) by (simp add: proc_clean_def)
  with remember_ip_safe [OF s3(2), of policy info d] s3 miss(3,6) classified(1) d show ?thesis
    by auto
next
  case (null w')
  then show ?thesis
    using drop_on_error_safe [OF null(2), of a pkt] pkt by auto
qed

end

context proc_env
begin

lemma process_domain_safe:
  assumes ok: "proc_ok live si sd s" and pkt: "mbufs s a = Some pkt" "26 \<le> length (mb_buf pkt)"
    and out: "wf_port (ports s port_out)" and policy: "wf_policy policy" and info: "wf_info info"
    and ans: "answering E live policy"
  shows "\<exists>s'. process_domain E policy port_in port_out q a info s = Inr s' \<and> proc_ok live si sd s' \<and>
     handled a s s' \<and> (canonical (domain info) \<longrightarrow> proc_clean si sd s \<longrightarrow> proc_clean si sd s')"
  using ok
proof (cases rule: process_domain_outcomes [where info = info and policy = policy and port_in = port_in
      and port_out = port_out and q = q and a = a])
  case (hit n w' c')
  then show ?thesis
    using decision_safe [OF hit(3), of a pkt port_out "solution_is_send n" port_in q] pkt out by auto
next
  case (miss w' c')
  have name: "nul_term (domain info)" using info by (simp add: wf_info_def)
  obtain ok req w2 d where classified: "worker_classify (rpc_of E) (instance_of s) (c_lit ''domain'') (domain info)
      (stack_of E w') w' = Inr (ok, req, w2)" "live w2 = live w'"
    and d: "(if ok then main_filtring_by_domain req policy info else Inr True) = Inr d"
    by (rule answering_decides [OF ans policy info _ name, of "c_lit ''domain''" "instance_of s" w']) auto
  let ?s = "s\<lparr>world := w2, dns_state := c'\<rparr>"
  have ok2: "proc_ok live si sd ?s"
    using proc_ok_world [OF miss(2), of w2] classified(2) by (simp add: world_first)
  obtain s3 where s3: "package_sending_decision (net_of E) (ptypes_of E) d a port_in port_out q ?s = Inr s3"
    "proc_ok live si sd s3" "proc_clean si sd s3 \<longleftrightarrow> proc_clean si sd ?s" "handled a ?s s3" "dns_state s3 = c'"
    using decision_safe [OF ok2, of a pkt port_out d port_in q] pkt out by auto
  have "proc_clean si sd s \<Longrightarrow> proc_clean si sd s3"
    using miss(5) s3(3) by (simp add: proc_clean_def)
  moreover have "canonical (domain info) \<Longrightarrow> cache_view sd c' (pad_str DOMAIN_MAX_LEN (cstr (domain info))) = None"
    using miss(3) by (simp add: canonical_def)
  ultimately show ?thesis
    using remember_domain_safe [OF s3(2) name refl, of policy d] s3 miss(6) classified(1) d by auto
next
  case (null w')
  then show ?thesis
    using drop_on_error_safe [OF null(2), of a pkt] pkt by auto
qed

lemma process_packet_steps:
  assumes "mbufs s a = Some pkt" "parsing_pakage (ptypes_of E) pkt zero_info = Inr info"
  shows "process_packet E policy port_in port_out port_exception q a s =
      (let s = s\<lparr>instance_of := record_packet_received (instance_of s)\<rparr> in
       if number_port info = bswap16 22
       then package_sending_decision (net_of E) (ptypes_of E) True a port_in port_exception q s
       else if domain info ! 0 = 0 then process_ip E policy port_in port_out q a info s
       else process_domain E policy port_in port_out q a info s)"
proof -
  have "wf_info info" by (rule parse_wf [OF wf_zero_info assms(2)])
  then have "rget (domain info) 0 = Inr (domain info ! 0)" by (simp add: wf_info_def)
  with assms show ?thesis
    by (simp add: process_packet_def Let_def check_is_exception_eq)
qed

lemma process_packet_safe:
  assumes ok: "proc_ok live si sd s" and pkt: "mbufs s a = Some pkt" "26 \<le> length (mb_buf pkt)"
    and parsed: "parsing_pakage (ptypes_of E) pkt zero_info = Inr info"
    and out: "wf_port (ports s port_out)" "wf_port (ports s port_exception)"
    and policy: "wf_policy policy" and ans: "answering E live policy"
  shows "\<exists>s'. process_packet E policy port_in port_out port_exception q a s = Inr s' \<and> proc_ok live si sd s' \<and>
     handled a s s' \<and> (canonical (domain info) \<longrightarrow> proc_clean si sd s \<longrightarrow> proc_clean si sd s')"
proof -
  have info: "wf_info info" by (rule parse_wf [OF wf_zero_info parsed])
  let ?s = "s\<lparr>instance_of := record_packet_received (instance_of s)\<rparr>"
  show ?thesis
    unfolding process_packet_steps [OF pkt(1) parsed] Let_def
    using ok pkt out process_ip_safe [of ?s a pkt port_out policy info port_in q]
      process_domain_safe [of ?s a pkt port_out policy info port_in q]
      decision_safe [of ?s a pkt port_exception True port_in q] policy info ans
    by auto
qed

end

section \<open>A burst of packets\<close>

text \<open>All the mbufs that have left the program's hands.\<close>

definition disposals :: "('w, 'hi, 'hd, 'db) proc_state \<Rightarrow> addr multiset" where
  "disposals s = mset (map fst (sent s)) + mset (freed s)"

lemma disposals_handled: "handled a s s' \<Longrightarrow> disposals s' = add_mset a (disposals s)"
  by (auto simp: handled_def disposals_def)

lemma burst_handled:
  assumes step: "\<And>s a. I s \<Longrightarrow> a \<in> set as \<Longrightarrow> mbufs s a = m a \<Longrightarrow>
      \<exists>s'. body a s = Inr s' \<and> I s' \<and> handled a s s'"
    and "distinct as" "I s" "\<And>b. b \<in> set as \<Longrightarrow> mbufs s b = m b"
  shows "\<exists>s'. c_fold as body s = Inr s' \<and> I s' \<and> mbufs s' = mbufs s |` (- set as) \<and>
     disposals s' = disposals s + mset as"
  using assms
proof (induction as arbitrary: s)
  case (Cons a as)
  obtain s1 where s1: "body a s = Inr s1" "I s1" "handled a s s1"
    using Cons.prems(1) [OF Cons.prems(3), of a] Cons.prems(4) [of a] by (metis list.set_intros(1))
  have rest: "mbufs s1 b = m b" if "b \<in> set as" for b
  proof -
    have "b \<noteq> a" using Cons.prems(2) that by auto
    then show ?thesis using s1(3) Cons.prems(4) [of b] that by (simp add: handled_def)
  qed
  have distinct: "distinct as" using Cons.prems(2) by simp
  have step: "\<exists>s'. body b t = Inr s' \<and> I s' \<and> handled b t s'"
    if "I t" "b \<in> set as" "mbufs t b = m b" for t b
    using Cons.prems(1) [OF that(1) _ that(3)] that(2) by simp
  obtain s' where s': "c_fold as body s1 = Inr s'" "I s'" "mbufs s' = mbufs s1 |` (- set as)"
    "disposals s' = disposals s1 + mset as"
    using Cons.IH [OF step distinct s1(2) rest] by blast
  have "mbufs s' = mbufs s |` (- set (a # as))"
    using s'(3) s1(3) by (auto simp: handled_def restrict_map_def fun_eq_iff)
  with s' s1 disposals_handled [OF s1(3)] show ?case by simp
qed (simp add: restrict_map_def)

lemma received_lookup:
  "(a, pkt) \<in> set pkts \<Longrightarrow> distinct (map fst pkts) \<Longrightarrow> (m ++ map_of pkts) a = Some pkt"
  by (simp add: map_add_def)

lemma restrict_received: "(m ++ map_of pkts) |` (- set (map fst pkts)) = m |` (- fst ` set pkts)"
proof
  fix a
  show "((m ++ map_of pkts) |` (- set (map fst pkts))) a = (m |` (- fst ` set pkts)) a"
    by (cases "a \<in> fst ` set pkts") (simp_all add: restrict_map_def map_add_def map_of_eq_None_iff [THEN iffD2])
qed

text \<open>The packets of a burst that was just received.\<close>

lemma burst_received:
  assumes distinct: "distinct (map fst pkts)" and s1: "s1 = s\<lparr>world := w, mbufs := mbufs s ++ map_of pkts\<rparr>"
    and step: "\<And>t a pkt. I t \<Longrightarrow> (a, pkt) \<in> set pkts \<Longrightarrow> mbufs t a = Some pkt \<Longrightarrow>
      \<exists>s'. body a t = Inr s' \<and> I s' \<and> handled a t s'"
    and I: "I s1"
  shows "\<exists>s'. c_fold (map fst pkts) body s1 = Inr s' \<and> I s' \<and> mbufs s' = mbufs s |` (- fst ` set pkts) \<and>
     disposals s' = disposals s + mset (map fst pkts)"
proof -
  have one: "\<exists>s'. body a t = Inr s' \<and> I s' \<and> handled a t s'"
    if t: "I t" "a \<in> set (map fst pkts)" "mbufs t a = mbufs s1 a" for t a
  proof -
    obtain pkt where a: "(a, pkt) \<in> set pkts" using t(2) by auto
    then show ?thesis
      using step [OF t(1) a] t(3) received_lookup [OF a distinct] by (simp add: s1)
  qed
  have "\<exists>s'. c_fold (map fst pkts) body s1 = Inr s' \<and> I s' \<and> mbufs s' = mbufs s1 |` (- set (map fst pkts)) \<and>
      disposals s' = disposals s1 + mset (map fst pkts)"
    by (rule burst_handled [where m = "mbufs s1"]) (rule one distinct I refl; assumption?)+
  then show ?thesis
    using restrict_received [of "mbufs s" pkts] by (simp add: s1 disposals_def)
qed

definition kept :: "('w, 'hi, 'hd, 'db) proc_state \<Rightarrow> ('w, 'hi, 'hd, 'db) proc_state \<Rightarrow> bool" where
  "kept s s' \<longleftrightarrow>
     (\<forall>p. wf_port (ports s p) \<longrightarrow> wf_port (ports s' p)) \<and> configuration (instance_of s') = configuration (instance_of s)"

lemma kept_handled: "kept s t \<Longrightarrow> handled a t s' \<Longrightarrow> kept s s'"
  by (simp add: kept_def handled_def)

lemma kept_refl [simp]: "kept s s" "kept s (s\<lparr>world := w, mbufs := m\<rparr>)"
  by (simp_all add: kept_def)

lemma kept_trans: "kept s t \<Longrightarrow> kept t u \<Longrightarrow> kept s u"
  by (simp add: kept_def)

lemma kept_port: "kept s s' \<Longrightarrow> wf_port (ports s p) \<Longrightarrow> wf_port (ports s' p)"
  by (simp add: kept_def)

definition received :: "('w, 'hi, 'hd) env \<Rightarrow> addr \<Rightarrow> 16 word \<Rightarrow> 16 word \<Rightarrow> ('w, 'hi, 'hd, 'db) proc_state \<Rightarrow> (addr \<times> mbuf) list" where
  "received E port q n s = fst (rte_eth_rx_burst (net_of E) (port_id (ports s port)) q n (world s))"

context proc_env
begin

lemma rx_run:
  assumes "proc_ok live si sd s"
  shows "\<exists>w. rx_packets (net_of E) port q n s =
       (map fst (received E port q n s), s\<lparr>world := w, mbufs := mbufs s ++ map_of (received E port q n s)\<rparr>) \<and>
     proc_ok live si sd (s\<lparr>world := w, mbufs := mbufs s ++ map_of (received E port q n s)\<rparr>) \<and>
     distinct (map fst (received E port q n s))"
proof -
  obtain pkts w where rx: "rte_eth_rx_burst (net_of E) (port_id (ports s port)) q n (world s) = (pkts, w)" by fastforce
  then have "live w = live (world s)" "distinct (map fst pkts)"
    using rx_live [of "port_id (ports s port)" q n "world s"] rx_distinct [of "port_id (ports s port)" q n "world s"]
    by simp_all
  with rx assms show ?thesis
    by (intro exI [of _ w]) (simp add: rx_packets_def received_def proc_ok_def cache_ok_def)
qed

lemma processing_safe:
  assumes ok: "proc_ok live si sd s"
    and pkts: "\<And>a pkt. (a, pkt) \<in> set (received E port_in q n s) \<Longrightarrow>
      26 \<le> length (mb_buf pkt) \<and> (\<exists>info. parsing_pakage (ptypes_of E) pkt zero_info = Inr info)"
    and out: "wf_port (ports s port_out)" "wf_port (ports s port_exception)"
    and policy: "wf_policy policy" and ans: "answering E live policy"
  shows "\<exists>s'. pakage_processing E port_in port_out port_exception q n policy False s = Inr s' \<and>
     proc_ok live si sd s' \<and> mbufs s' = mbufs s |` (- fst ` set (received E port_in q n s)) \<and>
     disposals s' = disposals s + mset (map fst (received E port_in q n s)) \<and> kept s s'"
proof -
  let ?pkts = "received E port_in q n s"
  let ?I = "\<lambda>t. proc_ok live si sd t \<and> kept s t"
  obtain w where rx: "rx_packets (net_of E) port_in q n s =
      (map fst ?pkts, s\<lparr>world := w, mbufs := mbufs s ++ map_of ?pkts\<rparr>)"
    and ok1: "proc_ok live si sd (s\<lparr>world := w, mbufs := mbufs s ++ map_of ?pkts\<rparr>)"
    and distinct: "distinct (map fst ?pkts)"
    using rx_run [OF ok] by blast
  have step: "\<exists>s'. process_packet E policy port_in port_out port_exception q a t = Inr s' \<and> ?I s' \<and> handled a t s'"
    if t: "?I t" "(a, pkt) \<in> set ?pkts" "mbufs t a = Some pkt" for t a pkt
  proof -
    obtain info where info: "26 \<le> length (mb_buf pkt)" "parsing_pakage (ptypes_of E) pkt zero_info = Inr info"
      using pkts [OF t(2)] by blast
    obtain s' where "process_packet E policy port_in port_out port_exception q a t = Inr s'"
      "proc_ok live si sd s'" "handled a t s'"
      using process_packet_safe [OF _ t(3) info _ _ policy ans] t(1) kept_port out by blast
    then show ?thesis
      using t(1) kept_handled by blast
  qed
  have "\<exists>s'. c_fold (map fst ?pkts) (process_packet E policy port_in port_out port_exception q)
      (s\<lparr>world := w, mbufs := mbufs s ++ map_of ?pkts\<rparr>) = Inr s' \<and> ?I s' \<and>
      mbufs s' = mbufs s |` (- fst ` set ?pkts) \<and> disposals s' = disposals s + mset (map fst ?pkts)"
  proof (rule burst_received [where I = ?I, OF distinct refl])
    show "?I (s\<lparr>world := w, mbufs := mbufs s ++ map_of ?pkts\<rparr>)" using ok1 out by simp
  qed (rule step)
  then show ?thesis
    unfolding pakage_processing_def rx by auto
qed

text \<open>With filtering turned off the caches are not touched.\<close>

lemma processing_off:
  assumes ok: "proc_ok live si sd s" and out: "wf_port (ports s port_out)"
    and pkts: "\<And>a pkt. (a, pkt) \<in> set (received E port_in q n s) \<Longrightarrow> 26 \<le> length (mb_buf pkt)"
  shows "\<exists>s'. pakage_processing E port_in port_out port_exception q n policy True s = Inr s' \<and>
     proc_ok live si sd s' \<and> ip_state s' = ip_state s \<and> dns_state s' = dns_state s \<and>
     mbufs s' = mbufs s |` (- fst ` set (received E port_in q n s)) \<and>
     disposals s' = disposals s + mset (map fst (received E port_in q n s)) \<and> kept s s'"
proof -
  let ?pkts = "received E port_in q n s"
  let ?I = "\<lambda>t. proc_ok live si sd t \<and> kept s t \<and> ip_state t = ip_state s \<and> dns_state t = dns_state s"
  let ?body = "\<lambda>a t. package_sending_decision (net_of E) (ptypes_of E) True a port_in port_out q
    (t\<lparr>instance_of := record_packet_received (instance_of t)\<rparr>)"
  obtain w where rx: "rx_packets (net_of E) port_in q n s =
      (map fst ?pkts, s\<lparr>world := w, mbufs := mbufs s ++ map_of ?pkts\<rparr>)"
    and ok1: "proc_ok live si sd (s\<lparr>world := w, mbufs := mbufs s ++ map_of ?pkts\<rparr>)"
    and distinct: "distinct (map fst ?pkts)"
    using rx_run [OF ok] by blast
  have step: "\<exists>s'. ?body a t = Inr s' \<and> ?I s' \<and> handled a t s'"
    if t: "?I t" "(a, pkt) \<in> set ?pkts" "mbufs t a = Some pkt" for t a pkt
  proof -
    let ?t = "t\<lparr>instance_of := record_packet_received (instance_of t)\<rparr>"
    obtain s' where s': "?body a t = Inr s'" "proc_ok live si sd s'" "handled a ?t s'" "ip_state s' = ip_state ?t"
      "dns_state s' = dns_state ?t"
      using decision_safe [of ?t a pkt port_out True port_in q] t pkts [OF t(2)] kept_port [OF _ out] by auto
    then show ?thesis using t(1) kept_handled [of s t a s'] by simp
  qed
  have "\<exists>s'. c_fold (map fst ?pkts) ?body
      (s\<lparr>world := w, mbufs := mbufs s ++ map_of ?pkts\<rparr>) = Inr s' \<and> ?I s' \<and>
      mbufs s' = mbufs s |` (- fst ` set ?pkts) \<and> disposals s' = disposals s + mset (map fst ?pkts)"
  proof (rule burst_received [where I = ?I, OF distinct refl])
    show "?I (s\<lparr>world := w, mbufs := mbufs s ++ map_of ?pkts\<rparr>)" using ok1 out by simp
  qed (rule step)
  then show ?thesis
    unfolding pakage_processing_def rx by auto
qed

end

context proc_env
begin

text \<open>An address that is not cached: what is decided, and what is stored.\<close>

lemma process_ip_miss:
  assumes ok: "proc_ok live si sd s" and pkt: "mbufs s a = Some pkt" "26 \<le> length (mb_buf pkt)"
    and out: "wf_port (ports s port_out)" and policy: "wf_policy policy" and info: "wf_info info"
    and ans: "answering E live policy" and h: "cache_hash (ip_state s) \<noteq> None"
    and fresh: "\<forall>n. cache_view si (ip_state s) (ip_key_of info) = Some n \<longrightarrow> expired (now (world s)) hz n"
  shows "\<exists>success req w w' d s'.
     worker_classify (rpc_of E) (instance_of s) (c_lit ''ip'') (ip_str_of info) (stack_of E w) w = Inr (success, req, w') \<and>
     (if success then main_filtring_by_ip req policy info else Inr True) = Inr d \<and>
     process_ip E policy port_in port_out q a info s = Inr s' \<and> proc_ok live si sd s' \<and> handled a s s' \<and>
     (d \<or> sent s' = sent s) \<and> dns_state s' = dns_state s \<and>
     (\<forall>k. k \<noteq> ip_key_of info \<longrightarrow> cache_view si (ip_state s') k = cache_view si (ip_state s) k) \<and>
     (case cache_view si (ip_state s') (ip_key_of info) of None \<Rightarrow> True
      | Some n \<Rightarrow> solution_is_send n = d \<and> ttl_seconds n = word_of_int (ttl_ip policy))"
  using ok
proof (cases rule: process_ip_outcomes [where info = info and policy = policy and port_in = port_in
      and port_out = port_out and q = q and a = a])
  case (miss w' c')
  obtain success req w2 d where classified: "worker_classify (rpc_of E) (instance_of s) (c_lit ''ip'') (ip_str_of info)
      (stack_of E w') w' = Inr (success, req, w2)" "live w2 = live w'"
    and d: "(if success then main_filtring_by_ip req policy info else Inr True) = Inr d"
    by (rule answering_decides [OF ans policy info, of "c_lit ''ip''" "ip_str_of info" "instance_of s" w']) auto
  let ?s = "s\<lparr>world := w2, ip_state := c'\<rparr>"
  have ok2: "proc_ok live si sd ?s"
    using proc_ok_world [OF miss(2), of w2] classified(2) by (simp add: world_first)
  obtain s3 where s3: "package_sending_decision (net_of E) (ptypes_of E) d a port_in port_out q ?s = Inr s3"
    "proc_ok live si sd s3" "handled a ?s s3" "ip_state s3 = c'" "dns_state s3 = dns_state s"
    using decision_safe [OF ok2, of a pkt port_out d port_in q] pkt out by auto
  have quiet: "d \<or> sent s3 = sent s"
    using s3(1) pkt by (auto simp: package_sending_decision_def rte_pktmbuf_free_def split: if_splits)
  obtain w4 c4 where s4: "remember_ip E policy info d s3 = Inr (s3\<lparr>world := w4, ip_state := c4\<rparr>)"
    "proc_ok live si sd (s3\<lparr>world := w4, ip_state := c4\<rparr>)"
    and view: "cache_view si c4 = cache_view si c' \<or>
      (\<exists>ka. cache_view si c4 = (cache_view si c')(ip_key_of info \<mapsto>
         zero_node_ip\<lparr>solution_is_send := d, timestamp := node_stamp (dpdk_of E) (world s3),
           ttl_seconds := word_of_int (ttl_ip policy), key := Some ka\<rparr>))"
    using remember_ip_safe [OF s3(2), of policy info d] unfolding s3(4) by blast
  have run: "process_ip E policy port_in port_out q a info s = Inr (s3\<lparr>world := w4, ip_state := c4\<rparr>)"
    using miss(6) classified(1) d s3(1) s4(1) by simp
  have "(\<forall>k. k \<noteq> ip_key_of info \<longrightarrow> cache_view si c4 k = cache_view si (ip_state s) k) \<and>
     (case cache_view si c4 (ip_key_of info) of None \<Rightarrow> True
      | Some n \<Rightarrow> solution_is_send n = d \<and> ttl_seconds n = word_of_int (ttl_ip policy))"
    using view miss(3,4) by (elim disjE exE) simp_all
  then show ?thesis
    using classified(1) d run s4(2) s3(3,5) quiet
    by (intro exI conjI) (assumption | simp)+
qed (use fresh h in auto)

end

text \<open>
  A name that is not canonical, because a label holds a zero byte.  It is looked up by its array
  and stored under its C string, so it stays uncached; each packet stores another node, and
  drops the one it replaces without freeing it.
\<close>

context proc_env
begin

lemma process_domain_uncanonical:
  assumes ok: "proc_ok live si sd s" and pkt: "mbufs s a = Some pkt" "26 \<le> length (mb_buf pkt)"
    and out: "wf_port (ports s port_out)" and policy: "wf_policy policy" and info: "wf_info info"
    and ans: "answering E live policy" and h: "cache_hash (dns_state s) \<noteq> None"
    and k: "k = pad_str DOMAIN_MAX_LEN (cstr (domain info))" "domain info \<noteq> k"
    and view: "cache_view sd (dns_state s) (domain info) = None"
  shows "\<exists>s'. process_domain E policy port_in port_out q a info s = Inr s' \<and> proc_ok live si sd s' \<and> handled a s s' \<and>
     cache_view sd (dns_state s') (domain info) = None \<and>
     (cache_view sd (dns_state s) k \<noteq> None \<longrightarrow>
        cache_view sd (dns_state s') = cache_view sd (dns_state s) \<or> \<not> no_leak sd key_domain (dns_state s'))"
  using ok
proof (cases rule: process_domain_outcomes [where info = info and policy = policy and port_in = port_in
      and port_out = port_out and q = q and a = a])
  case (miss w' c')
  have name: "nul_term (domain info)" using info by (simp add: wf_info_def)
  obtain success req w2 d where classified: "worker_classify (rpc_of E) (instance_of s) (c_lit ''domain'') (domain info)
      (stack_of E w') w' = Inr (success, req, w2)" "live w2 = live w'"
    and d: "(if success then main_filtring_by_domain req policy info else Inr True) = Inr d"
    by (rule answering_decides [OF ans policy info _ name, of "c_lit ''domain''" "instance_of s" w']) auto
  let ?s = "s\<lparr>world := w2, dns_state := c'\<rparr>"
  have ok2: "proc_ok live si sd ?s"
    using proc_ok_world [OF miss(2), of w2] classified(2) by (simp add: world_first)
  obtain s3 where s3: "package_sending_decision (net_of E) (ptypes_of E) d a port_in port_out q ?s = Inr s3"
    "proc_ok live si sd s3" "handled a ?s s3" "dns_state s3 = c'"
    using decision_safe [OF ok2, of a pkt port_out d port_in q] pkt out by auto
  have same: "cache_view sd c' = cache_view sd (dns_state s)"
  proof (rule ext)
    show "cache_view sd c' k' = cache_view sd (dns_state s) k'" for k'
      using miss(3,4) view by (cases "k' = domain info") simp_all
  qed
  obtain w4 c4 where s4: "remember_domain E policy info d s3 = Inr (s3\<lparr>world := w4, dns_state := c4\<rparr>)"
    "proc_ok live si sd (s3\<lparr>world := w4, dns_state := c4\<rparr>)" "cache_view sd c4 (domain info) = None"
    using remember_domain_safe [OF s3(2) name k(1), of policy d] k(2) miss(3) unfolding s3(4) by fastforce
  have leak: "c4 = c' \<or> \<not> no_leak sd key_domain c4" if "cache_view sd (dns_state s) k \<noteq> None"
  proof -
    have "g_remember (dpdk_of E) (\<lambda>a. g_add set_key_domain (dpdk_of E) (dns_api E) (Inr k) a (ttl_domain policy))
        zero_node_domain (\<lambda>n. n\<lparr>solution_is_send := d\<rparr>) (world s3, c') = Inr (w4, c4)"
      using s4(1) s3(4)
      by (auto simp: remember_domain_common [OF name] k(1) rbind_eq_Inr_iff dest!: same_update)
    from dns.remember_replaces [OF _ _ this] that proc_okD(2) [OF s3(2)] s3(4) same show ?thesis by simp
  qed
  have "process_domain E policy port_in port_out q a info s = Inr (s3\<lparr>world := w4, dns_state := c4\<rparr>)"
    using miss(6) classified(1) d s3(1) s4(1) by simp
  then show ?thesis using s4(2,3) s3(3) leak same
    by (intro exI [of _ "s3\<lparr>world := w4, dns_state := c4\<rparr>"] conjI) auto
qed (use h view in auto)

end

end
