(* ===== verification/Proc_Props.thy ===== *)
theory Proc_Props
  imports Proc_Packets
begin

text \<open>
  The properties of the packet processor, and the concrete environment on which they are
  instantiated: the reference table and allocator of \<open>Dpdk\<close>, devices that receive one packet
  and take every frame, and a controller that does not answer.
\<close>

section \<open>A concrete environment\<close>

definition small_packet :: mbuf where
  "small_packet = \<lparr>mb_buf = replicate 64 9, data_len = 64\<rparr>"

definition one_packet_net :: "'w net_api" where
  "one_packet_net = \<lparr>rte_eth_rx_burst = (\<lambda>p q n w. ([(7, small_packet)], w)),
     rte_eth_tx_burst = (\<lambda>p q m w. (1, w)), rte_ipv4_cksum = (\<lambda>ip. 0)\<rparr>"

definition silent_rpc :: "'w rpc" where
  "silent_rpc = \<lparr>Classify = (\<lambda>i type target w. (None, w)), GetPolicy = (\<lambda>i v w. (None, w))\<rparr>"

definition ref_env :: "32 word \<Rightarrow> ('a ref_world_scheme, (ip_key \<times> addr) list, (byte list \<times> addr) list) env" where
  "ref_env t =
     \<lparr>net_of = one_packet_net, ptypes_of = sample_ptypes t, dpdk_of = ref_dpdk,
      ip_api = ref_hash CACHE_SIZE, dns_api = ref_hash CACHE_SIZE, rpc_of = silent_rpc,
      stack_of = (\<lambda>_. empty_class)\<rparr>"

interpretation ref_proc: proc_env "ref_env t" ref_live "ref_slots CACHE_SIZE" "ref_slots CACHE_SIZE"
proof -
  have "proc_env_axioms (ref_env t) ref_live"
    by unfold_locales (simp_all add: ref_env_def one_packet_net_def)
  moreover have "ip_env (dpdk_of (ref_env t)) ref_live (ip_api (ref_env t)) (ref_slots CACHE_SIZE)"
    "dns_env (dpdk_of (ref_env t)) ref_live (dns_api (ref_env t)) (ref_slots CACHE_SIZE)"
    using ref_ip.ip_env_axioms ref_dns.dns_env_axioms by (simp_all add: ref_env_def)
  ultimately show "proc_env (ref_env t) ref_live (ref_slots CACHE_SIZE) (ref_slots CACHE_SIZE)"
    by (simp add: proc_env_def)
qed

text \<open>A controller that does not answer is an environment in which every decision is defined.\<close>

lemma silent_answering: "answering (ref_env t) live policy"
  by (simp add: answering_def ref_env_def worker_classify_def classify_def silent_rpc_def split: option.splits) auto

definition empty_dns_cache :: "((byte list \<times> addr) list, unit) dns_cache" where
  "empty_dns_cache =
     \<lparr>cache_hash = Some [], cache_table = None, cache_spinlock = False,
      cache_nodes = Map.empty, cache_keys = Map.empty, save_timer = None\<rparr>"

definition sample_proc_state :: "(ref_world, (ip_key \<times> addr) list, (byte list \<times> addr) list, unit) proc_state" where
  "sample_proc_state =
     \<lparr>world = sample_world, ports = (\<lambda>_. sample_port), mbufs = [8 \<mapsto> small_packet], sent = [], freed = [],
      instance_of = Some sample_worker, ip_state = sample_ip_cache, dns_state = empty_dns_cache\<rparr>"

lemma sample_proc_ok: "proc_ok ref_live (ref_slots CACHE_SIZE) (ref_slots CACHE_SIZE) sample_proc_state"
  using sample_ip_cache_ok(1)
  by (simp add: proc_ok_def sample_proc_state_def cache_ok_def table_ok_def empty_dns_cache_def owned_def)

lemma ref_env_ptypes [simp]: "ptypes_of (ref_env t) = sample_ptypes t"
  by (simp add: ref_env_def)

lemma sample_parsed: "parsing_pakage (sample_ptypes 0) small_packet zero_info = Inr zero_info"
  by (simp add: parsing_pakage_def sample_ptypes_def)

lemma sample_proc_facts:
  "mbufs sample_proc_state 8 = Some small_packet" "26 \<le> length (mb_buf small_packet)"
  "wf_port (ports sample_proc_state p)"
  by (simp_all add: sample_proc_state_def small_packet_def sample_port_def wf_port_def)

text \<open>A TCP segment to 127.0.0.1, for which the cache of the sample state has an entry.\<close>

definition tcp_packet :: "byte \<Rightarrow> mbuf" where
  "tcp_packet p = \<lparr>mb_buf = replicate 12 2 @ [8, 0] @ replicate 12 69 @ [69, 69, 69, 69, 127, 0, 0, 1, 4, 0, 0, p] @ replicate 12 0, data_len = 50\<rparr>"

definition tcp_state :: "byte \<Rightarrow> (ref_world, (ip_key \<times> addr) list, (byte list \<times> addr) list, unit) proc_state" where
  "tcp_state p = sample_proc_state\<lparr>mbufs := [9 \<mapsto> tcp_packet p]\<rparr>"

lemma tcp_state_ok: "proc_ok ref_live (ref_slots CACHE_SIZE) (ref_slots CACHE_SIZE) (tcp_state p)"
  using sample_proc_ok by (simp add: proc_ok_def tcp_state_def)

lemma tcp_facts:
  "mbufs (tcp_state p) 9 = Some (tcp_packet p)" "26 \<le> length (mb_buf (tcp_packet p))"
  "wf_port (ports (tcp_state p) q)"
  using sample_proc_facts(3) by (simp_all add: tcp_state_def tcp_packet_def)

lemma tcp_parsed:
  obtains info where "parsing_pakage (ptypes_of (ref_env 0x111)) (tcp_packet p) zero_info = Inr info"
    "number_port info = word_rcat [p, 0]" "domain info ! 0 = 0" "ip_key_of info = sample_ip"
  by (rule that [of "zero_info\<lparr>ethernet_type_host := 8, ethernet_type_protocol := 8, number_port := word_rcat [p, 0],
        ip_version := IP_4, ip4_src := 0x45454545, ip4_dist := 0x0100007F\<rparr>"])
    (simp_all add: parsing_pakage_def parse_l3_def parse_l4_port_def ref_env_def sample_ptypes_def tcp_packet_def
      Let_def load16_def load32_def word_rcat_def horner_sum_simps bswap16_def zero_info_def ip_key_of_def sample_ip_def
      DOMAIN_MAX_LEN_def)

section \<open>Properties\<close>







text \<open>
  C24.  A cached decision stands.  While an entry for the destination of a packet without a DNS
  name is in the cache and not expired, the packet is sent or dropped as the entry says: the
  policy is not consulted, the controller is not asked, and what the cache holds does not change.
\<close>

theorem cached_decision_stands:
  assumes "proc_env E live si sd" "proc_ok live si sd s" "mbufs s a = Some pkt"
    and "parsing_pakage (ptypes_of E) pkt zero_info = Inr info"
    and "number_port info \<noteq> bswap16 22" "domain info ! 0 = 0"
    and "cache_view si (ip_state s) (ip_key_of info) = Some n"
    and "\<not> expired (fst (rte_get_timer_cycles (dpdk_of E) (world s))) (rte_get_timer_hz (dpdk_of E)) n"
  shows "\<exists>w' c'. cache_view si c' = cache_view si (ip_state s) \<and>
     (\<forall>policy. process_packet E policy port_in port_out port_exception q a s =
       package_sending_decision (net_of E) (ptypes_of E) (solution_is_send n) a port_in port_out q
         (s\<lparr>instance_of := record_packet_received (instance_of s), world := w', ip_state := c'\<rparr>))"
proof -
  let ?s = "s\<lparr>instance_of := record_packet_received (instance_of s)\<rparr>"
  have lookup: "\<exists>w' c'. cache_view si c' = cache_view si (ip_state s) \<and>
     (\<forall>policy. process_ip E policy port_in port_out q a info ?s =
       package_sending_decision (net_of E) (ptypes_of E) (solution_is_send n) a port_in port_out q
         (?s\<lparr>world := w', ip_state := c'\<rparr>))"
    using proc_env.process_ip_hit [OF assms(1), of ?s info n] assms(2,7,8) by simp
  then show ?thesis
    using proc_env.process_packet_steps [OF assms(1,3,4)] assms(5,6) by (simp add: Let_def)
qed

theorem cached_decision_stands_witness:
  "\<exists>w' c'. cache_view (ref_slots CACHE_SIZE) c' = cache_view (ref_slots CACHE_SIZE) sample_ip_cache \<and>
     process_packet (ref_env 0x111) zero_policy 0 1 2 0 9 (tcp_state 80) =
       package_sending_decision one_packet_net (sample_ptypes 0x111) True 9 0 1 0
         ((tcp_state 80)\<lparr>instance_of := record_packet_received (Some sample_worker), world := w', ip_state := c'\<rparr>)"
proof -
  obtain info where info: "parsing_pakage (ptypes_of (ref_env 0x111 :: (ref_world, _, _) env)) (tcp_packet 80) zero_info = Inr info"
    "number_port info = word_rcat [80 :: byte, 0]" "domain info ! 0 = 0" "ip_key_of info = sample_ip"
    by (rule tcp_parsed)
  have port: "number_port info \<noteq> bswap16 22"
    unfolding info by (simp add: word_rcat_def horner_sum_simps bswap16_def)
  let ?n = "sample_ip_node\<lparr>timestamp := 90, ttl_seconds := 60, key := Some 6\<rparr>"
  have view: "cache_view (ref_slots CACHE_SIZE) (ip_state (tcp_state 80)) (ip_key_of info) = Some ?n"
    by (simp add: info tcp_state_def sample_proc_state_def cache_view_def sample_ip_cache_def)
  have fresh: "\<not> expired (fst (rte_get_timer_cycles (dpdk_of (ref_env 0x111)) (world (tcp_state 80))))
      (rte_get_timer_hz (dpdk_of (ref_env 0x111))) ?n"
    by (simp add: ref_env_def tcp_state_def sample_proc_state_def expired_def ref_dpdk_def sample_world_def)
  show ?thesis
    using cached_decision_stands [where port_in = 0 and port_out = 1 and port_exception = 2 and q = 0,
          OF ref_proc.proc_env_axioms tcp_state_ok tcp_facts(1) info(1) port info(3) view fresh]
    by (auto simp: tcp_state_def sample_proc_state_def ref_env_def sample_ip_node_def)
qed




definition split_name :: "byte list" where
  "split_name = [97, 0, 97] @ replicate 257 0"


end
