(* ===== verification/Policy_Load.thy ===== *)
theory Policy_Load
  imports Worker_Hooks Inet
begin

text \<open>
  The copy of a policy message into the fixed tables of \<open>BASE_POLICY\<close>, the middle part of
  \<open>Worker::requestPolicyFromController\<close> of \<open>src/worker/src/worker.cpp\<close>, and what it results in.
\<close>

section \<open>Copying the message\<close>

text \<open>\<open>strncpy (row, name.c_str (), n - 1); row[n - 1] = '\0'\<close>.\<close>

definition policy_row :: "nat \<Rightarrow> byte list list \<Rightarrow> nat \<Rightarrow> byte list \<Rightarrow> byte list res" where
  "policy_row n names i row =
     rbind (rget names i) (\<lambda>name.
     rbind (c_strncpy row (name @ [0]) (n - 1)) (\<lambda>row. rset row (n - 1) 0))"

definition trust_row :: "(byte list \<times> int) list \<Rightarrow> nat \<Rightarrow> trust_categories_with_lvl \<Rightarrow> trust_categories_with_lvl res" where
  "trust_row pairs idx t =
     rbind (rget pairs idx) (\<lambda>(category, min_trust).
     rbind (c_strncpy (locked_by_trust_category t) (category @ [0]) (CATEGORY_MAX_LEN - 1)) (\<lambda>row.
     rbind (rset row (CATEGORY_MAX_LEN - 1) 0) (\<lambda>row.
     Inr (t\<lparr>locked_by_trust_category := row, lvl_trust_lvl := min_trust\<rparr>))))"

text \<open>One address of a list: the two arrays and the numbers of entries they have.  Texts that are
  no address, and addresses beyond the size of the array, are skipped.\<close>

definition add_address ::
  "byte list \<Rightarrow> 32 word list \<times> nat \<times> byte list list \<times> nat \<Rightarrow> (32 word list \<times> nat \<times> byte list list \<times> nat) res" where
  "add_address ip_str = (\<lambda>(ip4, ip4_idx, ip6, ip6_idx).
     case inet_pton4 (cstr ip_str) of
       Some bs \<Rightarrow>
         if ip4_idx < MAX_IP4 then
           rbind (rset ip4 ip4_idx (word_rcat (rev bs))) (\<lambda>ip4. Inr (ip4, Suc ip4_idx, ip6, ip6_idx))
         else Inr (ip4, ip4_idx, ip6, ip6_idx)
     | None \<Rightarrow>
         (case inet_pton6 (cstr ip_str) of
            Some bs \<Rightarrow>
              if ip6_idx < MAX_IP6 then
                rbind (rget ip6 ip6_idx) (\<lambda>row. rbind (rblit row 0 bs) (\<lambda>row.
                rbind (rset ip6 ip6_idx row) (\<lambda>ip6. Inr (ip4, ip4_idx, ip6, Suc ip6_idx))))
              else Inr (ip4, ip4_idx, ip6, ip6_idx)
          | None \<Rightarrow> Inr (ip4, ip4_idx, ip6, ip6_idx)))"

definition load_policy :: "policy_message \<Rightarrow> BASE_POLICY res" where
  "load_policy pol =
     (let p = zero_policy in
      rbind (c_fold [0..<length (block_categories pol)]
        (row_update (policy_row CATEGORY_MAX_LEN (block_categories pol))) (locked_categories p)) (\<lambda>t.
      let p = p\<lparr>locked_categories := t\<rparr> in
      rbind (c_fold [0..<min (length (block_by_trust pol)) MAX_CATEGORIES_BY_TRUST_LVL]
        (row_update (trust_row (block_by_trust pol))) (categories_with_lvl p)) (\<lambda>t.
      let p = p\<lparr>categories_with_lvl := t\<rparr> in
      rbind (c_fold [0..<length (msg_block_domains pol)]
        (row_update (policy_row DOMAIN_MAX_LEN (msg_block_domains pol))) (block_domains p)) (\<lambda>t.
      let p = p\<lparr>block_domains := t\<rparr> in
      rbind (c_fold [0..<length (msg_allow_domains pol)]
        (row_update (policy_row DOMAIN_MAX_LEN (msg_allow_domains pol))) (allow_domains p)) (\<lambda>t.
      let p = p\<lparr>allow_domains := t\<rparr> in
      rbind (c_fold (block_ips pol) add_address (block_ip4 p, 0, block_ip6 p, 0)) (\<lambda>(ip4, _, ip6, _).
      let p = p\<lparr>block_ip4 := ip4, block_ip6 := ip6\<rparr> in
      rbind (c_fold (allow_ips pol) add_address (allow_ip4 p, 0, allow_ip6 p, 0)) (\<lambda>(ip4, _, ip6, _).
      let p = p\<lparr>allow_ip4 := ip4, allow_ip6 := ip6\<rparr> in
      Inr (p\<lparr>min_trust_level := msg_min_trust_level pol, ttl_ip := msg_ttl_ip pol,
             ttl_domain := msg_ttl_domain pol\<rparr>))))))))"

section \<open>What the policy is\<close>

text \<open>The arrays an address list fills: as many entries as fit, the rest zero.\<close>

definition ipv4_of :: "byte list list \<Rightarrow> 32 word list" where
  "ipv4_of ips = List.map_filter (\<lambda>s. map_option (\<lambda>bs. word_rcat (rev bs)) (inet_pton4 (cstr s))) ips"

definition ipv6_of :: "byte list list \<Rightarrow> byte list list" where
  "ipv6_of ips = List.map_filter (\<lambda>s. if inet_pton4 (cstr s) = None then inet_pton6 (cstr s) else None) ips"

definition padded :: "nat \<Rightarrow> 'a \<Rightarrow> 'a list \<Rightarrow> 'a list" where
  "padded n z xs = take n xs @ replicate (n - length xs) z"

definition policy_of :: "policy_message \<Rightarrow> BASE_POLICY" where
  "policy_of pol =
     \<lparr>locked_categories = table_of MAX_CATEGORIES CATEGORY_MAX_LEN (map cstr (block_categories pol)),
      categories_with_lvl = padded MAX_CATEGORIES_BY_TRUST_LVL
        \<lparr>locked_by_trust_category = replicate CATEGORY_MAX_LEN 0, lvl_trust_lvl = 0\<rparr>
        (map (\<lambda>(category, l). \<lparr>locked_by_trust_category = pad_str CATEGORY_MAX_LEN (cstr category), lvl_trust_lvl = l\<rparr>)
          (block_by_trust pol)),
      ttl_ip = msg_ttl_ip pol, ttl_domain = msg_ttl_domain pol,
      block_domains = table_of MAX_DOMAINS DOMAIN_MAX_LEN (map cstr (msg_block_domains pol)),
      allow_domains = table_of MAX_DOMAINS DOMAIN_MAX_LEN (map cstr (msg_allow_domains pol)),
      block_ip4 = padded MAX_IP4 0 (ipv4_of (block_ips pol)), allow_ip4 = padded MAX_IP4 0 (ipv4_of (allow_ips pol)),
      block_ip6 = padded MAX_IP6 (replicate IP6_LEN 0) (ipv6_of (block_ips pol)),
      allow_ip6 = padded MAX_IP6 (replicate IP6_LEN 0) (ipv6_of (allow_ips pol)),
      min_trust_level = msg_min_trust_level pol\<rparr>"

definition policy_fits :: "policy_message \<Rightarrow> bool" where
  "policy_fits pol \<longleftrightarrow>
     length (block_categories pol) \<le> MAX_CATEGORIES \<and> length (msg_block_domains pol) \<le> MAX_DOMAINS \<and>
     length (msg_allow_domains pol) \<le> MAX_DOMAINS"

lemma policy_row_run:
  assumes "i < length names" "length row = n" "0 < n"
  shows "policy_row n names i row = Inr (pad_str n (cstr (names ! i)))"
proof -
  let ?s = "cstr (names ! i)"
  have "drop (n - 1) row = [row ! (n - 1)]"
    using assms(2,3) Cons_nth_drop_Suc [of "n - 1" row] by simp
  then have "c_strncpy row (names ! i @ [0]) (n - 1) =
      Inr (take (n - 1) ?s @ replicate (n - 1 - length ?s) 0 @ [row ! (n - 1)])"
    using assms(2) by (simp add: c_strncpy_term)
  moreover have "(take (n - 1) ?s @ replicate (n - 1 - length ?s) 0 @ [row ! (n - 1)])[n - 1 := 0] =
      take (n - 1) ?s @ replicate (n - 1 - length ?s) 0 @ [0]"
    by (cases "length ?s \<le> n - 1") (simp_all add: list_update_append)
  moreover have "n - min (n - 1) (length ?s) = Suc (n - 1 - length ?s)" using assms(3) by (auto simp: min_def)
  then have "replicate (n - 1 - length ?s) (0 :: byte) @ [0] = replicate (n - min (n - 1) (length ?s)) 0"
    by (simp add: replicate_append_same)
  ultimately show ?thesis
    using assms by (simp add: policy_row_def pad_str_def)
qed

lemma fill_table:
  assumes "length names \<le> N" "0 < n"
  shows "c_fold [0..<length names] (row_update (policy_row n names)) (table_of N n []) =
    Inr (table_of N n (map cstr names))"
proof -
  have "c_fold [0..<length names] (row_update (policy_row n names)) (table_of N n []) =
      Inr (map (\<lambda>i. pad_str n (cstr (names ! i))) [0..<length names] @ drop (length names) (table_of N n []))"
    using assms by (intro c_fold_rows) (auto simp: policy_row_run table_of_def)
  moreover have "map (\<lambda>i. pad_str n (cstr (names ! i))) [0..<length names] = map (pad_str n) (map cstr names)"
    by (intro nth_equalityI) simp_all
  ultimately show ?thesis by (simp add: table_of_def)
qed

lemma overrun_table:
  assumes "N < length names" "0 < n"
  shows "c_fold [0..<length names] (row_update (policy_row n names)) (table_of N n []) = Inl OutOfBounds"
  using assms
  by (intro c_fold_rows_overrun [where g = "\<lambda>i. pad_str n (cstr (names ! i))"]) (auto simp: policy_row_run table_of_def)

lemma fill_trust:
  "c_fold [0..<min (length pairs) MAX_CATEGORIES_BY_TRUST_LVL] (row_update (trust_row pairs)) (categories_with_lvl zero_policy) =
   Inr (padded MAX_CATEGORIES_BY_TRUST_LVL
        \<lparr>locked_by_trust_category = replicate CATEGORY_MAX_LEN 0, lvl_trust_lvl = 0\<rparr>
        (map (\<lambda>(category, l). \<lparr>locked_by_trust_category = pad_str CATEGORY_MAX_LEN (cstr category), lvl_trust_lvl = l\<rparr>) pairs))"
  (is "?run = Inr (padded ?N ?z (map ?g pairs))")
proof -
  let ?n = "min (length pairs) MAX_CATEGORIES_BY_TRUST_LVL"
  have row: "trust_row pairs i ?z = Inr (?g (pairs ! i))" if "i < length pairs" for i
  proof -
    obtain category l where p: "pairs ! i = (category, l)" by fastforce
    have "policy_row CATEGORY_MAX_LEN [category] 0 (replicate CATEGORY_MAX_LEN 0) = Inr (pad_str CATEGORY_MAX_LEN (cstr category))"
      by (simp add: policy_row_run)
    with p that show ?thesis
      by (auto simp: trust_row_def policy_row_def rbind_eq_Inr_iff)
  qed
  have "?run = Inr (map (\<lambda>i. ?g (pairs ! i)) [0..<?n] @ drop ?n (categories_with_lvl zero_policy))"
    using row by (intro c_fold_rows) (auto simp: zero_policy_def)
  moreover have "map (\<lambda>i. ?g (pairs ! i)) [0..<?n] = take ?N (map ?g pairs)"
    by (intro nth_equalityI) auto
  ultimately show ?thesis by (simp add: padded_def zero_policy_def min_def)
qed

lemma padded_snoc:
  "length xs < n \<Longrightarrow> (padded n z xs)[length xs := x] = padded n z (xs @ [x])"
  "n \<le> length xs \<Longrightarrow> padded n z (xs @ [x]) = padded n z xs"
proof -
  assume "length xs < n"
  then have "replicate (n - length xs) z = z # replicate (n - Suc (length xs)) z"
    by (simp add: Suc_diff_Suc [symmetric] del: Suc_diff_Suc)
  with \<open>length xs < n\<close> show "(padded n z xs)[length xs := x] = padded n z (xs @ [x])"
    by (simp add: padded_def list_update_append)
qed (simp add: padded_def)

lemma length_padded [simp]: "length (padded n z xs) = n"
  by (simp add: padded_def min_def)

text \<open>The state of the two arrays after the addresses \<open>xs\<close> and \<open>ys\<close>.\<close>

definition filled :: "32 word list \<Rightarrow> byte list list \<Rightarrow> 32 word list \<times> nat \<times> byte list list \<times> nat" where
  "filled xs ys =
     (padded MAX_IP4 0 xs, min (length xs) MAX_IP4, padded MAX_IP6 (replicate IP6_LEN 0) ys, min (length ys) MAX_IP6)"

lemma add_address_step: "add_address ip (filled xs ys) = Inr (filled (xs @ ipv4_of [ip]) (ys @ ipv6_of [ip]))"
proof (cases "inet_pton4 (cstr ip)")
  case (Some bs)
  then have "ipv4_of [ip] = [word_rcat (rev bs)]" "ipv6_of [ip] = []"
    by (simp_all add: ipv4_of_def ipv6_of_def map_filter_simps)
  with Some show ?thesis
    by (cases "length xs < MAX_IP4") (simp_all add: add_address_def filled_def padded_snoc min_def)
next
  case None
  note v4 = None
  show ?thesis
  proof (cases "inet_pton6 (cstr ip)")
    case None
    with v4 show ?thesis
      by (simp add: add_address_def filled_def ipv4_of_def ipv6_of_def map_filter_simps)
  next
    case (Some bs)
    with v4 have lists: "ipv4_of [ip] = []" "ipv6_of [ip] = [bs]"
      by (simp_all add: ipv4_of_def ipv6_of_def map_filter_simps)
    have "length bs = IP6_LEN" using pton6_length [OF Some] by (simp add: IP6_LEN_def)
    then have "rblit (replicate IP6_LEN 0) 0 bs = Inr bs" by simp
    moreover have "padded MAX_IP6 (replicate IP6_LEN 0) ys ! length ys = replicate IP6_LEN 0" if "length ys < MAX_IP6"
      using that by (simp add: padded_def nth_append)
    ultimately show ?thesis
      using Some v4 lists
      by (cases "length ys < MAX_IP6") (simp_all add: add_address_def filled_def padded_snoc min_def)
  qed
qed

lemma fill_addresses: "c_fold ips add_address (filled xs ys) = Inr (filled (xs @ ipv4_of ips) (ys @ ipv6_of ips))"
proof (induction ips arbitrary: xs ys)
  case (Cons ip ips)
  have "ipv4_of [ip] @ ipv4_of ips = ipv4_of (ip # ips)" "ipv6_of [ip] @ ipv6_of ips = ipv6_of (ip # ips)"
    by (auto simp: ipv4_of_def ipv6_of_def map_filter_simps split: option.splits)
  with Cons show ?case by (simp add: add_address_step)
qed (simp add: ipv4_of_def ipv6_of_def map_filter_simps)

lemma filled_start:
  "(block_ip4 zero_policy, 0, block_ip6 zero_policy, 0) = filled [] []"
  "(allow_ip4 zero_policy, 0, allow_ip6 zero_policy, 0) = filled [] []"
  by (simp_all add: filled_def zero_policy_def padded_def)

lemma load_policy_run:
  assumes "policy_fits pol"
  shows "load_policy pol = Inr (policy_of pol)"
proof -
  have t: "locked_categories zero_policy = table_of MAX_CATEGORIES CATEGORY_MAX_LEN []"
    "block_domains zero_policy = table_of MAX_DOMAINS DOMAIN_MAX_LEN []"
    "allow_domains zero_policy = table_of MAX_DOMAINS DOMAIN_MAX_LEN []"
    by (simp_all add: zero_policy_def)
  show ?thesis
    using assms fill_addresses [of "block_ips pol" "[]" "[]"] fill_addresses [of "allow_ips pol" "[]" "[]"]
    by (simp add: load_policy_def Let_def policy_fits_def t fill_table fill_trust filled_start)
      (simp add: filled_def policy_of_def)
qed

lemma load_policy_overrun:
  assumes "\<not> policy_fits pol"
  shows "load_policy pol = Inl OutOfBounds"
proof -
  have t: "locked_categories zero_policy = table_of MAX_CATEGORIES CATEGORY_MAX_LEN []"
    "block_domains zero_policy = table_of MAX_DOMAINS DOMAIN_MAX_LEN []"
    "allow_domains zero_policy = table_of MAX_DOMAINS DOMAIN_MAX_LEN []"
    by (simp_all add: zero_policy_def)
  consider "MAX_CATEGORIES < length (block_categories pol)"
    | "length (block_categories pol) \<le> MAX_CATEGORIES" "MAX_DOMAINS < length (msg_block_domains pol)"
    | "length (block_categories pol) \<le> MAX_CATEGORIES" "length (msg_block_domains pol) \<le> MAX_DOMAINS"
      "MAX_DOMAINS < length (msg_allow_domains pol)"
    using assms unfolding policy_fits_def by linarith
  then show ?thesis
    by cases (simp_all add: load_policy_def Let_def t fill_table fill_trust overrun_table)
qed

lemma string_table_padded:
  assumes "\<forall>r \<in> set rows. length r = m \<and> nul_term r" "0 < m"
  shows "string_table n m (padded n (replicate m 0) rows)"
  using assms by (auto simp: string_table_def list_all_iff padded_def nul_term_def dest: in_set_takeD)

lemma trust_table:
  "string_table MAX_CATEGORIES_BY_TRUST_LVL CATEGORY_MAX_LEN (map locked_by_trust_category (categories_with_lvl (policy_of pol)))"
proof -
  have "map locked_by_trust_category (categories_with_lvl (policy_of pol)) =
      padded MAX_CATEGORIES_BY_TRUST_LVL (replicate CATEGORY_MAX_LEN 0)
        (map (\<lambda>(category, l). pad_str CATEGORY_MAX_LEN (cstr category)) (block_by_trust pol))"
    by (simp add: policy_of_def padded_def take_map case_prod_unfold comp_def)
  then show ?thesis by (auto intro!: string_table_padded)
qed

lemma ipv6_rows: "list_all (\<lambda>r. length r = IP6_LEN) (padded MAX_IP6 (replicate IP6_LEN 0) (ipv6_of ips))"
proof -
  have "length r = IP6_LEN" if "r \<in> set (ipv6_of ips)" for r
    using that by (auto simp: ipv6_of_def map_filter_def IP6_LEN_def dest: pton6_length split: if_splits)
  then show ?thesis by (auto simp: list_all_iff padded_def dest: in_set_takeD)
qed

lemma wf_policy_of:
  assumes "policy_fits pol"
  shows "wf_policy (policy_of pol)"
  using assms trust_table [of pol] ipv6_rows [of "block_ips pol"] ipv6_rows [of "allow_ips pol"]
  unfolding policy_fits_def wf_policy_def by (simp add: policy_of_def)

end
