(* ===== verification/Policy.thy ===== *)
theory Policy
  imports Proc_Props Policy_Load
begin

text \<open>
  How the worker gets its policy: \<open>Worker::requestPolicyFromController\<close> of
  \<open>src/worker/src/worker.cpp\<close>.  The answer of the controller becomes the policy, and
  both caches are cleared.  The method holds \<open>policy_mutex\<close> while it writes, which
  the main loop takes to copy the policy; here the two are separate steps.
\<close>

section \<open>The request\<close>

definition requestPolicyFromController ::
  "('w, 'hi, 'hd) env \<Rightarrow> worker \<Rightarrow> ('w, 'hi, 'hd, 'db) proc_state \<Rightarrow> ('w, 'hi, 'hd, 'db) proc_state res" where
  "requestPolicyFromController E this s =
     (case GetPolicy (rpc_of E) (worker_id this) (current_config_version this) (world s) of
        (None, w) \<Rightarrow> Inr (s\<lparr>world := w\<rparr>)
      | (Some resp, w) \<Rightarrow>
          let this = this\<lparr>enable := filtering_enabled resp\<rparr>;
              s = s\<lparr>world := w, instance_of := Some this\<rparr> in
          (case resp_result resp of
             POLICY_PROVIDED \<Rightarrow>
               rbind (load_policy (resp_policy resp)) (\<lambda>p.
               let this = this\<lparr>current_policy := p, current_config_version := config_version (resp_policy resp)\<rparr>;
                   s = s\<lparr>instance_of := Some this\<rparr> in
               rbind (clear_ip_cache (ip_api E) (ip_state s)) (\<lambda>c.
               let s = s\<lparr>ip_state := c\<rparr> in
               rbind (clear_dns_cache (dns_api E) (dns_state s)) (\<lambda>c.
               Inr (s\<lparr>dns_state := c\<rparr>))))
           | POLICY_UNCHANGED \<Rightarrow> Inr s
           | OTHER_RESULT r \<Rightarrow> Inr s))"

section \<open>Clearing\<close>

context cache_env
begin

lemma clear_run:
  assumes ok: "cache_ok slots live getk (w, c)"
  shows "\<exists>h. g_clear H c = Inr (c\<lparr>cache_hash := h\<rparr>) \<and> (h = None \<longleftrightarrow> cache_hash c = None) \<and>
     cache_ok slots live getk (w, c\<lparr>cache_hash := h\<rparr>) \<and> cache_view slots (c\<lparr>cache_hash := h\<rparr>) = Map.empty"
proof (cases "cache_hash c")
  case None
  then have same: "c\<lparr>cache_hash := None\<rparr> = c" by (cases c) simp
  show ?thesis
    by (rule exI [of _ None], unfold same) (use None ok in \<open>simp add: g_clear_def cache_view_def\<close>)
next
  case (Some h)
  obtain h' where h': "rte_hash_reset H (Some h) = Some h'" "content (slots h') = Map.empty"
    using reset_empty by blast
  have "g_clear H c = Inr (c\<lparr>cache_hash := Some h'\<rparr>)"
    using Some h' cache_okD(1) [OF ok] by (simp add: g_clear_def spin_unlock_def)
  with h' Some ok show ?thesis
    by (intro exI [of _ "Some h'"]) (auto simp: cache_ok_def cache_view_def table_ok_def)
qed

end

context proc_env
begin

text \<open>A policy that is provided: the request is the copy of the message, with both caches cleared.\<close>

lemma provided_run:
  assumes ok: "proc_ok live si sd s"
    and answer: "GetPolicy (rpc_of E) (worker_id this) (current_config_version this) (world s) = (Some resp, w)"
      "resp_result resp = POLICY_PROVIDED" "live w = live (world s)"
  shows "\<exists>hi hd. requestPolicyFromController E this s =
      rbind (load_policy (resp_policy resp)) (\<lambda>p.
        Inr (s\<lparr>world := w, instance_of := Some (this\<lparr>enable := filtering_enabled resp, current_policy := p,
            current_config_version := config_version (resp_policy resp)\<rparr>),
          ip_state := (ip_state s)\<lparr>cache_hash := hi\<rparr>, dns_state := (dns_state s)\<lparr>cache_hash := hd\<rparr>\<rparr>)) \<and>
     (hi = None \<longleftrightarrow> cache_hash (ip_state s) = None) \<and> (hd = None \<longleftrightarrow> cache_hash (dns_state s) = None) \<and>
     cache_view si ((ip_state s)\<lparr>cache_hash := hi\<rparr>) = Map.empty \<and>
     cache_view sd ((dns_state s)\<lparr>cache_hash := hd\<rparr>) = Map.empty \<and>
     cache_ok si live key (w, (ip_state s)\<lparr>cache_hash := hi\<rparr>) \<and>
     cache_ok sd live key_domain (w, (dns_state s)\<lparr>cache_hash := hd\<rparr>)"
proof -
  obtain hi where hi: "clear_ip_cache (ip_api E) (ip_state s) = Inr ((ip_state s)\<lparr>cache_hash := hi\<rparr>)"
    "hi = None \<longleftrightarrow> cache_hash (ip_state s) = None" "cache_view si ((ip_state s)\<lparr>cache_hash := hi\<rparr>) = Map.empty"
    "cache_ok si live key (world s, (ip_state s)\<lparr>cache_hash := hi\<rparr>)"
    using ip.clear_run [OF proc_okD(1) [OF ok]] by (elim exE conjE) (rule that; simp add: clear_ip_cache_common)
  obtain hd where hd: "clear_dns_cache (dns_api E) (dns_state s) = Inr ((dns_state s)\<lparr>cache_hash := hd\<rparr>)"
    "hd = None \<longleftrightarrow> cache_hash (dns_state s) = None" "cache_view sd ((dns_state s)\<lparr>cache_hash := hd\<rparr>) = Map.empty"
    "cache_ok sd live key_domain (world s, (dns_state s)\<lparr>cache_hash := hd\<rparr>)"
    using dns.clear_run [OF proc_okD(2) [OF ok]] by (elim exE conjE) (rule that; simp add: clear_dns_cache_common)
  have "requestPolicyFromController E this s =
      rbind (load_policy (resp_policy resp)) (\<lambda>p.
        Inr (s\<lparr>world := w, instance_of := Some (this\<lparr>enable := filtering_enabled resp, current_policy := p,
            current_config_version := config_version (resp_policy resp)\<rparr>),
          ip_state := (ip_state s)\<lparr>cache_hash := hi\<rparr>, dns_state := (dns_state s)\<lparr>cache_hash := hd\<rparr>\<rparr>))"
    using answer(1,2) hi(1) hd(1) by (simp add: requestPolicyFromController_def Let_def)
  then show ?thesis
    using hi(2,3) hd(2,3) cache_ok_world [OF hi(4) answer(3)] cache_ok_world [OF hd(4) answer(3)]
    by (intro exI [of _ hi] exI [of _ hd]) simp
qed

text \<open>
  A name of the block list that is classified: the packet is freed whatever the classification says, and
  no entry that would send it is stored.
\<close>

lemma blocked_name_freed:
  assumes ok: "proc_ok live si sd s" and hash: "cache_hash (dns_state s) \<noteq> None"
    and view: "cache_view sd (dns_state s) (domain info) = None" and pkt: "mbufs s a = Some pkt"
    and tab: "string_table MAX_DOMAINS DOMAIN_MAX_LEN (block_domains policy)" and name: "nul_term (domain info)"
    and blocked: "cstr (domain info) \<in> domain_entries (block_domains policy)"
    and classified: "\<And>w. \<exists>req w'. worker_classify (rpc_of E) (instance_of s) (c_lit ''domain'') (domain info) (stack_of E w) w = Inr (True, req, w') \<and>
      live w' = live w"
  shows "\<exists>s'. process_domain E policy port_in port_out q a info s = Inr s' \<and> proc_ok live si sd s' \<and>
     sent s' = sent s \<and> freed s' = freed s @ [a] \<and>
     (case cache_view sd (dns_state s') (domain info) of None \<Rightarrow> True | Some n \<Rightarrow> \<not> solution_is_send n)"
  using ok
proof (cases rule: process_domain_outcomes [where info = info and policy = policy and port_in = port_in
      and port_out = port_out and q = q and a = a])
  case (hit n w' c')
  with view show ?thesis by simp
next
  case (miss w' c')
  obtain req w2 where w2: "worker_classify (rpc_of E) (instance_of s) (c_lit ''domain'') (domain info) (stack_of E w') w' =
      Inr (True, req, w2)" "live w2 = live w'"
    using classified by blast
  have drop: "main_filtring_by_domain req policy info = Inr False"
    using check_domain_is_block_eq [OF tab name] blocked by (simp add: main_filtring_by_domain_def)
  let ?s = "s\<lparr>world := w2, dns_state := c'\<rparr>"
  let ?t = "?s\<lparr>instance_of := record_packet_dropped (instance_of s), mbufs := (mbufs s)(a := None), freed := freed s @ [a]\<rparr>"
  have "proc_ok live si sd ?s"
    using proc_ok_world [OF miss(2), of w2] w2(2) by (simp add: world_first)
  then have ok3: "proc_ok live si sd ?t" by (simp add: proc_ok_def)
  have free: "package_sending_decision (net_of E) (ptypes_of E) False a port_in port_out q ?s = Inr ?t"
    using pkt by (simp add: package_sending_decision_def rte_pktmbuf_free_def)
  let ?k = "pad_str DOMAIN_MAX_LEN (cstr (domain info))"
  obtain w3 c3 where r: "remember_domain E policy info False ?t = Inr (?t\<lparr>world := w3, dns_state := c3\<rparr>)"
    "proc_ok live si sd (?t\<lparr>world := w3, dns_state := c3\<rparr>)"
    "cache_view sd c3 = cache_view sd (dns_state ?t) \<or> (\<exists>ka. cache_view sd c3 = (cache_view sd (dns_state ?t))(?k \<mapsto>
         zero_node_domain\<lparr>solution_is_send := False, timestamp := node_stamp (dpdk_of E) (world ?t),
           ttl_seconds := word_of_int (ttl_domain policy), key_domain := Some ka\<rparr>))"
    using remember_domain_safe [OF ok3 name refl, of policy False] by (elim exE conjE) (rule that)
  have "case cache_view sd c3 (domain info) of None \<Rightarrow> True | Some n \<Rightarrow> \<not> solution_is_send n"
    using r(3) miss(3) by (elim disjE exE) (auto split: if_splits)
  with r miss(6) w2(1) drop free show ?thesis
    by (intro exI [of _ "?t\<lparr>world := w3, dns_state := c3\<rparr>"]) simp
next
  case (null w')
  with hash show ?thesis by simp
qed

end

section \<open>A controller that provides a policy\<close>

definition small_policy :: policy_message where
  "small_policy =
     \<lparr>block_categories = [map of_char ''ads''], block_by_trust = [(map of_char ''games'', 5)],
      msg_block_domains = [map of_char ''bad.org''], msg_allow_domains = [], block_ips = [map of_char ''10.0.0.1''],
      allow_ips = [], msg_min_trust_level = 3, msg_ttl_ip = 60, msg_ttl_domain = 0, config_version = 2\<rparr>"

definition policy_rpc :: "policy_message \<Rightarrow> 'w rpc" where
  "policy_rpc pol = \<lparr>Classify = Classify one_category_rpc,
     GetPolicy = (\<lambda>i v w. (Some \<lparr>resp_result = POLICY_PROVIDED, resp_policy = pol, filtering_enabled = True\<rparr>, w))\<rparr>"

definition policy_env :: "policy_message \<Rightarrow> (ref_world, (ip_key \<times> addr) list, (byte list \<times> addr) list) env" where
  "policy_env pol = (ref_env 0)\<lparr>rpc_of := policy_rpc pol\<rparr>"

interpretation ref_policy: proc_env "policy_env pol" ref_live "ref_slots CACHE_SIZE" "ref_slots CACHE_SIZE"
  using ref_proc.proc_env_axioms [of 0] by (simp add: policy_env_def proc_env_def proc_env_axioms_def)

lemma policy_env_answer:
  "GetPolicy (rpc_of (policy_env pol)) i v w =
     (Some \<lparr>resp_result = POLICY_PROVIDED, resp_policy = pol, filtering_enabled = True\<rparr>, w)"
  by (simp add: policy_env_def policy_rpc_def)

section \<open>Properties of the request\<close>

text \<open>
  C30.  A policy that the controller provides and whose tables are large enough becomes the
  policy of the worker: every category, domain and trust level of the message, cut to the size of
  a row, the addresses of each kind in their order, and the numbers.  It is well formed, both
  caches are empty afterwards, and no packet is touched.
\<close>

theorem policy_loaded:
  assumes "proc_env E live si sd" "proc_ok live si sd s"
    and "GetPolicy (rpc_of E) (worker_id this) (current_config_version this) (world s) = (Some resp, w)"
    and "resp_result resp = POLICY_PROVIDED" "live w = live (world s)" "policy_fits (resp_policy resp)"
  shows "\<exists>s' this'. requestPolicyFromController E this s = Inr s' \<and> proc_ok live si sd s' \<and> instance_of s' = Some this' \<and>
     current_policy this' = policy_of (resp_policy resp) \<and> wf_policy (current_policy this') \<and>
     enable this' = filtering_enabled resp \<and> current_config_version this' = config_version (resp_policy resp) \<and>
     cache_view si (ip_state s') = Map.empty \<and> cache_view sd (dns_state s') = Map.empty \<and>
     mbufs s' = mbufs s \<and> sent s' = sent s \<and> freed s' = freed s"
proof -
  obtain hi hd where run: "requestPolicyFromController E this s =
      rbind (load_policy (resp_policy resp)) (\<lambda>p.
        Inr (s\<lparr>world := w, instance_of := Some (this\<lparr>enable := filtering_enabled resp, current_policy := p,
            current_config_version := config_version (resp_policy resp)\<rparr>),
          ip_state := (ip_state s)\<lparr>cache_hash := hi\<rparr>, dns_state := (dns_state s)\<lparr>cache_hash := hd\<rparr>\<rparr>))"
    and view: "cache_view si ((ip_state s)\<lparr>cache_hash := hi\<rparr>) = Map.empty"
      "cache_view sd ((dns_state s)\<lparr>cache_hash := hd\<rparr>) = Map.empty"
    and ok: "cache_ok si live key (w, (ip_state s)\<lparr>cache_hash := hi\<rparr>)"
      "cache_ok sd live key_domain (w, (dns_state s)\<lparr>cache_hash := hd\<rparr>)"
    using proc_env.provided_run [OF assms(1-5)] by (elim exE conjE) (rule that)
  have "owned (ip_state s) \<inter> owned (dns_state s) = {}" using assms(2) by (simp add: proc_ok_def)
  with run view ok wf_policy_of [OF assms(6)] show ?thesis
    by (simp add: load_policy_run [OF assms(6)] proc_ok_def owned_def)
qed

theorem policy_loaded_witness:
  "\<exists>s' this'. requestPolicyFromController (policy_env small_policy) sample_worker sample_proc_state = Inr s' \<and>
     instance_of s' = Some this' \<and> current_policy this' = policy_of small_policy \<and>
     cache_view (ref_slots CACHE_SIZE) (ip_state s') = Map.empty"
proof -
  have "policy_fits small_policy" by (simp add: policy_fits_def small_policy_def MAX_CATEGORIES_def MAX_DOMAINS_def)
  with policy_loaded [where this = sample_worker, OF ref_policy.proc_env_axioms sample_proc_ok policy_env_answer, of small_policy] show ?thesis by auto
qed

text \<open>
  C31.  The request leaves the tables exactly if the message has more than 100 categories or more
  than 64 domains in one of its lists: these loops have no bound but the length of the message.
\<close>

theorem policy_overrun_iff:
  assumes "proc_env E live si sd" "proc_ok live si sd s"
    and "GetPolicy (rpc_of E) (worker_id this) (current_config_version this) (world s) = (Some resp, w)"
    and "resp_result resp = POLICY_PROVIDED" "live w = live (world s)"
  shows "requestPolicyFromController E this s = Inl OutOfBounds \<longleftrightarrow>
     100 < length (block_categories (resp_policy resp)) \<or> 64 < length (msg_block_domains (resp_policy resp)) \<or>
     64 < length (msg_allow_domains (resp_policy resp))"
proof -
  obtain f where run: "requestPolicyFromController E this s = rbind (load_policy (resp_policy resp)) (\<lambda>p. Inr (f p))"
    using proc_env.provided_run [OF assms(1-5)] by (elim exE conjE) (rule that)
  have fits: "policy_fits (resp_policy resp) \<longleftrightarrow> \<not> (100 < length (block_categories (resp_policy resp)) \<or>
     64 < length (msg_block_domains (resp_policy resp)) \<or> 64 < length (msg_allow_domains (resp_policy resp)))"
    by (auto simp: policy_fits_def MAX_CATEGORIES_def MAX_DOMAINS_def)
  show ?thesis
    using load_policy_run load_policy_overrun
    unfolding run using fits by (cases "policy_fits (resp_policy resp)") simp_all
qed

theorem policy_overrun_iff_witness:
  "requestPolicyFromController (policy_env (small_policy\<lparr>msg_block_domains := replicate 65 []\<rparr>)) sample_worker
     sample_proc_state = Inl OutOfBounds"
  using policy_overrun_iff [where this = sample_worker, OF ref_policy.proc_env_axioms sample_proc_ok policy_env_answer,
      of "small_policy\<lparr>msg_block_domains := replicate 65 []\<rparr>"]
  by simp

end
