(* ===== verification/Double.thy ===== *)
theory Double
  imports Complex_Main
begin

text \<open>
  The type \<open>double\<close> as the metrics use it: the real numbers with the rounding of IEEE binary64, to
  the nearest number with a significand of 53 bits and to the even one when there are two.  The
  numbers that occur are zero or lie between \<open>2 ^ -64\<close> and \<open>2 ^ 128\<close>, so neither the smallest nor the
  largest exponent of the format is met and the exponent is not bounded here.
\<close>

definition round_even :: "real \<Rightarrow> int" where
  "round_even x =
     (let f = \<lfloor>x\<rfloor> in
      if x - of_int f < 1 / 2 then f else if x - of_int f > 1 / 2 then f + 1 else if even f then f else f + 1)"

definition rnd_pos :: "real \<Rightarrow> real" where
  "rnd_pos x = (let e = \<lfloor>log 2 x\<rfloor> - 52 in of_int (round_even (x / 2 powr real_of_int e)) * 2 powr real_of_int e)"

definition rnd :: "real \<Rightarrow> real" where
  "rnd x = (if x = 0 then 0 else if x < 0 then - rnd_pos (- x) else rnd_pos x)"

lemma round_even_bounds: "\<lfloor>x\<rfloor> \<le> round_even x" "round_even x \<le> \<lfloor>x\<rfloor> + 1"
  by (simp_all add: round_even_def Let_def)

lemma round_even_of_int [simp]: "round_even (of_int n) = n"
  by (simp add: round_even_def)

lemma round_even_mono: "x \<le> y \<Longrightarrow> round_even x \<le> round_even y"
proof (cases "\<lfloor>x\<rfloor> = \<lfloor>y\<rfloor>")
  case True
  assume "x \<le> y"
  with True show ?thesis by (auto simp: round_even_def Let_def)
next
  case False
  assume "x \<le> y"
  with False have "\<lfloor>x\<rfloor> + 1 \<le> \<lfloor>y\<rfloor>" using floor_mono [of x y] by linarith
  then show ?thesis
    using round_even_bounds(2) [of x] round_even_bounds(1) [of y] by linarith
qed

lemma powr_shift:
  "2 powr real_of_int E = 2 ^ 52 * 2 powr real_of_int (E - 52)"
  "2 powr real_of_int (E + 1) = 2 ^ 53 * 2 powr real_of_int (E - 52)"
  using powr_add [of 2 "52 :: real" "real_of_int (E - 52)"] powr_add [of 2 "53 :: real" "real_of_int (E - 52)"]
  by (simp_all add: powr_numeral add.commute)

text \<open>The significand of a positive number lies between \<open>2 ^ 52\<close> and \<open>2 ^ 53\<close>.\<close>

lemma significand:
  assumes "0 < x"
  shows "2 ^ 52 \<le> x / 2 powr real_of_int (\<lfloor>log 2 x\<rfloor> - 52)" "x / 2 powr real_of_int (\<lfloor>log 2 x\<rfloor> - 52) < 2 ^ 53"
proof -
  let ?E = "\<lfloor>log 2 x\<rfloor>"
  have "2 powr real_of_int ?E \<le> x" "x < 2 powr real_of_int (?E + 1)"
    using assms by (simp_all add: powr_le_iff less_powr_iff)
  then show "2 ^ 52 \<le> x / 2 powr real_of_int (?E - 52)" "x / 2 powr real_of_int (?E - 52) < 2 ^ 53"
    unfolding powr_shift [of ?E] by (simp_all add: field_simps)
qed

lemma rnd_binade:
  assumes "0 < x"
  shows "2 powr real_of_int \<lfloor>log 2 x\<rfloor> \<le> rnd_pos x" "rnd_pos x \<le> 2 powr real_of_int (\<lfloor>log 2 x\<rfloor> + 1)"
proof -
  let ?E = "\<lfloor>log 2 x\<rfloor>" and ?m = "round_even (x / 2 powr real_of_int (\<lfloor>log 2 x\<rfloor> - 52))"
  have "round_even (of_int (2 ^ 52)) \<le> ?m" "?m \<le> round_even (of_int (2 ^ 53))"
    using significand [OF assms] by (intro round_even_mono; simp)+
  then have "real_of_int (2 ^ 52) \<le> of_int ?m" "real_of_int ?m \<le> of_int (2 ^ 53)"
    by (simp_all only: of_int_le_iff round_even_of_int)
  then have "2 ^ 52 \<le> real_of_int ?m" "real_of_int ?m \<le> 2 ^ 53"
    by simp_all
  then show "2 powr real_of_int ?E \<le> rnd_pos x" "rnd_pos x \<le> 2 powr real_of_int (?E + 1)"
    unfolding powr_shift [of ?E] rnd_pos_def Let_def by (simp_all add: mult_right_mono)
qed

lemma rnd_pos_mono:
  assumes "0 < x" "x \<le> y"
  shows "rnd_pos x \<le> rnd_pos y"
proof (cases "\<lfloor>log 2 x\<rfloor> = \<lfloor>log 2 y\<rfloor>")
  case True
  with assms show ?thesis
    by (simp add: rnd_pos_def Let_def round_even_mono divide_right_mono)
next
  case False
  have "\<lfloor>log 2 x\<rfloor> \<le> \<lfloor>log 2 y\<rfloor>" using assms by (intro floor_mono) simp
  with False have "real_of_int \<lfloor>log 2 x\<rfloor> + 1 \<le> \<lfloor>log 2 y\<rfloor>" by linarith
  then have "2 powr real_of_int (\<lfloor>log 2 x\<rfloor> + 1) \<le> 2 powr real_of_int \<lfloor>log 2 y\<rfloor>" by simp
  then show ?thesis
    using rnd_binade(2) [of x] rnd_binade(1) [of y] assms by linarith
qed

lemma rnd_0 [simp]: "rnd 0 = 0"
  by (simp add: rnd_def)

lemma rnd_nonneg [simp]: "0 \<le> x \<Longrightarrow> 0 \<le> rnd x"
  using rnd_binade(1) [of x] order_trans [OF powr_ge_zero] by (fastforce simp: rnd_def)

lemma rnd_positive: "0 < x \<Longrightarrow> 0 < rnd x"
  using rnd_binade(1) [of x] powr_gt_zero [of 2 "real_of_int \<lfloor>log 2 x\<rfloor>"] by (auto simp: rnd_def simp del: powr_gt_zero)

lemma rnd_mono: "0 \<le> x \<Longrightarrow> x \<le> y \<Longrightarrow> rnd x \<le> rnd y"
  using rnd_pos_mono [of x y] rnd_nonneg [of y] by (auto simp: rnd_def)

text \<open>Numbers with a significand below \<open>2 ^ 53\<close> are not rounded.\<close>

lemma rnd_exact:
  assumes "0 \<le> m" "m < 2 ^ 53"
  shows "rnd (of_int m * 2 powr real_of_int k) = of_int m * 2 powr real_of_int k"
proof (cases "m = 0")
  case False
  let ?x = "real_of_int m * 2 powr real_of_int k"
  have pos: "0 < ?x" using False assms(1) by simp
  have "?x < 2 powr (53 + of_int k)"
    using assms(2) by (simp add: powr_add powr_numeral)
  then have "log 2 ?x < 53 + of_int k" using pos by (simp add: log_less_iff)
  then have e: "\<lfloor>log 2 ?x\<rfloor> - 52 \<le> k" by linarith
  let ?e = "\<lfloor>log 2 ?x\<rfloor> - 52"
  have shift: "2 powr (real_of_int k - of_int ?e) = real_of_int (2 ^ nat (k - ?e))"
    using e by (simp add: powr_realpow [symmetric])
  have "?x / 2 powr real_of_int ?e = of_int (m * 2 ^ nat (k - ?e))"
    using shift by (simp add: powr_diff [symmetric] algebra_simps flip: times_divide_eq_right)
  then have "rnd_pos ?x = of_int (m * 2 ^ nat (k - ?e)) * 2 powr real_of_int ?e"
    unfolding rnd_pos_def Let_def by (simp only: round_even_of_int of_int_diff of_int_numeral)
  also have "\<dots> = ?x / 2 powr real_of_int ?e * 2 powr real_of_int ?e"
    using \<open>?x / 2 powr real_of_int ?e = of_int (m * 2 ^ nat (k - ?e))\<close> by (simp only:)
  finally show ?thesis using pos by (simp add: rnd_def)
qed simp

lemma rnd_of_int: "0 \<le> m \<Longrightarrow> m < 2 ^ 53 \<Longrightarrow> rnd (of_int m) = of_int m"
  using rnd_exact [of m 0] by simp

lemma rnd_1 [simp]: "rnd 1 = 1"
  using rnd_of_int [of 1] by simp

lemma rnd_numeral: "(numeral n :: int) < 2 ^ 53 \<Longrightarrow> rnd (numeral n) = numeral n"
  using rnd_of_int [of "numeral n"] by simp

end
