(* ===== verification/Metrics.thy ===== *)
theory Metrics
  imports Prelude Double
begin

text \<open>
  The metrics, \<open>src/worker/src/metrics_collector.cpp\<close>: the constructor that reads the processors
  from \<open>/proc/stat\<close>, the periodic readings of processor time and memory, and the packet counters.
  The Prometheus client library is a parameter, with a state of its own; gauges and counters are
  addresses.  Files are their contents.  Input streams of C++ are modelled: the characters that
  are left, and whether an extraction has failed, after which every extraction leaves its variable as it is.
\<close>

section \<open>Input streams\<close>

record istream =
  unread :: string
  fail_bit :: bool

definition is_space :: "char \<Rightarrow> bool" where
  "is_space c \<longleftrightarrow> c \<in> {CHR '' '', CHR 0x09, CHR 0x0A, CHR 0x0B, CHR 0x0C, CHR 0x0D}"

definition is_digit :: "char \<Rightarrow> bool" where
  "is_digit c \<longleftrightarrow> (of_char c :: nat) \<in> {48..57}"

definition digits_value :: "string \<Rightarrow> nat" where
  "digits_value = foldl (\<lambda>n c. 10 * n + (of_char c - 48)) 0"

text \<open>\<open>operator>>\<close> into a string: the next word, when there is one.\<close>

definition get_word :: "istream \<Rightarrow> string \<Rightarrow> string \<times> istream" where
  "get_word st old =
     (let r = dropWhile is_space (unread st) in
      if fail_bit st then (old, st)
      else if r = [] then (old, \<lparr>unread = [], fail_bit = True\<rparr>)
      else (takeWhile (\<lambda>c. \<not> is_space c) r, st\<lparr>unread := dropWhile (\<lambda>c. \<not> is_space c) r\<rparr>))"

text \<open>
  \<open>operator>>\<close> into a number: an optional sign and digits.  Without digits the variable becomes
  zero, a number out of the range of the type gives the nearest bound, and in both cases the stream fails.
\<close>

definition number_sign :: "string \<Rightarrow> bool \<times> string" where
  "number_sign r =
     (case r of [] \<Rightarrow> (False, r)
      | c # cs \<Rightarrow> if c = CHR ''-'' then (True, cs) else if c = CHR ''+'' then (False, cs) else (False, r))"

definition get_number :: "(bool \<Rightarrow> nat \<Rightarrow> 'v \<times> bool) \<Rightarrow> 'v \<Rightarrow> istream \<Rightarrow> 'v \<Rightarrow> 'v \<times> istream" where
  "get_number convert dflt st old =
     (let r = dropWhile is_space (unread st) in
      if fail_bit st then (old, st)
      else if r = [] then (old, \<lparr>unread = [], fail_bit = True\<rparr>)
      else
        (case number_sign r of (neg, r) \<Rightarrow>
         let ds = takeWhile is_digit r;
             r = dropWhile is_digit r in
         if ds = [] then (dflt, \<lparr>unread = r, fail_bit = True\<rparr>)
         else (case convert neg (digits_value ds) of (v, ok) \<Rightarrow> (v, \<lparr>unread = r, fail_bit = \<not> ok\<rparr>))))"

text \<open>A signed type of the given width, and \<open>uint64_t\<close>, for which a sign negates modulo \<open>2 ^ 64\<close>.\<close>

definition signed_convert :: "nat \<Rightarrow> bool \<Rightarrow> nat \<Rightarrow> int \<times> bool" where
  "signed_convert width neg n =
     (if neg then
        if int n \<le> 2 ^ (width - 1) then (- int n, True) else (- (2 ^ (width - 1)), False)
      else if int n < 2 ^ (width - 1) then (int n, True) else (2 ^ (width - 1) - 1, False))"

definition uint64_convert :: "bool \<Rightarrow> nat \<Rightarrow> 64 word \<times> bool" where
  "uint64_convert neg n =
     (if n < 2 ^ 64 then (if neg then - of_nat n else of_nat n, True) else (- 1, False))"

abbreviation "get_int \<equiv> get_number (signed_convert 32) 0"
abbreviation "get_long \<equiv> get_number (signed_convert 64) 0"
abbreviation "get_uint64 \<equiv> get_number uint64_convert 0"

text \<open>The lines that \<open>std::getline\<close> returns.\<close>

function read_lines :: "string \<Rightarrow> string list" where
  "read_lines s =
     (if s = [] then []
      else takeWhile (\<lambda>c. c \<noteq> CHR 0x0A) s # read_lines (drop 1 (dropWhile (\<lambda>c. c \<noteq> CHR 0x0A) s)))"
  by pat_completeness auto
termination
proof (relation "measure length")
  fix s :: string
  assume "s \<noteq> []"
  moreover have "length (dropWhile (\<lambda>c. c \<noteq> CHR 0x0A) s) \<le> length s" by (rule length_dropWhile_le)
  ultimately show "(drop 1 (dropWhile (\<lambda>c. c \<noteq> CHR 0x0A) s), s) \<in> measure length"
    by (cases s) auto
qed simp

declare read_lines.simps [simp del]

section \<open>The collector\<close>

text \<open>The registration of a family of metrics and the addition of a metric to it are one call, with the labels of the metric.\<close>

record 'm prom_api =
  Register_Gauge :: "string \<Rightarrow> (string \<times> string) list \<Rightarrow> 'm \<Rightarrow> addr \<times> 'm"
  Register_Counter :: "string \<Rightarrow> 'm \<Rightarrow> addr \<times> 'm"
  Gauge_Set :: "addr \<Rightarrow> real \<Rightarrow> 'm \<Rightarrow> 'm"
  Counter_Increment :: "addr \<Rightarrow> real \<Rightarrow> 'm \<Rightarrow> 'm"
  PushAdd :: "'m \<Rightarrow> int \<times> 'm"

record cpu_time =
  time_user :: "64 word"
  time_user_low :: "64 word"
  time_sys :: "64 word"
  time_idle :: "64 word"

record CPUInfo =
  gauge :: addr
  cpu_times :: cpu_time
  last_total :: "64 word"
  last_non_idle :: "64 word"

record collector =
  cpu_usage :: "string \<rightharpoonup> CPUInfo"
  memory_used_gauge :: addr
  packets_received_counter :: "addr option"
  packets_passed_counter :: "addr option"
  packets_dropped_counter :: "addr option"
  push_errors_total :: "addr option"

section \<open>The constructor\<close>

text \<open>One line of \<open>/proc/stat\<close>; \<open>u\<close> is what the uninitialised local variable holds.\<close>

definition read_cpu :: "cpu_time \<Rightarrow> istream \<Rightarrow> string \<Rightarrow> string \<times> cpu_time \<times> istream" where
  "read_cpu u st name =
     (case get_word st name of (name, st) \<Rightarrow>
      case get_uint64 st (time_user u) of (v1, st) \<Rightarrow>
      case get_uint64 st (time_user_low u) of (v2, st) \<Rightarrow>
      case get_uint64 st (time_sys u) of (v3, st) \<Rightarrow>
      case get_uint64 st (time_idle u) of (v4, st) \<Rightarrow>
      let st = ((\<lambda>st. snd (get_int st 0)) ^^ 6) st in
      (name, \<lparr>time_user = v1, time_user_low = v2, time_sys = v3, time_idle = v4\<rparr>, st))"

text \<open>\<open>insert\<close> of an \<open>unordered_map\<close> keeps an entry that exists.\<close>

definition map_insert :: "'k \<Rightarrow> 'v \<Rightarrow> ('k \<rightharpoonup> 'v) \<Rightarrow> 'k \<rightharpoonup> 'v" where
  "map_insert k v m = (if m k = None then m(k \<mapsto> v) else m)"

partial_function (option) read_cpus ::
  "'m prom_api \<Rightarrow> cpu_time \<Rightarrow> istream \<Rightarrow> string \<Rightarrow> (string \<rightharpoonup> CPUInfo) \<Rightarrow> 'm \<Rightarrow> ((string \<rightharpoonup> CPUInfo) \<times> 'm) option" where
  "read_cpus P u st name cpus m =
     (case read_cpu u st name of (name, t, st) \<Rightarrow>
      if take 3 name \<noteq> ''cpu'' then Some (cpus, m)
      else
        (case Register_Gauge P ''cpu_usage'' [(''cpu'', name)] m of (g, m) \<Rightarrow>
         read_cpus P u st name
           (map_insert name \<lparr>gauge = g, cpu_times = t, last_total = 0, last_non_idle = 0\<rparr> cpus) m))"

declare read_cpus.simps [code]

text \<open>\<open>None\<close>: the loop never ends.  A file that does not open gives a stream that has failed.\<close>

definition new_collector :: "'m prom_api \<Rightarrow> cpu_time \<Rightarrow> string option \<Rightarrow> 'm \<Rightarrow> (collector \<times> 'm) option" where
  "new_collector P u proc_stat m =
     (case Register_Gauge P ''memory_used'' [] m of (mem, m) \<Rightarrow>
      case Register_Counter P ''packets_received_total'' m of (rec, m) \<Rightarrow>
      case Register_Counter P ''packets_passed_total'' m of (pas, m) \<Rightarrow>
      case Register_Counter P ''packets_dropped_total'' m of (dro, m) \<Rightarrow>
      case Register_Counter P ''push_errors_total'' m of (err, m) \<Rightarrow>
      let st = (case proc_stat of None \<Rightarrow> \<lparr>unread = [], fail_bit = True\<rparr>
                | Some s \<Rightarrow> \<lparr>unread = s, fail_bit = False\<rparr>) in
      (case read_cpus P u st [] Map.empty m of
         None \<Rightarrow> None
       | Some (cpus, m) \<Rightarrow> Some
           (\<lparr>cpu_usage = cpus, memory_used_gauge = mem, packets_received_counter = Some rec,
             packets_passed_counter = Some pas, packets_dropped_counter = Some dro, push_errors_total = Some err\<rparr>, m)))"

section \<open>Readings\<close>

definition GetMemoryUsed :: "string option \<Rightarrow> int \<Rightarrow> real" where
  "GetMemoryUsed statm pagesize =
     (case statm of
        None \<Rightarrow> 0
      | Some s \<Rightarrow>
          (case get_long \<lparr>unread = s, fail_bit = False\<rparr> 0 of (total_pages, st) \<Rightarrow>
           case get_long st 0 of (rss_pages, st) \<Rightarrow>
           rnd (rnd (of_int rss_pages) * rnd (of_int pagesize))))"

fun get_longs :: "istream \<Rightarrow> int list \<Rightarrow> int list" where
  "get_longs st [] = []"
| "get_longs st (old # olds) = (case get_long st old of (v, st) \<Rightarrow> v # get_longs st olds)"

definition double_of_uint64 :: "64 word \<Rightarrow> real" where
  "double_of_uint64 n = rnd (of_nat (unat n))"

text \<open>\<open>(double) non_idle_diff / total_diff * 100.0\<close>.\<close>

definition cpu_percent :: "64 word \<Rightarrow> 64 word \<Rightarrow> real" where
  "cpu_percent total_diff non_idle_diff =
     (if total_diff = 0 then 0
      else rnd (rnd (double_of_uint64 non_idle_diff / double_of_uint64 total_diff) * 100))"

text \<open>
  The body of the loop over the lines; \<open>junk\<close> are the ten uninitialised variables \<open>user\<close>, \<open>nice\<close>,
  \<open>sys\<close>, \<open>idle\<close>, \<open>iowait\<close>, \<open>irq\<close>, \<open>softirq\<close>, \<open>steal\<close>, \<open>guest\<close>, \<open>guest_nice\<close>.  Their sum, of
  type \<open>long\<close> before it is assigned to an unsigned variable, is taken modulo \<open>2 ^ 64\<close>.
\<close>

definition line_times :: "int list \<Rightarrow> string \<Rightarrow> string \<times> 64 word \<times> 64 word" where
  "line_times junk line =
     (case get_word \<lparr>unread = line, fail_bit = False\<rparr> [] of (name, st) \<Rightarrow>
      let t = get_longs st junk;
          non_idle = of_int (t ! 0 + t ! 1 + t ! 2 + t ! 5 + t ! 6 + t ! 7);
          all = non_idle + of_int (t ! 3) + of_int (t ! 4) in
      (name, non_idle, all))"

definition cpu_line :: "'m prom_api \<Rightarrow> int list \<Rightarrow> string \<Rightarrow> collector \<times> 'm \<Rightarrow> collector \<times> 'm" where
  "cpu_line P junk line s =
     (case s of (c, m) \<Rightarrow>
      case line_times junk line of (name, non_idle, all) \<Rightarrow>
      if name = [] then (c, m)
      else
        (case cpu_usage c name of
           None \<Rightarrow> (c, m)
         | Some cpu \<Rightarrow>
             let m = (if last_total cpu > 0 then
                        Gauge_Set P (gauge cpu) (cpu_percent (all - last_total cpu) (non_idle - last_non_idle cpu)) m
                      else m) in
             (c\<lparr>cpu_usage := (cpu_usage c)(name \<mapsto> cpu\<lparr>last_total := all, last_non_idle := non_idle\<rparr>)\<rparr>, m)))"

fun cpu_lines :: "'m prom_api \<Rightarrow> int list \<Rightarrow> string list \<Rightarrow> collector \<times> 'm \<Rightarrow> collector \<times> 'm" where
  "cpu_lines P junk [] s = s"
| "cpu_lines P junk (line # ls) s =
     (if take 3 line \<noteq> ''cpu'' then s else cpu_lines P junk ls (cpu_line P junk line s))"

definition GetCPUUsage :: "'m prom_api \<Rightarrow> int list \<Rightarrow> string option \<Rightarrow> collector \<times> 'm \<Rightarrow> collector \<times> 'm" where
  "GetCPUUsage P junk proc_stat s =
     (case proc_stat of None \<Rightarrow> s | Some text \<Rightarrow> cpu_lines P junk (read_lines text) s)"

section \<open>Counters and the thread\<close>

definition increment :: "'m prom_api \<Rightarrow> addr option \<Rightarrow> 64 word \<Rightarrow> 'm \<Rightarrow> 'm" where
  "increment P counter count m =
     (case counter of None \<Rightarrow> m | Some a \<Rightarrow> Counter_Increment P a (double_of_uint64 count) m)"

definition IncrementPacketsReceived :: "'m prom_api \<Rightarrow> collector \<Rightarrow> 64 word \<Rightarrow> 'm \<Rightarrow> 'm" where
  "IncrementPacketsReceived P c count m = increment P (packets_received_counter c) count m"

definition IncrementPacketsPassed :: "'m prom_api \<Rightarrow> collector \<Rightarrow> 64 word \<Rightarrow> 'm \<Rightarrow> 'm" where
  "IncrementPacketsPassed P c count m = increment P (packets_passed_counter c) count m"

definition IncrementPacketsDropped :: "'m prom_api \<Rightarrow> collector \<Rightarrow> 64 word \<Rightarrow> 'm \<Rightarrow> 'm" where
  "IncrementPacketsDropped P c count m = increment P (packets_dropped_counter c) count m"

definition PushMetrics :: "'m prom_api \<Rightarrow> collector \<Rightarrow> 'm \<Rightarrow> 'm" where
  "PushMetrics P c m =
     (case PushAdd P m of (status, m) \<Rightarrow>
      if status \<noteq> 200 then increment P (push_errors_total c) 1 m else m)"

text \<open>
  The thread: each element is what one iteration reads, the contents of the two files; after the last
  one the flag \<open>is_running\<close> is down.
\<close>

record readings =
  statm :: "string option"
  proc_stat :: "string option"

fun metrics_MainLoop :: "'m prom_api \<Rightarrow> int list \<Rightarrow> int \<Rightarrow> readings list \<Rightarrow> collector \<times> 'm \<Rightarrow> collector \<times> 'm" where
  "metrics_MainLoop P junk pagesize [] s = s"
| "metrics_MainLoop P junk pagesize (r # rs) (c, m) =
     (let m = Gauge_Set P (memory_used_gauge c) (GetMemoryUsed (statm r) pagesize) m in
      case GetCPUUsage P junk (proc_stat r) (c, m) of (c, m) \<Rightarrow>
      metrics_MainLoop P junk pagesize rs (c, PushMetrics P c m))"

section \<open>The contract of the client library\<close>

locale prometheus =
  fixes P :: "'m prom_api" and metric :: "'m \<Rightarrow> addr \<Rightarrow> real"
  assumes gauge_set: "metric (Gauge_Set P a v m) = (metric m)(a := v)"
    and counter_increment: "0 \<le> v \<Longrightarrow> metric (Counter_Increment P a v m) = (metric m)(a := rnd (metric m a + v))"

section \<open>Percentages\<close>

lemma double_of_uint64_nonneg: "0 \<le> double_of_uint64 n"
  unfolding double_of_uint64_def by (rule rnd_nonneg) (rule of_nat_0_le_iff)

lemma double_of_uint64_pos: "n \<noteq> 0 \<Longrightarrow> 0 < double_of_uint64 n"
  unfolding double_of_uint64_def by (rule rnd_positive) (simp only: of_nat_0_less_iff unat_gt_0 simp_thms)

lemma double_of_uint64_mono: "m \<le> n \<Longrightarrow> double_of_uint64 m \<le> double_of_uint64 n"
  unfolding double_of_uint64_def word_le_nat_alt
  by (rule rnd_mono) (simp_all only: of_nat_0_le_iff of_nat_le_iff)

lemma double_of_uint64_exact:
  assumes "unat n < 2 ^ 53"
  shows "double_of_uint64 n = real (unat n)"
proof -
  have "int (unat n) < int (2 ^ 53)" using assms by (simp only: of_nat_less_iff)
  then have "rnd (of_int (int (unat n))) = of_int (int (unat n))" by (intro rnd_of_int) simp_all
  then show ?thesis unfolding double_of_uint64_def of_int_of_nat_eq .
qed

lemma cpu_percent_nonneg: "0 \<le> cpu_percent t n"
  using double_of_uint64_nonneg by (simp add: cpu_percent_def)

lemma cpu_percent_le:
  assumes "n \<le> t"
  shows "cpu_percent t n \<le> 100"
proof (cases "t = 0")
  case False
  let ?q = "double_of_uint64 n / double_of_uint64 t"
  have q: "0 \<le> ?q" "?q \<le> 1"
    using double_of_uint64_pos [OF False] double_of_uint64_mono [OF assms] double_of_uint64_nonneg [of n] by simp_all
  then have "rnd ?q \<le> 1" using rnd_mono [of ?q 1] by simp
  with q have "rnd (rnd ?q * 100) \<le> rnd 100" by (intro rnd_mono) simp_all
  also have "rnd 100 = (100 :: real)" by (rule rnd_numeral) simp
  finally show ?thesis using False by (simp add: cpu_percent_def)
qed (simp add: cpu_percent_def)

text \<open>
  A line continues the last reading of its processor when the time not idle has not grown by more
  than the total: so it is when no component has gone back and the sum of the steps fits in 64 bits.
\<close>

definition continues :: "collector \<Rightarrow> int list \<Rightarrow> string \<Rightarrow> bool" where
  "continues c junk line \<longleftrightarrow>
     (case line_times junk line of (name, non_idle, all) \<Rightarrow>
      case cpu_usage c name of None \<Rightarrow> True
      | Some cpu \<Rightarrow> non_idle - last_non_idle cpu \<le> all - last_total cpu)"

lemma steps_continue:
  fixes busy idle :: "64 word"
  assumes "unat busy + unat idle < 2 ^ 64"
  shows "(non_idle + busy) - non_idle \<le> (all + busy + idle) - all"
  using assms by (simp add: word_le_nat_alt unat_word_ariths)

definition cpu_prefix :: "string list \<Rightarrow> string list" where
  "cpu_prefix = takeWhile (\<lambda>line. take 3 line = ''cpu'')"

lemma cpu_lines_prefix: "cpu_lines P junk ls s = cpu_lines P junk (cpu_prefix ls) s"
  by (induction ls arbitrary: s) (simp_all add: cpu_prefix_def)

definition kept_reading :: "collector \<Rightarrow> int list \<Rightarrow> string \<Rightarrow> bool" where
  "kept_reading c junk line \<longleftrightarrow>
     (case line_times junk line of (name, non_idle, all) \<Rightarrow>
      case cpu_usage c name of None \<Rightarrow> True
      | Some cpu \<Rightarrow> last_non_idle cpu = non_idle \<and> last_total cpu = all)"

lemma cpu_line_other:
  assumes "cpu_line P junk line (c, m) = (c', m')" "name \<noteq> fst (line_times junk line)"
  shows "cpu_usage c' name = cpu_usage c name"
  using assms by (auto simp: cpu_line_def Let_def split: prod.splits option.splits if_splits)

lemma cpu_line_dom:
  assumes "cpu_line P junk line (c, m) = (c', m')"
  shows "dom (cpu_usage c') = dom (cpu_usage c)"
  using assms by (auto simp: cpu_line_def Let_def split: prod.splits option.splits if_splits)

lemma cpu_line_kept:
  assumes "cpu_line P junk line (c, m) = (c', m')" "fst (line_times junk line) \<noteq> []"
  shows "kept_reading c' junk line"
  using assms by (auto simp: cpu_line_def kept_reading_def Let_def split: prod.splits option.splits if_splits)

lemma cpu_name_nonempty:
  assumes "take 3 line = ''cpu''"
  shows "fst (line_times junk line) \<noteq> []"
proof -
  obtain rest where "line = ''cpu'' @ rest"
    using assms append_take_drop_id [of 3 line] by metis
  then show ?thesis
    by (simp add: line_times_def get_word_def is_space_def Let_def split: prod.split)
qed

context prometheus
begin

lemma cpu_line_gauges:
  assumes "cpu_line P junk line (c, m) = (c', m')" "continues c junk line"
  shows "metric m' a = metric m a \<or> 0 \<le> metric m' a \<and> metric m' a \<le> 100"
  using assms cpu_percent_nonneg cpu_percent_le
  by (auto simp: cpu_line_def continues_def Let_def gauge_set split: prod.splits option.splits if_splits)

lemma cpu_lines_gauges:
  assumes "cpu_lines P junk ls (c, m) = (c', m')" "\<And>l. l \<in> set ls \<Longrightarrow> take 3 l = ''cpu'' \<and> continues c junk l"
    "distinct (map (\<lambda>l. fst (line_times junk l)) ls)"
  shows "(\<forall>a. metric m' a = metric m a \<or> 0 \<le> metric m' a \<and> metric m' a \<le> 100) \<and>
    dom (cpu_usage c') = dom (cpu_usage c) \<and>
    (\<forall>n. n \<notin> (\<lambda>l. fst (line_times junk l)) ` set ls \<longrightarrow> cpu_usage c' n = cpu_usage c n) \<and>
    (\<forall>l \<in> set ls. kept_reading c' junk l)"
  using assms
proof (induction ls arbitrary: c m)
  case (Cons l ls)
  obtain c1 m1 where step: "cpu_line P junk l (c, m) = (c1, m1)" by fastforce
  have other: "cpu_usage c1 (fst (line_times junk k)) = cpu_usage c (fst (line_times junk k))" if "k \<in> set ls" for k
    using cpu_line_other [OF step] that Cons.prems(3) by (auto simp: image_iff)
  have goes_on: "continues c1 junk k" if "k \<in> set ls" for k
    using other [OF that] Cons.prems(2) [of k] that by (simp add: continues_def split: prod.splits)
  have run: "cpu_lines P junk ls (c1, m1) = (c', m')"
    using Cons.prems(1,2) step by simp
  note IH = Cons.IH [OF run]
  have "kept_reading c1 junk l"
    using cpu_line_kept [OF step cpu_name_nonempty] Cons.prems(2) by simp
  moreover have "cpu_usage c' (fst (line_times junk l)) = cpu_usage c1 (fst (line_times junk l))"
    using IH goes_on Cons.prems(2,3) by simp
  ultimately have kept: "kept_reading c' junk l"
    by (simp add: kept_reading_def split: prod.splits)
  have gauges: "metric m' a = metric m a \<or> 0 \<le> metric m' a \<and> metric m' a \<le> 100" for a
    using IH goes_on Cons.prems(2,3) cpu_line_gauges [OF step, of a] by (auto dest: spec [of _ a])
  show ?case
    using IH goes_on Cons.prems(2,3) gauges kept cpu_line_dom [OF step] cpu_line_other [OF step] by auto
qed simp

end

section \<open>Reading words and numbers\<close>

text \<open>The rest of a stream in which a word or a number ends: nothing, or white space.\<close>

definition cut :: "string \<Rightarrow> bool" where
  "cut r \<longleftrightarrow> r = [] \<or> is_space (hd r)"

abbreviation blank :: "string \<Rightarrow> bool" where
  "blank \<equiv> list_all is_space"

definition is_word :: "string \<Rightarrow> bool" where
  "is_word w \<longleftrightarrow> w \<noteq> [] \<and> list_all (\<lambda>c. \<not> is_space c) w"

definition is_number :: "string \<Rightarrow> bool" where
  "is_number d \<longleftrightarrow> d \<noteq> [] \<and> list_all is_digit d"

lemma digit_no_space: "is_digit c \<Longrightarrow> \<not> is_space c"
  by (auto simp: is_digit_def is_space_def)

lemma digit_no_sign: "is_digit c \<Longrightarrow> c \<noteq> CHR ''-'' \<and> c \<noteq> CHR ''+''"
  by (auto simp: is_digit_def)

lemma dropWhile_blank: "blank b \<Longrightarrow> dropWhile is_space (b @ r) = dropWhile is_space r"
  by (induction b) auto

lemma skip_blank:
  assumes "blank b" "w \<noteq> []" "\<not> is_space (hd w)"
  shows "dropWhile is_space (b @ w @ r) = w @ r"
  using assms by (cases w) (simp_all add: dropWhile_blank)

lemma takeWhile_cut:
  assumes "list_all p w" "r = [] \<or> \<not> p (hd r)"
  shows "takeWhile p (w @ r) = w" "dropWhile p (w @ r) = r"
  using assms by (induction w; cases r; auto)+

lemma get_word_run:
  assumes "blank b" "is_word w" "cut r"
  shows "get_word \<lparr>unread = b @ w @ r, fail_bit = False\<rparr> old = (w, \<lparr>unread = r, fail_bit = False\<rparr>)"
proof -
  have "dropWhile is_space (b @ w @ r) = w @ r"
    using assms by (intro skip_blank) (auto simp: is_word_def list_all_iff)
  then show ?thesis
    using assms takeWhile_cut [of "\<lambda>c. \<not> is_space c" w r] by (simp add: get_word_def is_word_def cut_def Let_def)
qed

lemma get_number_run:
  assumes "blank b" "is_number d" "cut r"
  shows "get_number convert dflt \<lparr>unread = b @ d @ r, fail_bit = False\<rparr> old =
     (case convert False (digits_value d) of (v, ok) \<Rightarrow> (v, \<lparr>unread = r, fail_bit = \<not> ok\<rparr>))"
proof -
  have d: "d \<noteq> []" "is_digit (hd d)" using assms(2) by (auto simp: is_number_def list_all_iff)
  then have "dropWhile is_space (b @ d @ r) = d @ r"
    using assms(1) digit_no_space by (intro skip_blank) auto
  moreover have "number_sign (d @ r) = (False, d @ r)"
    using d digit_no_sign by (cases d) (auto simp: number_sign_def)
  moreover have "takeWhile is_digit (d @ r) = d" "dropWhile is_digit (d @ r) = r"
    using assms(2,3) digit_no_space by (intro takeWhile_cut; auto simp: is_number_def cut_def)+
  ultimately show ?thesis
    using d by (simp add: get_number_def Let_def)
qed

text \<open>A stream that has failed stays as it is.\<close>

lemma get_failed:
  assumes "fail_bit st"
  shows "get_word st old = (old, st)" "get_number convert dflt st v = (v, st)"
  using assms by (simp_all add: get_word_def get_number_def Let_def)

section \<open>The lines of the processors\<close>

text \<open>A line: a name, and numbers each after some white space.\<close>

definition fields_text :: "(string \<times> string) list \<Rightarrow> string" where
  "fields_text fs = concat (map (\<lambda>f. fst f @ snd f) fs)"

definition entry_text :: "string \<times> (string \<times> string) list \<Rightarrow> string" where
  "entry_text e = fst e @ fields_text (snd e) @ [CHR 0x0A]"

definition field_ok :: "nat \<Rightarrow> string \<times> string \<Rightarrow> bool" where
  "field_ok n f \<longleftrightarrow> fst f \<noteq> [] \<and> blank (fst f) \<and> is_number (snd f) \<and> digits_value (snd f) < n"

definition entry_ok :: "string \<times> (string \<times> string) list \<Rightarrow> bool" where
  "entry_ok e \<longleftrightarrow>
     is_word (fst e) \<and> take 3 (fst e) = ''cpu'' \<and> length (snd e) = 10 \<and>
     list_all (field_ok (2 ^ 64)) (take 4 (snd e)) \<and> list_all (field_ok (2 ^ 31)) (drop 4 (snd e))"

lemma cut_blank: "b \<noteq> [] \<Longrightarrow> blank b \<Longrightarrow> cut (b @ r)"
  by (cases b) (auto simp: cut_def)

lemma cut_newline [simp]: "cut (CHR 0x0A # r)"
  by (simp add: cut_def is_space_def)

lemma cut_fields: "list_all (\<lambda>f. fst f \<noteq> [] \<and> blank (fst f)) fs \<Longrightarrow> cut r \<Longrightarrow> cut (fields_text fs @ r)"
  by (cases fs) (auto simp: fields_text_def intro: cut_blank)

lemma get_uint64_field:
  assumes "field_ok (2 ^ 64) f" "cut r"
  shows "\<exists>v. get_uint64 \<lparr>unread = fst f @ snd f @ r, fail_bit = False\<rparr> old = (v, \<lparr>unread = r, fail_bit = False\<rparr>)"
  using assms by (simp add: field_ok_def get_number_run uint64_convert_def)

lemma get_int_field:
  assumes "field_ok n f" "cut r"
  shows "snd (get_int \<lparr>unread = fst f @ snd f @ r, fail_bit = False\<rparr> old) =
    \<lparr>unread = r, fail_bit = 2 ^ 31 \<le> digits_value (snd f)\<rparr>"
  using assms by (auto simp: field_ok_def get_number_run signed_convert_def)

lemma skip_ints:
  assumes "list_all (field_ok (2 ^ 31)) fs" "cut r"
  shows "((\<lambda>st. snd (get_int st 0)) ^^ length fs) \<lparr>unread = fields_text fs @ r, fail_bit = False\<rparr> =
    \<lparr>unread = r, fail_bit = False\<rparr>"
  using assms(1)
proof (induction fs)
  case (Cons f fs)
  then have "cut (fields_text fs @ r)"
    using assms(2) by (intro cut_fields) (auto simp: list_all_iff field_ok_def)
  then have "snd (get_int \<lparr>unread = fields_text (f # fs) @ r, fail_bit = False\<rparr> 0) =
      \<lparr>unread = fields_text fs @ r, fail_bit = False\<rparr>"
    using get_int_field [of "2 ^ 31" f "fields_text fs @ r" 0] Cons.prems
    by (simp add: fields_text_def field_ok_def)
  with Cons show ?case by (simp add: funpow_Suc_right del: funpow.simps)
qed (simp add: fields_text_def)

lemma skip_ints_failed: "fail_bit st \<Longrightarrow> ((\<lambda>st. snd (get_int st 0)) ^^ n) st = st"
  by (induction n) (simp_all add: get_failed)

text \<open>The name and the four counters of a line that begins with them.\<close>

lemma read_cpu_head:
  assumes "blank b" "is_word name" "list_all (field_ok (2 ^ 64)) [f1, f2, f3, f4]" "cut r"
  obtains t where "read_cpu u \<lparr>unread = b @ name @ fields_text [f1, f2, f3, f4] @ r, fail_bit = False\<rparr> old =
    (name, t, ((\<lambda>st. snd (get_int st 0)) ^^ 6) \<lparr>unread = r, fail_bit = False\<rparr>)"
proof -
  have cuts: "cut (fields_text [f1, f2, f3, f4] @ r)" "cut (fields_text [f2, f3, f4] @ r)" "cut (fields_text [f3, f4] @ r)"
    "cut (fields_text [f4] @ r)"
    using assms(3,4) by (intro cut_fields; simp add: field_ok_def)+
  obtain v1 v2 v3 v4 where
    "get_uint64 \<lparr>unread = fields_text [f1, f2, f3, f4] @ r, fail_bit = False\<rparr> (time_user u) =
      (v1, \<lparr>unread = fields_text [f2, f3, f4] @ r, fail_bit = False\<rparr>)"
    "get_uint64 \<lparr>unread = fields_text [f2, f3, f4] @ r, fail_bit = False\<rparr> (time_user_low u) =
      (v2, \<lparr>unread = fields_text [f3, f4] @ r, fail_bit = False\<rparr>)"
    "get_uint64 \<lparr>unread = fields_text [f3, f4] @ r, fail_bit = False\<rparr> (time_sys u) =
      (v3, \<lparr>unread = fields_text [f4] @ r, fail_bit = False\<rparr>)"
    "get_uint64 \<lparr>unread = fields_text [f4] @ r, fail_bit = False\<rparr> (time_idle u) = (v4, \<lparr>unread = r, fail_bit = False\<rparr>)"
    using get_uint64_field [of f1 "fields_text [f2, f3, f4] @ r" "time_user u"]
      get_uint64_field [of f2 "fields_text [f3, f4] @ r" "time_user_low u"]
      get_uint64_field [of f3 "fields_text [f4] @ r" "time_sys u"]
      get_uint64_field [of f4 r "time_idle u"] assms(3,4) cuts
    by (auto simp: fields_text_def)
  then show ?thesis
    using that get_word_run [OF assms(1,2) cuts(1), of old] unfolding read_cpu_def by (simp add: Let_def)
qed

lemma four_fields:
  assumes "4 \<le> length fs"
  obtains f1 f2 f3 f4 where "fs = [f1, f2, f3, f4] @ drop 4 fs" "take 4 fs = [f1, f2, f3, f4]"
proof -
  have "\<exists>a b c d. ys = [a, b, c, d]" if "length ys = 4" for ys :: "'a list"
    using that by (auto simp: eval_nat_numeral length_Suc_conv)
  moreover have "length (take 4 fs) = 4" using assms by simp
  ultimately obtain f1 f2 f3 f4 where "take 4 fs = [f1, f2, f3, f4]" by blast
  with that show ?thesis using append_take_drop_id [of 4 fs] by metis
qed

lemma fields_text_append: "fields_text (fs @ gs) = fields_text fs @ fields_text gs"
  by (simp add: fields_text_def)

lemma read_cpu_entry:
  assumes "blank b" "entry_ok e"
  obtains t where "read_cpu u \<lparr>unread = b @ entry_text e @ r, fail_bit = False\<rparr> old =
    (fst e, t, \<lparr>unread = CHR 0x0A # r, fail_bit = False\<rparr>)"
proof -
  obtain f1 f2 f3 f4 where fs: "snd e = [f1, f2, f3, f4] @ drop 4 (snd e)" "take 4 (snd e) = [f1, f2, f3, f4]"
    using assms(2) by (auto simp: entry_ok_def intro: four_fields [of "snd e"])
  let ?r = "fields_text (drop 4 (snd e)) @ CHR 0x0A # r"
  have ints: "list_all (field_ok (2 ^ 31)) (drop 4 (snd e))" "length (drop 4 (snd e)) = 6"
    using assms(2) by (simp_all add: entry_ok_def)
  then have cut: "cut ?r"
    by (intro cut_fields) (auto simp: list_all_iff field_ok_def)
  have "entry_text e @ r = fst e @ fields_text [f1, f2, f3, f4] @ ?r"
    using fields_text_append [of "[f1, f2, f3, f4]" "drop 4 (snd e)"] fs(1) by (simp add: entry_text_def)
  then show ?thesis
    using read_cpu_head [OF assms(1) _ _ cut, of "fst e" f1 f2 f3 f4 u old] that assms(2) fs(2)
      skip_ints [OF ints(1), of "CHR 0x0A # r"] ints(2)
    by (auto simp: entry_ok_def)
qed

text \<open>A line one of whose last six numbers does not fit in an \<open>int\<close> makes the stream fail.\<close>

definition entry_overflows :: "string \<times> (string \<times> string) list \<Rightarrow> bool" where
  "entry_overflows e \<longleftrightarrow>
     is_word (fst e) \<and> take 3 (fst e) = ''cpu'' \<and> length (snd e) = 10 \<and>
     list_all (field_ok (2 ^ 64)) (snd e) \<and> list_ex (\<lambda>f. 2 ^ 31 \<le> digits_value (snd f)) (drop 4 (snd e))"

lemma skip_ints_overflow:
  assumes "list_all (field_ok n) fs" "list_ex (\<lambda>f. 2 ^ 31 \<le> digits_value (snd f)) fs" "cut r"
  shows "fail_bit (((\<lambda>st. snd (get_int st 0)) ^^ length fs) \<lparr>unread = fields_text fs @ r, fail_bit = False\<rparr>)"
  using assms(1,2)
proof (induction fs)
  case (Cons f fs)
  then have "cut (fields_text fs @ r)"
    using assms(3) by (intro cut_fields) (auto simp: list_all_iff field_ok_def)
  then have "snd (get_int \<lparr>unread = fields_text (f # fs) @ r, fail_bit = False\<rparr> 0) =
      \<lparr>unread = fields_text fs @ r, fail_bit = 2 ^ 31 \<le> digits_value (snd f)\<rparr>"
    using get_int_field [of n f "fields_text fs @ r" 0] Cons.prems by (simp add: fields_text_def)
  with Cons show ?case
    by (cases "2 ^ 31 \<le> digits_value (snd f)") (simp_all add: funpow_Suc_right skip_ints_failed del: funpow.simps)
qed simp

lemma read_cpu_overflow:
  assumes "blank b" "entry_overflows e"
  obtains t st where "read_cpu u \<lparr>unread = b @ entry_text e @ r, fail_bit = False\<rparr> old = (fst e, t, st)" "fail_bit st"
proof -
  obtain f1 f2 f3 f4 where fs: "snd e = [f1, f2, f3, f4] @ drop 4 (snd e)" "take 4 (snd e) = [f1, f2, f3, f4]"
    using assms(2) by (auto simp: entry_overflows_def intro: four_fields [of "snd e"])
  let ?r = "fields_text (drop 4 (snd e)) @ CHR 0x0A # r"
  have all: "list_all (field_ok (2 ^ 64)) (take 4 (snd e))" "list_all (field_ok (2 ^ 64)) (drop 4 (snd e))" "length (drop 4 (snd e)) = 6"
    using assms(2) by (auto simp: entry_overflows_def list_all_iff dest: in_set_takeD in_set_dropD)
  then have cut: "cut ?r"
    by (intro cut_fields) (auto simp: list_all_iff field_ok_def)
  have "entry_text e @ r = fst e @ fields_text [f1, f2, f3, f4] @ ?r"
    using fields_text_append [of "[f1, f2, f3, f4]" "drop 4 (snd e)"] fs(1) by (simp add: entry_text_def)
  then show ?thesis
    using read_cpu_head [OF assms(1) _ _ cut, of "fst e" f1 f2 f3 f4 u old] that assms(2) all(1) fs(2)
      skip_ints_overflow [OF all(2), of "CHR 0x0A # r"] all(3)
    by (auto simp: entry_overflows_def)
qed

section \<open>The loop of the constructor\<close>

lemma read_cpu_failed:
  "fail_bit st \<Longrightarrow> \<exists>t. read_cpu u st name = (name, t, st)"
  by (simp add: read_cpu_def get_failed skip_ints_failed Let_def)

text \<open>With a stream that has failed after the name of a processor the loop never ends.\<close>

lemma read_cpus_stuck:
  assumes "fail_bit st" "take 3 name = ''cpu''"
  shows "read_cpus P u st name cpus m = None"
proof -
  let ?stuck = "\<lambda>x :: (((('a prom_api \<times> cpu_time) \<times> istream) \<times> string) \<times> (string \<rightharpoonup> CPUInfo)) \<times> 'a.
    case x of (((((P, u), st), name), cpus), m) \<Rightarrow> fail_bit st \<and> take 3 name = ''cpu''"
  have "\<not> ?stuck (((((P, u), st), name), cpus), m)" if "read_cpus P u st name cpus m = Some y" for y
  proof (rule read_cpus.raw_induct [OF _ that])
    fix f P u st name cpus m y
    assume IH: "\<And>P u st name cpus m y. f P u st name cpus m = Some y \<Longrightarrow> \<not> ?stuck (((((P, u), st), name), cpus), m)"
      and step: "(case read_cpu u st name of (name, t, st) \<Rightarrow>
      if take 3 name \<noteq> ''cpu'' then Some (cpus, m)
      else
        (case Register_Gauge P ''cpu_usage'' [(''cpu'', name)] m of (g, m) \<Rightarrow>
         f P u st name
           (map_insert name \<lparr>gauge = g, cpu_times = t, last_total = 0, last_non_idle = 0\<rparr> cpus) m)) = Some y"
    show "\<not> ?stuck (((((P, u), st), name), cpus), m)"
    proof
      assume "?stuck (((((P, u), st), name), cpus), m)"
      then have stuck: "fail_bit st" "take 3 name = ''cpu''" by simp_all
      then obtain t where "read_cpu u st name = (name, t, st)" using read_cpu_failed by blast
      with step stuck show False by (auto split: prod.splits dest: IH)
    qed
  qed
  with assms show ?thesis by (cases "read_cpus P u st name cpus m") auto
qed

lemma read_cpus_entry:
  assumes "blank b" "entry_ok e"
  obtains cpus' m' where "dom cpus' = insert (fst e) (dom cpus)"
    "read_cpus P u \<lparr>unread = b @ entry_text e @ r, fail_bit = False\<rparr> old cpus m =
     read_cpus P u \<lparr>unread = CHR 0x0A # r, fail_bit = False\<rparr> (fst e) cpus' m'"
proof -
  obtain t where t: "read_cpu u \<lparr>unread = b @ entry_text e @ r, fail_bit = False\<rparr> old =
      (fst e, t, \<lparr>unread = CHR 0x0A # r, fail_bit = False\<rparr>)"
    using read_cpu_entry [OF assms] .
  obtain g m' where g: "Register_Gauge P ''cpu_usage'' [(''cpu'', fst e)] m = (g, m')" by fastforce
  show ?thesis
    by (rule that [of "map_insert (fst e) \<lparr>gauge = g, cpu_times = t, last_total = 0, last_non_idle = 0\<rparr> cpus" m'])
      (use assms(2) t g in \<open>auto simp: map_insert_def read_cpus.simps [of P u "\<lparr>unread = b @ _, fail_bit = False\<rparr>"] entry_ok_def\<close>)
qed

lemma read_cpus_entries:
  assumes "blank b" "list_all entry_ok es"
  shows "\<exists>b' name cpus' m'. blank b' \<and> dom cpus' = dom cpus \<union> fst ` set es \<and>
     read_cpus P u \<lparr>unread = b @ concat (map entry_text es) @ r, fail_bit = False\<rparr> old cpus m =
     read_cpus P u \<lparr>unread = b' @ r, fail_bit = False\<rparr> name cpus' m'"
  using assms
proof (induction es arbitrary: b old cpus m)
  case Nil
  then show ?case by auto
next
  case (Cons e es)
  obtain cpus' m' where step: "dom cpus' = insert (fst e) (dom cpus)"
    "read_cpus P u \<lparr>unread = b @ entry_text e @ concat (map entry_text es) @ r, fail_bit = False\<rparr> old cpus m =
     read_cpus P u \<lparr>unread = CHR 0x0A # concat (map entry_text es) @ r, fail_bit = False\<rparr> (fst e) cpus' m'"
    using read_cpus_entry [OF Cons.prems(1), of e cpus P u "concat (map entry_text es) @ r" old m] Cons.prems(2) by auto
  have nl: "blank [CHR 0x0A]" by (simp add: is_space_def)
  show ?case
    using Cons.IH [OF nl, of cpus' "fst e" m'] Cons.prems(2) step by auto
qed

text \<open>The words after the processors end the loop; a number that is too large keeps it going.\<close>

lemma read_cpus_reads:
  assumes "list_all entry_ok es" "is_word w" "take 3 w \<noteq> ''cpu''" "cut r"
  shows "\<exists>cpus m'. read_cpus P u \<lparr>unread = concat (map entry_text es) @ w @ r, fail_bit = False\<rparr> [] Map.empty m = Some (cpus, m') \<and>
     dom cpus = fst ` set es"
proof -
  obtain b name cpus m' where b: "blank b" "dom cpus = fst ` set es"
    "read_cpus P u \<lparr>unread = concat (map entry_text es) @ w @ r, fail_bit = False\<rparr> [] Map.empty m =
     read_cpus P u \<lparr>unread = b @ w @ r, fail_bit = False\<rparr> name cpus m'"
    using read_cpus_entries [of "[]" es Map.empty P u "w @ r" "[]" m] assms(1) by auto
  have "fst (read_cpu u \<lparr>unread = b @ w @ r, fail_bit = False\<rparr> name) = w"
    using get_word_run [OF b(1) assms(2,4)] by (simp add: read_cpu_def Let_def split: prod.split)
  then have "read_cpus P u \<lparr>unread = b @ w @ r, fail_bit = False\<rparr> name cpus m' = Some (cpus, m')"
    using assms(3) by (subst read_cpus.simps) (auto split: prod.splits)
  with b show ?thesis by simp
qed

lemma read_cpus_never:
  assumes "list_all entry_ok es" "entry_overflows e'"
  shows "read_cpus P u \<lparr>unread = concat (map entry_text es) @ entry_text e' @ r, fail_bit = False\<rparr> [] Map.empty m = None"
proof -
  obtain b name cpus m' where b: "blank b"
    and run: "read_cpus P u \<lparr>unread = concat (map entry_text es) @ entry_text e' @ r, fail_bit = False\<rparr> [] Map.empty m =
     read_cpus P u \<lparr>unread = b @ entry_text e' @ r, fail_bit = False\<rparr> name cpus m'"
    using read_cpus_entries [of "[]" es Map.empty P u "entry_text e' @ r" "[]" m] assms(1) by auto
  obtain t st where "read_cpu u \<lparr>unread = b @ entry_text e' @ r, fail_bit = False\<rparr> name = (fst e', t, st)" "fail_bit st"
    using read_cpu_overflow [OF b assms(2)] .
  then show ?thesis
    using assms(2) unfolding run
    by (subst read_cpus.simps) (simp add: read_cpus_stuck entry_overflows_def split: prod.split)
qed

lemma new_collector_loop:
  obtains f m' where "\<And>cpus. cpu_usage (f cpus) = cpus"
    "\<And>s. new_collector P u s m =
       (case read_cpus P u (case s of None \<Rightarrow> \<lparr>unread = [], fail_bit = True\<rparr>
         | Some s \<Rightarrow> \<lparr>unread = s, fail_bit = False\<rparr>) [] Map.empty m' of None \<Rightarrow> None | Some (cpus, m) \<Rightarrow> Some (f cpus, m))"
proof -
  obtain mem m1 where m1: "Register_Gauge P ''memory_used'' [] m = (mem, m1)" by fastforce
  obtain a m2 where m2: "Register_Counter P ''packets_received_total'' m1 = (a, m2)" by fastforce
  obtain b m3 where m3: "Register_Counter P ''packets_passed_total'' m2 = (b, m3)" by fastforce
  obtain d m4 where m4: "Register_Counter P ''packets_dropped_total'' m3 = (d, m4)" by fastforce
  obtain e m5 where m5: "Register_Counter P ''push_errors_total'' m4 = (e, m5)" by fastforce
  show ?thesis
    by (rule that [of "\<lambda>cpus. \<lparr>cpu_usage = cpus, memory_used_gauge = mem, packets_received_counter = Some a,
        packets_passed_counter = Some b, packets_dropped_counter = Some d, push_errors_total = Some e\<rparr>" m5])
      (simp_all only: new_collector_def Let_def m1 m2 m3 m4 m5 prod.case collector.simps)
qed

lemma new_collector_reads:
  assumes "list_all entry_ok es" "is_word w" "take 3 w \<noteq> ''cpu''" "cut r"
  shows "\<exists>c m'. new_collector P u (Some (concat (map entry_text es) @ w @ r)) m = Some (c, m') \<and> dom (cpu_usage c) = fst ` set es"
proof (rule new_collector_loop [of P u m])
  fix f m' assume f: "\<And>cpus. cpu_usage (f cpus) = cpus"
    and run: "\<And>s. new_collector P u s m =
       (case read_cpus P u (case s of None \<Rightarrow> \<lparr>unread = [], fail_bit = True\<rparr>
         | Some s \<Rightarrow> \<lparr>unread = s, fail_bit = False\<rparr>) [] Map.empty m' of None \<Rightarrow> None | Some (cpus, m) \<Rightarrow> Some (f cpus, m))"
  obtain cpus m'' where r: "read_cpus P u \<lparr>unread = concat (map entry_text es) @ w @ r, fail_bit = False\<rparr> [] Map.empty m' = Some (cpus, m'')"
    "dom cpus = fst ` set es"
    using read_cpus_reads [OF assms, of P u m'] by (elim exE conjE) (rule that)
  show ?thesis
    by (rule exI [of _ "f cpus"], rule exI [of _ m'']) (simp only: run r option.case prod.case f simp_thms)
qed

lemma new_collector_stuck:
  assumes "list_all entry_ok es" "entry_overflows e'"
  shows "new_collector P u (Some (concat (map entry_text es) @ entry_text e' @ r)) m = None"
  by (rule new_collector_loop [of P u m]) (simp only: read_cpus_never [OF assms] option.case)

lemma new_collector_unopened: "\<exists>c m'. new_collector P u None m = Some (c, m') \<and> cpu_usage c = Map.empty"
proof (rule new_collector_loop [of P u m])
  fix f m' assume f: "\<And>cpus. cpu_usage (f cpus) = cpus"
    and run: "\<And>s. new_collector P u s m =
       (case read_cpus P u (case s of None \<Rightarrow> \<lparr>unread = [], fail_bit = True\<rparr>
         | Some s \<Rightarrow> \<lparr>unread = s, fail_bit = False\<rparr>) [] Map.empty m' of None \<Rightarrow> None | Some (cpus, m) \<Rightarrow> Some (f cpus, m))"
  have "read_cpus P u \<lparr>unread = [], fail_bit = True\<rparr> [] Map.empty m' = Some (Map.empty, m')"
    by (subst read_cpus.simps) (simp add: read_cpu_def get_failed skip_ints_failed Let_def)
  then show ?thesis
    by (intro exI [of _ "f Map.empty"] exI [of _ m']) (simp only: run option.case prod.case f simp_thms)
qed

section \<open>A sample client library\<close>

text \<open>The state is the next free address and the value of every metric.\<close>

definition ref_prom :: "(nat \<times> (addr \<Rightarrow> real)) prom_api" where
  "ref_prom =
     \<lparr>Register_Gauge = (\<lambda>name labels (n, f). (n, Suc n, f)), Register_Counter = (\<lambda>name (n, f). (n, Suc n, f)),
      Gauge_Set = (\<lambda>a v (n, f). (n, f(a := v))), Counter_Increment = (\<lambda>a v (n, f). (n, f(a := rnd (f a + v)))),
      PushAdd = (\<lambda>m. (200, m))\<rparr>"

interpretation ref_metrics: prometheus ref_prom snd
  by unfold_locales (simp_all add: ref_prom_def split: prod.splits)

definition no_times :: cpu_time where
  "no_times = \<lparr>time_user = 0, time_user_low = 0, time_sys = 0, time_idle = 0\<rparr>"

definition sample_collector :: collector where
  "sample_collector =
     \<lparr>cpu_usage = [''cpu0'' \<mapsto> \<lparr>gauge = 3, cpu_times = no_times, last_total = 100, last_non_idle = 50\<rparr>],
      memory_used_gauge = 0, packets_received_counter = Some 4, packets_passed_counter = Some 5,
      packets_dropped_counter = Some 6, push_errors_total = Some 7\<rparr>"

section \<open>Properties\<close>


definition sample_stat :: string where
  "sample_stat = ''cpu0 60 0 0 60 0 0 0 0 0 0'' @ CHR 0x0A # ''intr 1''"


lemma percent_above: "cpu_percent 1 2 = 200"
proof -
  have "rnd 2 = (2 :: real)" "rnd 200 = (200 :: real)" by (rule rnd_numeral; simp)+
  then show ?thesis by (simp add: cpu_percent_def double_of_uint64_def)
qed

text \<open>
  C36 (liveness).  The constructor returns when the lines of the processors, with four numbers of 64 bits and
  six that fit in an \<open>int\<close>, are followed by another word, and then it knows exactly the
  processors of the file; it also returns when the file cannot be opened.  It never returns when one of the six
  numbers is \<open>2 ^ 31\<close> or more: the stream fails, the name of the processor keeps its value, and
  the loop tests only the name.
\<close>

theorem new_collector_ends_iff_ints_fit:
  assumes "list_all entry_ok es" "is_word w" "take 3 w \<noteq> ''cpu''" "cut r" "entry_overflows e'"
  shows "(\<exists>c m'. new_collector P u (Some (concat (map entry_text es) @ w @ r)) m = Some (c, m') \<and>
       dom (cpu_usage c) = fst ` set es) \<and>
    (\<exists>c m'. new_collector P u None m = Some (c, m') \<and> cpu_usage c = Map.empty) \<and>
    new_collector P u (Some (concat (map entry_text es) @ entry_text e' @ r)) m = None"
  by (intro conjI new_collector_reads [OF assms(1-4)] new_collector_stuck [OF assms(1,5)] new_collector_unopened)

definition fields_of :: "string list \<Rightarrow> (string \<times> string) list" where
  "fields_of ds = map (\<lambda>d. ('' '', d)) ds"

theorem new_collector_ends_iff_ints_fit_witness:
  "(\<exists>c m'. new_collector ref_prom no_times (Some (''cpu 1 2 3 4 5 6 7 8 9 0'' @ CHR 0x0A # ''intr 1'')) (0, \<lambda>_. 0) = Some (c, m') \<and>
      dom (cpu_usage c) = {''cpu''}) \<and>
   new_collector ref_prom no_times (Some (''cpu 1 2 3 4 5 6 7 8 9 0'' @ CHR 0x0A # ''cpu0 1 2 3 4 2147483648 6 7 8 9 0'' @ CHR 0x0A # '' 1''))
     (0, \<lambda>_. 0) = None"
proof -
  let ?e = "(''cpu'', fields_of [''1'', ''2'', ''3'', ''4'', ''5'', ''6'', ''7'', ''8'', ''9'', ''0''])"
  let ?e' = "(''cpu0'', fields_of [''1'', ''2'', ''3'', ''4'', ''2147483648'', ''6'', ''7'', ''8'', ''9'', ''0''])"
  have "list_all entry_ok [?e]" "entry_overflows ?e'" "is_word ''intr''" "take 3 ''intr'' \<noteq> ''cpu''" "cut '' 1''"
    by (simp_all add: entry_ok_def entry_overflows_def fields_of_def field_ok_def is_word_def is_number_def is_space_def
        is_digit_def digits_value_def cut_def)
  moreover have "concat (map entry_text [?e]) @ ''intr'' @ '' 1'' = ''cpu 1 2 3 4 5 6 7 8 9 0'' @ CHR 0x0A # ''intr 1''"
    "concat (map entry_text [?e]) @ entry_text ?e' @ '' 1'' =
     ''cpu 1 2 3 4 5 6 7 8 9 0'' @ CHR 0x0A # ''cpu0 1 2 3 4 2147483648 6 7 8 9 0'' @ CHR 0x0A # '' 1''"
    by (simp_all add: entry_text_def fields_text_def fields_of_def)
  ultimately show ?thesis
    using new_collector_ends_iff_ints_fit [of "[?e]" "''intr''" "'' 1''" ?e' ref_prom no_times "(0, \<lambda>_. 0)"]
    by auto
qed

end
