(* ===== verification/Worker_Loop.thy ===== *)
theory Worker_Loop
  imports Policy Metrics
begin

text \<open>
  The main loop of the worker, \<open>Worker::MainLoop\<close> of \<open>src/worker/src/worker.cpp\<close>, with the methods it
  calls and the threads beside it.  An iteration is a sequence of steps of the main thread, one for each part of
  the body; between any two of them a detached thread may run \<open>requestPolicyFromController\<close> and
  a signal may set the flag that stops the loop.  The clock and \<open>rand\<close> are inputs of the steps.
\<close>

section \<open>Constants and state\<close>

definition MIN_POLICY_TIME :: int where "MIN_POLICY_TIME = 30"
definition MAX_POLICY_TIME :: int where "MAX_POLICY_TIME = 45"
definition METRICS_FLUSH_INTERVAL_SEC :: int where "METRICS_FLUSH_INTERVAL_SEC = 5"
definition DNS_CACHE_DEFAULT_TTL :: int where "DNS_CACHE_DEFAULT_TTL = 7 * 24 * 60 * 60"
definition IP_CACHE_DEFAULT_TTL :: int where "IP_CACHE_DEFAULT_TTL = 7 * 24 * 60 * 60"

text \<open>The clock counts nanoseconds.\<close>

abbreviation second :: int where "second \<equiv> 1000000000"

text \<open>The threads that the timers start, by the cache they save.\<close>

datatype save_thread = Saves_domains | Saves_addresses

record ('w, 'hi, 'hd, 'db, 'm) loop_state =
  proc :: "('w, 'hi, 'hd, 'db) proc_state"
  stop_flag :: bool
  state_log :: "(string \<times> string) list"
  metrics_collector :: "collector option"
  prom_state :: 'm
  local_policy :: BASE_POLICY
  last_policy_time :: int
  policy_interval :: int
  last_metrics_push_time :: int
  timer_check_counter :: "64 word"
  pending_requests :: nat
  pending_saves :: "save_thread list"

text \<open>The timers of DPDK: which of the two callbacks a call of \<open>rte_timer_manage\<close> runs; threads.\<close>

record 'w os_api =
  rte_timer_manage :: "'w \<Rightarrow> bool \<times> bool \<times> 'w"
  pthread_create :: "'w \<Rightarrow> int \<times> 'w"

section \<open>Methods\<close>

definition state_names :: "string list" where
  "state_names = [''BOOTING'', ''FREE'', ''BUSY'', ''SHUTTING_DOWN'', ''ERROR'']"

fun state_code :: "WorkerState \<Rightarrow> nat" where
  "state_code FREE = 0"
| "state_code SHUTTING_DOWN = 1"

text \<open>The line that is logged: the two names.\<close>

definition LogStateChange :: "WorkerState \<Rightarrow> WorkerState \<Rightarrow> (string \<times> string) res" where
  "LogStateChange old new_state =
     rbind (rget state_names (state_code old)) (\<lambda>a.
     rbind (rget state_names (state_code new_state)) (\<lambda>b. Inr (a, b)))"

definition SetState :: "WorkerState \<Rightarrow> ('w, 'hi, 'hd, 'db, 'm) loop_state \<Rightarrow> ('w, 'hi, 'hd, 'db, 'm) loop_state res" where
  "SetState new_state s =
     (case instance_of (proc s) of
        None \<Rightarrow> Inl NullDeref
      | Some this \<Rightarrow>
          if worker_state this \<noteq> new_state then
            rbind (LogStateChange (worker_state this) new_state) (\<lambda>line.
            Inr (s\<lparr>state_log := state_log s @ [line],
              proc := (proc s)\<lparr>instance_of := Some (this\<lparr>worker_state := new_state\<rparr>)\<rparr>\<rparr>))
          else Inr s)"

text \<open>\<open>signal_handler\<close>: \<open>SIGINT\<close> is 2 and \<open>SIGTERM\<close> is 15.\<close>

definition signal_handler :: "int \<Rightarrow> ('w, 'hi, 'hd, 'db, 'm) loop_state \<Rightarrow> ('w, 'hi, 'hd, 'db, 'm) loop_state" where
  "signal_handler signum s = (if signum = 2 \<or> signum = 15 then s\<lparr>stop_flag := True\<rparr> else s)"

definition flushLocalCounters ::
  "'m prom_api \<Rightarrow> ('w, 'hi, 'hd, 'db, 'm) loop_state \<Rightarrow> ('w, 'hi, 'hd, 'db, 'm) loop_state res" where
  "flushLocalCounters P s =
     (case instance_of (proc s) of
        None \<Rightarrow> Inl NullDeref
      | Some this \<Rightarrow>
          (case metrics_collector s of
             None \<Rightarrow> Inr s
           | Some c \<Rightarrow>
               let received = local_packets_received this;
                   passed = local_packets_passed this;
                   dropped = local_packets_dropped this;
                   this = this\<lparr>local_packets_received := 0, local_packets_passed := 0, local_packets_dropped := 0\<rparr>;
                   m = prom_state s;
                   m = (if received > 0 then IncrementPacketsReceived P c received m else m);
                   m = (if passed > 0 then IncrementPacketsPassed P c passed m else m);
                   m = (if dropped > 0 then IncrementPacketsDropped P c dropped m else m) in
               Inr (s\<lparr>prom_state := m, proc := (proc s)\<lparr>instance_of := Some this\<rparr>\<rparr>)))"

definition forward_to_out ::
  "('w, 'hi, 'hd) env \<Rightarrow> addr \<Rightarrow> addr \<Rightarrow> 16 word \<Rightarrow> ('w, 'hi, 'hd, 'db) proc_state \<Rightarrow> ('w, 'hi, 'hd, 'db) proc_state res" where
  "forward_to_out E incoming_port outgoing_port q s =
     (case rx_packets (net_of E) incoming_port q 32 s of (pkts, s) \<Rightarrow>
      c_fold pkts (\<lambda>a. forward_packet_with_rewrite (net_of E) (ptypes_of E) a incoming_port outgoing_port q) s)"

text \<open>\<open>cache_save_timer_cb\<close> of each cache starts a thread that saves it; the one of \<open>ip_cache.c\<close> has a suffix.\<close>

definition cache_save_timer_cb :: "'w os_api \<Rightarrow> 'w \<times> save_thread list \<Rightarrow> 'w \<times> save_thread list" where
  "cache_save_timer_cb T s =
     (case s of (w, saves) \<Rightarrow>
      case pthread_create T w of (r, w) \<Rightarrow> if r \<noteq> 0 then (w, saves) else (w, saves @ [Saves_domains]))"

definition cache_save_timer_cb_ip :: "'w os_api \<Rightarrow> 'w \<times> save_thread list \<Rightarrow> 'w \<times> save_thread list" where
  "cache_save_timer_cb_ip T s =
     (case s of (w, saves) \<Rightarrow>
      case pthread_create T w of (r, w) \<Rightarrow> if r \<noteq> 0 then (w, saves) else (w, saves @ [Saves_addresses]))"

definition manage_timers :: "'w os_api \<Rightarrow> 'w \<times> save_thread list \<Rightarrow> 'w \<times> save_thread list" where
  "manage_timers T s =
     (case s of (w, saves) \<Rightarrow>
      case rte_timer_manage T w of (dns_timer, ip_timer, w) \<Rightarrow>
      let x = (w, saves);
          x = (if dns_timer then cache_save_timer_cb T x else x) in
      if ip_timer then cache_save_timer_cb_ip T x else x)"

definition run_timers :: "'w os_api \<Rightarrow> ('w, 'hi, 'hd, 'db, 'm) loop_state \<Rightarrow> ('w, 'hi, 'hd, 'db, 'm) loop_state" where
  "run_timers T s =
     (case manage_timers T (world (proc s), pending_saves s) of (w, saves) \<Rightarrow>
      s\<lparr>proc := (proc s)\<lparr>world := w\<rparr>, pending_saves := saves\<rparr>)"

text \<open>The copy of the policy, with times to live that are not positive replaced.\<close>

definition with_default_ttls :: "BASE_POLICY \<Rightarrow> BASE_POLICY" where
  "with_default_ttls p =
     (let p = (if ttl_domain p \<le> 0 then p\<lparr>ttl_domain := DNS_CACHE_DEFAULT_TTL\<rparr> else p) in
      if ttl_ip p \<le> 0 then p\<lparr>ttl_ip := IP_CACHE_DEFAULT_TTL\<rparr> else p)"

section \<open>The loop\<close>

record port_addrs =
  port_in :: addr
  port_out :: addr
  port_exception :: addr

datatype loop_pc =
    AtTest | AtCopy | AtException | AtProcess | AtReturn | AtTimer | AtPolicy | AtFlush | AtExit | AtEnd | Finished

type_synonym ('w, 'hi, 'hd, 'db, 'm) worker_config = "loop_pc \<times> ('w, 'hi, 'hd, 'db, 'm) loop_state"

definition policy_due :: "int \<Rightarrow> int \<Rightarrow> ('w, 'hi, 'hd, 'db, 'm) loop_state \<Rightarrow> ('w, 'hi, 'hd, 'db, 'm) loop_state" where
  "policy_due now r s =
     (if policy_interval s \<le> (now - last_policy_time s) div second then
        s\<lparr>pending_requests := Suc (pending_requests s), last_policy_time := now,
          policy_interval := MIN_POLICY_TIME + r mod (MAX_POLICY_TIME - MIN_POLICY_TIME + 1)\<rparr>
      else s)"

definition metrics_due ::
  "'m prom_api \<Rightarrow> int \<Rightarrow> ('w, 'hi, 'hd, 'db, 'm) loop_state \<Rightarrow> ('w, 'hi, 'hd, 'db, 'm) loop_state res" where
  "metrics_due P now s =
     (if METRICS_FLUSH_INTERVAL_SEC \<le> (now - last_metrics_push_time s) div second then
        rbind (flushLocalCounters P s) (\<lambda>s. Inr (s\<lparr>last_metrics_push_time := now\<rparr>))
      else Inr s)"

definition on_proc ::
  "(('w, 'hi, 'hd, 'db) proc_state \<Rightarrow> ('w, 'hi, 'hd, 'db) proc_state res) \<Rightarrow>
   ('w, 'hi, 'hd, 'db, 'm) loop_state \<Rightarrow> ('w, 'hi, 'hd, 'db, 'm) loop_state res" where
  "on_proc f s = rbind (f (proc s)) (\<lambda>p. Inr (s\<lparr>proc := p\<rparr>))"

text \<open>One step of the main thread, at the time \<open>now\<close> and with the next value \<open>r\<close> of \<open>rand\<close>.\<close>

fun loop_step ::
  "('w, 'hi, 'hd) env \<Rightarrow> 'w os_api \<Rightarrow> 'm prom_api \<Rightarrow> port_addrs \<Rightarrow> int \<Rightarrow> int \<Rightarrow>
   ('w, 'hi, 'hd, 'db, 'm) worker_config \<Rightarrow> ('w, 'hi, 'hd, 'db, 'm) worker_config res" where
  "loop_step E T P A now r (AtTest, s) =
     (case instance_of (proc s) of
        None \<Rightarrow> Inl NullDeref
      | Some this \<Rightarrow>
          if \<not> stop_flag s \<and> worker_state this \<noteq> SHUTTING_DOWN then Inr (AtCopy, s) else Inr (AtExit, s))"
| "loop_step E T P A now r (AtCopy, s) =
     (case instance_of (proc s) of
        None \<Rightarrow> Inl NullDeref
      | Some this \<Rightarrow> Inr (AtException, s\<lparr>local_policy := with_default_ttls (current_policy this)\<rparr>))"
| "loop_step E T P A now r (AtException, s) =
     rbind (on_proc (forward_to_out E (port_exception A) (port_in A) 0) s) (\<lambda>s. Inr (AtProcess, s))"
| "loop_step E T P A now r (AtProcess, s) =
     (case instance_of (proc s) of
        None \<Rightarrow> Inl NullDeref
      | Some this \<Rightarrow>
          rbind (on_proc (pakage_processing E (port_in A) (port_out A) (port_exception A) 0 32 (local_policy s)
            (\<not> enable this)) s) (\<lambda>s. Inr (AtReturn, s)))"
| "loop_step E T P A now r (AtReturn, s) =
     rbind (on_proc (forward_to_out E (port_out A) (port_in A) 0) s) (\<lambda>s. Inr (AtTimer, s))"
| "loop_step E T P A now r (AtTimer, s) =
     (let s = s\<lparr>timer_check_counter := timer_check_counter s + 1\<rparr> in
      Inr (AtPolicy, if 10000 \<le> timer_check_counter s then (run_timers T s)\<lparr>timer_check_counter := 0\<rparr> else s))"
| "loop_step E T P A now r (AtPolicy, s) = Inr (AtFlush, policy_due now r s)"
| "loop_step E T P A now r (AtFlush, s) = rbind (metrics_due P now s) (\<lambda>s. Inr (AtTest, s))"
| "loop_step E T P A now r (AtExit, s) = rbind (flushLocalCounters P s) (\<lambda>s. Inr (AtEnd, s))"
| "loop_step E T P A now r (AtEnd, s) =
     (if stop_flag s then rbind (SetState SHUTTING_DOWN s) (\<lambda>s. Inr (Finished, s)) else Inr (Finished, s))"
| "loop_step E T P A now r (Finished, s) = Inr (Finished, s)"

text \<open>The main thread alone, with the inputs of its steps.\<close>

fun loop_run ::
  "('w, 'hi, 'hd) env \<Rightarrow> 'w os_api \<Rightarrow> 'm prom_api \<Rightarrow> port_addrs \<Rightarrow> (int \<times> int) list \<Rightarrow>
   ('w, 'hi, 'hd, 'db, 'm) worker_config \<Rightarrow> ('w, 'hi, 'hd, 'db, 'm) worker_config res" where
  "loop_run E T P A [] x = Inr x"
| "loop_run E T P A ((now, r) # is) x = rbind (loop_step E T P A now r x) (loop_run E T P A is)"

text \<open>\<open>MainLoop\<close> begins by reading the clock.\<close>

definition MainLoop_start :: "int \<Rightarrow> ('w, 'hi, 'hd, 'db, 'm) loop_state \<Rightarrow> ('w, 'hi, 'hd, 'db, 'm) worker_config" where
  "MainLoop_start now s = (AtTest, s\<lparr>last_policy_time := now, timer_check_counter := 0\<rparr>)"

section \<open>Interleaving\<close>

text \<open>A detached thread that requests the policy; it takes the mutex that the copy of the policy takes.\<close>

definition request_thread ::
  "('w, 'hi, 'hd) env \<Rightarrow> ('w, 'hi, 'hd, 'db, 'm) loop_state \<Rightarrow> ('w, 'hi, 'hd, 'db, 'm) loop_state res" where
  "request_thread E s =
     (case instance_of (proc s) of
        None \<Rightarrow> Inl NullDeref
      | Some this \<Rightarrow>
          rbind (on_proc (requestPolicyFromController E this) s) (\<lambda>s.
          Inr (s\<lparr>pending_requests := pending_requests s - 1\<rparr>)))"

inductive worker_step ::
  "('w, 'hi, 'hd) env \<Rightarrow> 'w os_api \<Rightarrow> 'm prom_api \<Rightarrow> port_addrs \<Rightarrow>
   ('w, 'hi, 'hd, 'db, 'm) worker_config \<Rightarrow> ('w, 'hi, 'hd, 'db, 'm) worker_config \<Rightarrow> bool"
  for E T P A where
  main_thread: "loop_step E T P A now r x = Inr y \<Longrightarrow> 0 \<le> r \<Longrightarrow> worker_step E T P A x y"
| request: "0 < pending_requests s \<Longrightarrow> request_thread E s = Inr t \<Longrightarrow> worker_step E T P A (pc, s) (pc, t)"
| signal: "worker_step E T P A (pc, s) (pc, signal_handler signum s)"

inductive_cases worker_stepE: "worker_step E T P A x y"

section \<open>Invariant\<close>

text \<open>
  What the loop relies on: the packets of the devices have their headers in the buffer and parse, the policies
  of the controller fit in the tables and decide every classification, and no library call frees memory of the program.
\<close>

locale worker_env = proc_env E live si sd
  for E :: "('w, 'hi, 'hd) env" and live si sd +
  fixes T :: "'w os_api"
  assumes rx_good: "(a, pkt) \<in> set (fst (rte_eth_rx_burst (net_of E) p q n w)) \<Longrightarrow>
      26 \<le> length (mb_buf pkt) \<and> (\<exists>info. parsing_pakage (ptypes_of E) pkt zero_info = Inr info)"
    and policy_live: "GetPolicy (rpc_of E) i v w = (answer, w') \<Longrightarrow> live w' = live w"
    and policy_good: "GetPolicy (rpc_of E) i v w = (Some resp, w') \<Longrightarrow> resp_result resp = POLICY_PROVIDED \<Longrightarrow>
      policy_fits (resp_policy resp) \<and> answering E live (policy_of (resp_policy resp))"
    and timer_live: "rte_timer_manage T w = (x, y, w') \<Longrightarrow> live w' = live w"
    and thread_live: "pthread_create T w = (r, w') \<Longrightarrow> live w' = live w"

definition usable :: "('w, 'hi, 'hd) env \<Rightarrow> ('w \<Rightarrow> addr set) \<Rightarrow> BASE_POLICY \<Rightarrow> bool" where
  "usable E live p \<longleftrightarrow> wf_policy p \<and> answering E live p"

definition loop_ok ::
  "('w, 'hi, 'hd) env \<Rightarrow> ('w \<Rightarrow> addr set) \<Rightarrow> ('hi \<Rightarrow> (ip_key \<times> addr) option list) \<Rightarrow>
   ('hd \<Rightarrow> (byte list \<times> addr) option list) \<Rightarrow> port_addrs \<Rightarrow> ('w, 'hi, 'hd, 'db) proc_state \<Rightarrow> bool" where
  "loop_ok E live si sd A s \<longleftrightarrow>
     proc_ok live si sd s \<and> mbufs s = Map.empty \<and>
     wf_port (ports s (port_in A)) \<and> wf_port (ports s (port_out A)) \<and> wf_port (ports s (port_exception A)) \<and>
     (case instance_of s of None \<Rightarrow> False | Some this \<Rightarrow> usable E live (current_policy this))"

definition loop_inv ::
  "('w, 'hi, 'hd) env \<Rightarrow> ('w \<Rightarrow> addr set) \<Rightarrow> ('hi \<Rightarrow> (ip_key \<times> addr) option list) \<Rightarrow>
   ('hd \<Rightarrow> (byte list \<times> addr) option list) \<Rightarrow> port_addrs \<Rightarrow> ('w, 'hi, 'hd, 'db, 'm) worker_config \<Rightarrow> bool" where
  "loop_inv E live si sd A x \<longleftrightarrow>
     (case x of (pc, s) \<Rightarrow>
        loop_ok E live si sd A (proc s) \<and> (pc \<in> {AtException, AtProcess} \<longrightarrow> usable E live (local_policy s)))"

lemma usable_ttls: "usable E live (with_default_ttls p) \<longleftrightarrow> usable E live p"
  by (simp add: usable_def with_default_ttls_def Let_def wf_policy_def answering_def covered_def)

lemma configuration_Some:
  assumes "configuration i' = configuration (Some this)"
  obtains this' where "i' = Some this'" "current_policy this' = current_policy this" "enable this' = enable this"
    "worker_state this' = worker_state this"
proof -
  obtain this' where i: "i' = Some this'" using assms by (cases i') (auto simp: configuration_def)
  let ?z = "\<lambda>w :: worker. w\<lparr>local_packets_received := 0, local_packets_passed := 0, local_packets_dropped := 0\<rparr>"
  have "?z this' = ?z this" using assms i by (simp add: configuration_def)
  then have "current_policy (?z this') = current_policy (?z this)" "enable (?z this') = enable (?z this)"
    "worker_state (?z this') = worker_state (?z this)" by simp_all
  with that i show ?thesis by simp
qed

lemma loop_ok_kept:
  assumes "loop_ok E live si sd A s" "proc_ok live si sd s'" "kept s s'" "mbufs s' = mbufs s |` X"
  shows "loop_ok E live si sd A s'"
proof -
  obtain wk where wk: "instance_of s = Some wk" "usable E live (current_policy wk)"
    using assms(1) by (auto simp: loop_ok_def split: option.splits)
  then obtain wk' where "instance_of s' = Some wk'" "current_policy wk' = current_policy wk"
    using assms(3) by (auto simp: kept_def elim: configuration_Some)
  with wk assms show ?thesis by (auto simp: loop_ok_def kept_def restrict_map_def)
qed

context worker_env
begin

lemma forward_to_out_safe:
  assumes ok: "proc_ok live si sd s" and out: "wf_port (ports s outgoing)"
  shows "\<exists>s' X. forward_to_out E incoming outgoing q s = Inr s' \<and> proc_ok live si sd s' \<and> kept s s' \<and>
     mbufs s' = mbufs s |` X"
proof -
  let ?pkts = "received E incoming q 32 s" and ?I = "\<lambda>t. proc_ok live si sd t \<and> kept s t"
  let ?body = "\<lambda>a. forward_packet_with_rewrite (net_of E) (ptypes_of E) a incoming outgoing q"
  obtain w where rx: "rx_packets (net_of E) incoming q 32 s =
      (map fst ?pkts, s\<lparr>world := w, mbufs := mbufs s ++ map_of ?pkts\<rparr>)"
    and ok1: "proc_ok live si sd (s\<lparr>world := w, mbufs := mbufs s ++ map_of ?pkts\<rparr>)"
    and distinct: "distinct (map fst ?pkts)"
    using rx_run [OF ok] by blast
  have step: "\<exists>s'. ?body a t = Inr s' \<and> ?I s' \<and> handled a t s'"
    if t: "?I t" "(a, pkt) \<in> set ?pkts" "mbufs t a = Some pkt" for t a pkt
  proof -
    have pkt: "26 \<le> length (mb_buf pkt)" using rx_good t(2) by (auto simp: received_def)
    obtain s' where "?body a t = Inr s'" "disposed (net_of E) a t s'"
      using forward_disposed [OF t(3) pkt kept_port [OF _ out]] t(1) by blast
    then show ?thesis
      using proc_ok_disposed(1) t(1) disposed_handled kept_handled by blast
  qed
  have "\<exists>s'. c_fold (map fst ?pkts) ?body (s\<lparr>world := w, mbufs := mbufs s ++ map_of ?pkts\<rparr>) = Inr s' \<and> ?I s' \<and>
      mbufs s' = mbufs s |` (- fst ` set ?pkts) \<and> disposals s' = disposals s + mset (map fst ?pkts)"
  proof (rule burst_received [where I = ?I, OF distinct refl])
    show "?I (s\<lparr>world := w, mbufs := mbufs s ++ map_of ?pkts\<rparr>)" using ok1 by simp
  qed (rule step)
  then show ?thesis
    unfolding forward_to_out_def rx by auto
qed

lemma forward_step:
  assumes "loop_ok E live si sd A s" "outgoing \<in> {port_in A, port_out A}"
  shows "\<exists>s'. forward_to_out E incoming outgoing q s = Inr s' \<and> loop_ok E live si sd A s'"
proof -
  have "proc_ok live si sd s" "wf_port (ports s outgoing)" using assms by (auto simp: loop_ok_def)
  then obtain s' X where s': "forward_to_out E incoming outgoing q s = Inr s'" "proc_ok live si sd s'" "kept s s'"
    "mbufs s' = mbufs s |` X"
    using forward_to_out_safe by blast
  with loop_ok_kept [OF assms(1) s'(2-4)] show ?thesis by blast
qed

lemma processing_step:
  assumes ok: "loop_ok E live si sd A s" and policy: "usable E live policy"
  shows "\<exists>s'. pakage_processing E (port_in A) (port_out A) (port_exception A) q n policy off s = Inr s' \<and>
     loop_ok E live si sd A s'"
proof -
  have s: "proc_ok live si sd s" "wf_port (ports s (port_out A))" "wf_port (ports s (port_exception A))"
    using ok by (auto simp: loop_ok_def)
  have pkts: "26 \<le> length (mb_buf pkt) \<and> (\<exists>info. parsing_pakage (ptypes_of E) pkt zero_info = Inr info)"
    if "(a, pkt) \<in> set (received E (port_in A) q n s)" for a pkt
    using that rx_good by (simp add: received_def)
  have "\<exists>s' X. pakage_processing E (port_in A) (port_out A) (port_exception A) q n policy off s = Inr s' \<and>
      proc_ok live si sd s' \<and> kept s s' \<and> mbufs s' = mbufs s |` X"
  proof (cases off)
    case True
    have "\<exists>s'. pakage_processing E (port_in A) (port_out A) (port_exception A) q n policy True s = Inr s' \<and>
        proc_ok live si sd s' \<and> kept s s' \<and> mbufs s' = mbufs s |` (- fst ` set (received E (port_in A) q n s))"
      by (rule ex_forward, rule processing_off [OF s(1,2)], erule pkts [THEN conjunct1]) auto
    with True show ?thesis by auto
  next
    case False
    have p: "wf_policy policy" "answering E live policy" using policy by (simp_all add: usable_def)
    have "\<exists>s'. pakage_processing E (port_in A) (port_out A) (port_exception A) q n policy False s = Inr s' \<and>
        proc_ok live si sd s' \<and> kept s s' \<and> mbufs s' = mbufs s |` (- fst ` set (received E (port_in A) q n s))"
      by (rule ex_forward, rule processing_safe [OF s(1) _ s(2,3) p], erule pkts) auto
    with False show ?thesis by auto
  qed
  then show ?thesis using loop_ok_kept [OF ok] by blast
qed

end

context worker_env
begin

lemma loop_ok_world: "loop_ok E live si sd A s \<Longrightarrow> live w = live (world s) \<Longrightarrow> loop_ok E live si sd A (s\<lparr>world := w\<rparr>)"
  by (simp add: loop_ok_def proc_ok_world)

lemma request_step:
  assumes ok: "loop_ok E live si sd A s" and wk: "instance_of s = Some wk"
  shows "\<exists>s'. requestPolicyFromController E wk s = Inr s' \<and> loop_ok E live si sd A s'"
proof -
  obtain answer w where call: "GetPolicy (rpc_of E) (worker_id wk) (current_config_version wk) (world s) = (answer, w)"
    by fastforce
  note w = policy_live [OF call]
  have s: "proc_ok live si sd s" using ok by (simp add: loop_ok_def)
  show ?thesis
  proof (cases "\<exists>resp. answer = Some resp \<and> resp_result resp = POLICY_PROVIDED")
    case True
    then obtain resp where resp: "answer = Some resp" "resp_result resp = POLICY_PROVIDED" by blast
    have good: "policy_fits (resp_policy resp)" "answering E live (policy_of (resp_policy resp))"
      using policy_good call resp by auto
    obtain hi hd where run: "requestPolicyFromController E wk s =
        rbind (load_policy (resp_policy resp)) (\<lambda>p.
          Inr (s\<lparr>world := w, instance_of := Some (wk\<lparr>enable := filtering_enabled resp, current_policy := p,
              current_config_version := config_version (resp_policy resp)\<rparr>),
            ip_state := (ip_state s)\<lparr>cache_hash := hi\<rparr>, dns_state := (dns_state s)\<lparr>cache_hash := hd\<rparr>\<rparr>))"
      and caches: "cache_ok si live key (w, (ip_state s)\<lparr>cache_hash := hi\<rparr>)"
        "cache_ok sd live key_domain (w, (dns_state s)\<lparr>cache_hash := hd\<rparr>)"
      using provided_run [OF s call [unfolded resp(1)] resp(2) w] by (elim exE conjE) (rule that)
    have "usable E live (policy_of (resp_policy resp))"
      using good wf_policy_of by (simp add: usable_def)
    then show ?thesis
      using ok caches run load_policy_run [OF good(1)] by (simp add: loop_ok_def proc_ok_def owned_def)
  next
    case False
    show ?thesis
    proof (cases answer)
      case None
      then show ?thesis
        using call loop_ok_world [OF ok w] by (simp add: requestPolicyFromController_def)
    next
      case (Some resp)
      then have "requestPolicyFromController E wk s =
          Inr (s\<lparr>world := w, instance_of := Some (wk\<lparr>enable := filtering_enabled resp\<rparr>)\<rparr>)"
        using call False by (simp add: requestPolicyFromController_def Let_def split: policy_result.split)
      then show ?thesis
        using loop_ok_world [OF ok w] wk by (simp add: loop_ok_def)
    qed
  qed
qed

lemma loop_ok_instance:
  assumes "loop_ok E live si sd A s"
  obtains wk where "instance_of s = Some wk" "usable E live (current_policy wk)"
  using assms by (auto simp: loop_ok_def split: option.splits)

lemma flush_step:
  assumes "loop_ok E live si sd A (proc s)"
  shows "\<exists>s'. flushLocalCounters P s = Inr s' \<and> loop_ok E live si sd A (proc s') \<and> stop_flag s' = stop_flag s \<and>
     local_policy s' = local_policy s \<and> metrics_collector s' = metrics_collector s"
  using assms
  by (rule loop_ok_instance) (use assms in \<open>auto simp: flushLocalCounters_def loop_ok_def Let_def split: option.splits\<close>)

lemma set_state_step:
  assumes "loop_ok E live si sd A (proc s)"
  shows "\<exists>s' wk. SetState st s = Inr s' \<and> loop_ok E live si sd A (proc s') \<and> stop_flag s' = stop_flag s \<and>
     metrics_collector s' = metrics_collector s \<and> instance_of (proc s') = Some wk \<and> worker_state wk = st"
proof -
  obtain wk where "instance_of (proc s) = Some wk" "usable E live (current_policy wk)"
    by (rule loop_ok_instance [OF assms])
  then show ?thesis
    using assms
    by (cases "worker_state wk"; cases st) (simp_all add: SetState_def LogStateChange_def state_names_def loop_ok_def)
qed

lemma manage_timers_live: "live (fst (manage_timers T (w, n))) = live w"
proof -
  obtain x y w1 where manage: "rte_timer_manage T w = (x, y, w1)" by (metis prod_cases3)
  have cb: "live (fst (cache_save_timer_cb T z)) = live (fst z)" "live (fst (cache_save_timer_cb_ip T z)) = live (fst z)" for z
    using thread_live by (auto simp: cache_save_timer_cb_def cache_save_timer_cb_ip_def split: prod.splits)
  show ?thesis
    using manage timer_live [OF manage] by (simp add: manage_timers_def Let_def cb)
qed

lemma timers_step:
  assumes "loop_ok E live si sd A (proc s)"
  shows "loop_ok E live si sd A (proc (run_timers T s))" "stop_flag (run_timers T s) = stop_flag s"
    "metrics_collector (run_timers T s) = metrics_collector s"
  using loop_ok_world [OF assms manage_timers_live [of "world (proc s)" "pending_saves s"]]
  by (simp_all add: run_timers_def split_beta)

text \<open>Every step of the main thread returns and keeps the invariant.\<close>

lemma on_proc_step:
  assumes "\<exists>p. f (proc s) = Inr p \<and> loop_ok E live si sd A p"
  shows "\<exists>s'. on_proc f s = Inr s' \<and> loop_ok E live si sd A (proc s') \<and> stop_flag s' = stop_flag s \<and> local_policy s' = local_policy s \<and>
     metrics_collector s' = metrics_collector s"
  using assms by (auto simp: on_proc_def)

lemma loop_step_safe:
  assumes inv: "loop_inv E live si sd A (pc, s)"
  shows "\<exists>pc' s'. loop_step E T P A t r (pc, s) = Inr (pc', s') \<and> loop_inv E live si sd A (pc', s') \<and>
     stop_flag s' = stop_flag s \<and> metrics_collector s' = metrics_collector s"
proof -
  have ok: "loop_ok E live si sd A (proc s)" using inv by (simp add: loop_inv_def)
  obtain wk where wk: "instance_of (proc s) = Some wk" "usable E live (current_policy wk)"
    by (rule loop_ok_instance [OF ok])
  show ?thesis
  proof (cases pc)
    case AtException
    then show ?thesis
      using inv on_proc_step [where f = "forward_to_out E (port_exception A) (port_in A) 0", OF forward_step [OF ok]] by (auto simp: loop_inv_def)
  next
    case AtProcess
    then show ?thesis
      using inv wk on_proc_step [where f = "pakage_processing E (port_in A) (port_out A) (port_exception A) 0 32 (local_policy s) (\<not> enable wk)",
        OF processing_step [OF ok]]
      by (auto simp: loop_inv_def)
  next
    case AtReturn
    then show ?thesis
      using on_proc_step [where f = "forward_to_out E (port_out A) (port_in A) 0", OF forward_step [OF ok]] by (auto simp: loop_inv_def)
  next
    case AtTimer
    then show ?thesis
      using ok timers_step [of A "s\<lparr>timer_check_counter := timer_check_counter s + 1\<rparr>"] by (auto simp: loop_inv_def Let_def)
  next
    case AtFlush
    then show ?thesis
      using ok flush_step [OF ok, of P] by (auto simp: loop_inv_def metrics_due_def)
  next
    case AtExit
    then show ?thesis
      using flush_step [OF ok, of P] by (auto simp: loop_inv_def)
  next
    case AtEnd
    then show ?thesis
      using ok set_state_step [OF ok, of SHUTTING_DOWN] by (auto simp: loop_inv_def)
  qed (use ok wk in \<open>auto simp: loop_inv_def usable_ttls policy_due_def\<close>)
qed

end

context worker_env
begin

lemma request_thread_safe:
  assumes "loop_inv E live si sd A (pc, s)"
  shows "\<exists>t. request_thread E s = Inr t \<and> loop_inv E live si sd A (pc, t)"
proof -
  have ok: "loop_ok E live si sd A (proc s)" using assms by (simp add: loop_inv_def)
  obtain wk where wk: "instance_of (proc s) = Some wk" "usable E live (current_policy wk)"
    by (rule loop_ok_instance [OF ok])
  then show ?thesis
    using assms on_proc_step [where f = "requestPolicyFromController E wk", OF request_step [OF ok wk(1)]]
    by (auto simp: request_thread_def loop_inv_def)
qed

lemma worker_step_inv:
  assumes "worker_step E T P A x y" "loop_inv E live si sd A x"
  shows "loop_inv E live si sd A y"
  using assms
proof (cases rule: worker_step.cases)
  case (main_thread t r)
  then show ?thesis
    using loop_step_safe [of A "fst x" "snd x" P t r] assms(2) by auto
next
  case (request s t pc)
  then show ?thesis
    using request_thread_safe [of A pc s] assms(2) by auto
next
  case (signal pc s signum)
  then show ?thesis
    using assms(2) by (auto simp: loop_inv_def signal_handler_def)
qed

lemma reachable_inv:
  assumes "rtranclp (worker_step E T P A) x y" "loop_inv E live si sd A x"
  shows "loop_inv E live si sd A y"
  using assms by (induction rule: rtranclp_induct) (auto dest: worker_step_inv)

end

section \<open>Stopping\<close>

fun rank :: "loop_pc \<Rightarrow> nat" where
  "rank AtCopy = 10" | "rank AtException = 9" | "rank AtProcess = 8" | "rank AtReturn = 7" | "rank AtTimer = 6"
| "rank AtPolicy = 5" | "rank AtFlush = 4" | "rank AtTest = 3" | "rank AtExit = 2" | "rank AtEnd = 1" | "rank Finished = 0"

definition flushed :: "('w, 'hi, 'hd, 'db, 'm) loop_state \<Rightarrow> bool" where
  "flushed s \<longleftrightarrow>
     (case instance_of (proc s) of None \<Rightarrow> False
      | Some wk \<Rightarrow> local_packets_received wk = 0 \<and> local_packets_passed wk = 0 \<and> local_packets_dropped wk = 0)"

definition shut_down :: "('w, 'hi, 'hd, 'db, 'm) loop_state \<Rightarrow> bool" where
  "shut_down s \<longleftrightarrow> (case instance_of (proc s) of None \<Rightarrow> False | Some wk \<Rightarrow> worker_state wk = SHUTTING_DOWN)"

lemma loop_step_rank:
  assumes "loop_step E T P A now r (pc, s) = Inr (pc', s')" "stop_flag s"
  shows "rank pc' \<le> rank pc - 1"
  using assms
  by (cases pc) (auto simp: rbind_eq_Inr_iff Let_def split: option.splits if_splits)

lemma loop_step_leaving:
  assumes "loop_step E T P A now r (pc, s) = Inr (pc', s')" "stop_flag s" "metrics_collector s = Some c"
    and "pc \<in> {AtEnd, Finished} \<longrightarrow> flushed s" "pc = Finished \<longrightarrow> shut_down s"
  shows "(pc' \<in> {AtEnd, Finished} \<longrightarrow> flushed s') \<and> (pc' = Finished \<longrightarrow> shut_down s')"
  using assms
  by (cases pc)
    (auto simp: rbind_eq_Inr_iff Let_def flushLocalCounters_def SetState_def flushed_def shut_down_def
      split: option.splits if_splits)

context worker_env
begin

lemma loop_run_ends:
  assumes "loop_inv E live si sd A (pc, s)" "stop_flag s" "metrics_collector s = Some c" "rank pc \<le> length is"
    and "pc \<in> {AtEnd, Finished} \<longrightarrow> flushed s" "pc = Finished \<longrightarrow> shut_down s"
  shows "\<exists>s'. loop_run E T P A is (pc, s) = Inr (Finished, s') \<and> flushed s' \<and> shut_down s' \<and> loop_inv E live si sd A (Finished, s')"
  using assms
proof (induction "is" arbitrary: pc s)
  case Nil
  then show ?case by (cases pc) auto
next
  case (Cons i "is")
  obtain t r where i: "i = (t, r)" by fastforce
  obtain pc' s' where step: "loop_step E T P A t r (pc, s) = Inr (pc', s')" "loop_inv E live si sd A (pc', s')"
    "stop_flag s' = stop_flag s" "metrics_collector s' = metrics_collector s"
    using loop_step_safe [OF Cons.prems(1), of P t r] by (elim exE conjE) (rule that)
  have "rank pc' \<le> length is"
    using loop_step_rank [OF step(1) Cons.prems(2)] Cons.prems(4) by simp
  then show ?case
    using Cons.IH [OF step(2)] step Cons.prems(2,3) loop_step_leaving [OF step(1) Cons.prems(2,3,5,6)] i by auto
qed

end

section \<open>Counting\<close>

lemma increment_exact:
  assumes "prometheus P metric" "metric m a = of_nat x" "x + unat n < 2 ^ 53"
  shows "metric (increment P (Some a) n m) = (metric m)(a := of_nat (x + unat n))"
proof -
  have "double_of_uint64 n = of_nat (unat n)" using assms(3) by (intro double_of_uint64_exact) simp
  moreover have "rnd (of_nat (x + unat n)) = of_nat (x + unat n)"
  proof -
    have "int (x + unat n) < int (2 ^ 53)" using assms(3) by (simp only: of_nat_less_iff)
    then have "rnd (of_int (int (x + unat n))) = of_int (int (x + unat n))" by (intro rnd_of_int) simp_all
    then show ?thesis unfolding of_int_of_nat_eq .
  qed
  ultimately show ?thesis
    using prometheus.counter_increment [OF assms(1), of "double_of_uint64 n" a m] assms(2) double_of_uint64_nonneg [of n]
    by (simp only: increment_def option.case of_nat_add)
qed

text \<open>A counter that is increased only when there is something to report.\<close>

lemma increment_if:
  assumes "prometheus P metric" "metric m a = of_nat x" "x + unat n < 2 ^ 53"
  shows "metric (if n > 0 then increment P (Some a) n m else m) = (metric m)(a := of_nat (x + unat n))"
proof (cases "n = 0")
  case True
  then show ?thesis using assms(2) by (auto simp: fun_eq_iff)
next
  case False
  then show ?thesis using increment_exact [OF assms] by (simp only: word_neq_0_conv if_True)
qed

section \<open>A concrete worker\<close>

text \<open>A controller that provides a policy and answers no classification, and a timer that runs one callback.\<close>

definition loop_env :: "('a ref_world_scheme, (ip_key \<times> addr) list, (byte list \<times> addr) list) env" where
  "loop_env = (ref_env 0)\<lparr>rpc_of := \<lparr>Classify = Classify silent_rpc, GetPolicy = GetPolicy (policy_rpc small_policy)\<rparr>\<rparr>"

definition ref_os :: "'w os_api" where
  "ref_os = \<lparr>rte_timer_manage = (\<lambda>w. (True, False, w)), pthread_create = (\<lambda>w. (0, w))\<rparr>"

lemma loop_env_answering: "answering loop_env live policy"
  by (simp add: answering_def loop_env_def ref_env_def worker_classify_def classify_def silent_rpc_def split: option.splits) auto

lemma small_policy_fits: "policy_fits small_policy"
  by (simp add: policy_fits_def small_policy_def MAX_CATEGORIES_def MAX_DOMAINS_def)

interpretation ref_loop: worker_env loop_env ref_live "ref_slots CACHE_SIZE" "ref_slots CACHE_SIZE" ref_os
proof -
  have "proc_env loop_env ref_live (ref_slots CACHE_SIZE) (ref_slots CACHE_SIZE)"
    using ref_proc.proc_env_axioms [of 0] by (simp add: loop_env_def proc_env_def proc_env_axioms_def)
  moreover have "worker_env_axioms loop_env ref_live ref_os"
    using sample_parsed loop_env_answering [of ref_live] small_policy_fits sample_proc_facts(2)
    by unfold_locales
      (auto simp: loop_env_def ref_env_def one_packet_net_def policy_rpc_def ref_os_def silent_rpc_def)
  ultimately show "worker_env loop_env ref_live (ref_slots CACHE_SIZE) (ref_slots CACHE_SIZE) ref_os"
    by (simp add: worker_env_def)
qed

definition sample_addrs :: port_addrs where
  "sample_addrs = \<lparr>port_in = 0, port_out = 1, port_exception = 2\<rparr>"

definition sample_loop_state ::
  "(ref_world, (ip_key \<times> addr) list, (byte list \<times> addr) list, unit, nat \<times> (addr \<Rightarrow> real)) loop_state" where
  "sample_loop_state =
     \<lparr>proc = sample_proc_state\<lparr>mbufs := Map.empty\<rparr>, stop_flag = False, state_log = [],
      metrics_collector = Some sample_collector, prom_state = (8, \<lambda>_. 0), local_policy = zero_policy,
      last_policy_time = 0, policy_interval = MIN_POLICY_TIME, last_metrics_push_time = 0, timer_check_counter = 0,
      pending_requests = 1, pending_saves = []\<rparr>"

lemma sample_loop_inv:
  "loop_inv loop_env ref_live (ref_slots CACHE_SIZE) (ref_slots CACHE_SIZE) sample_addrs (AtTest, sample_loop_state\<lparr>stop_flag := b\<rparr>)"
  using sample_proc_ok sample_proc_facts(3) loop_env_answering wf_zero_policy
  by (auto simp: loop_inv_def loop_ok_def sample_loop_state_def proc_ok_def sample_proc_state_def sample_worker_def usable_def)

section \<open>Properties\<close>





text \<open>
  The names that are logged for the two states are those of an enumeration with five: the change to
  the state in which the worker shuts down is reported as a change from booting to free.
\<close>

lemma shutdown_logged_as_free: "LogStateChange FREE SHUTTING_DOWN = Inr (''BOOTING'', ''FREE'')"
  by (simp add: LogStateChange_def state_names_def)

text \<open>
  C39 (invariant).  Flushing the counters loses no packet: as long as the totals stay below \<open>2 ^ 53\<close>, where the
  addition of doubles is exact, each of the three metrics grows by exactly the number of packets counted since the
  last flush, no other metric changes, and the local counters restart at zero.  Without a collector
  nothing changes.
\<close>

theorem flush_conserves_counts:
  assumes "prometheus P metric" "instance_of (proc s) = Some wk" "metrics_collector s = Some c"
    and "packets_received_counter c = Some a" "packets_passed_counter c = Some b" "packets_dropped_counter c = Some d"
    and "distinct [a, b, d]" "metric (prom_state s) a = of_nat x" "metric (prom_state s) b = of_nat y"
    and "metric (prom_state s) d = of_nat z"
    and "x + unat (local_packets_received wk) < 2 ^ 53" "y + unat (local_packets_passed wk) < 2 ^ 53"
    and "z + unat (local_packets_dropped wk) < 2 ^ 53"
  shows "flushLocalCounters P (s\<lparr>metrics_collector := None\<rparr>) = Inr (s\<lparr>metrics_collector := None\<rparr>) \<and>
    (\<exists>s'. flushLocalCounters P s = Inr s' \<and> flushed s' \<and>
       metric (prom_state s') = (metric (prom_state s))
         (a := of_nat (x + unat (local_packets_received wk)), b := of_nat (y + unat (local_packets_passed wk)),
          d := of_nat (z + unat (local_packets_dropped wk))))"
proof -
  define m1 where "m1 = (if local_packets_received wk > 0 then increment P (Some a) (local_packets_received wk) (prom_state s) else prom_state s)"
  define m2 where "m2 = (if local_packets_passed wk > 0 then increment P (Some b) (local_packets_passed wk) m1 else m1)"
  define m3 where "m3 = (if local_packets_dropped wk > 0 then increment P (Some d) (local_packets_dropped wk) m2 else m2)"
  have m1: "metric m1 = (metric (prom_state s))(a := of_nat (x + unat (local_packets_received wk)))"
    unfolding m1_def by (rule increment_if [OF assms(1,8,11)])
  have "metric m1 b = of_nat y" using assms(7,9) by (simp add: m1)
  then have m2: "metric m2 = (metric m1)(b := of_nat (y + unat (local_packets_passed wk)))"
    unfolding m2_def by (rule increment_if [OF assms(1) _ assms(12)])
  have "metric m2 d = of_nat z" using assms(7,10) by (simp add: m1 m2)
  then have m3: "metric m3 = (metric m2)(d := of_nat (z + unat (local_packets_dropped wk)))"
    unfolding m3_def by (rule increment_if [OF assms(1) _ assms(13)])
  have "flushLocalCounters P s = Inr (s\<lparr>prom_state := m3, proc := (proc s)\<lparr>instance_of := Some (wk\<lparr>local_packets_received := 0,
      local_packets_passed := 0, local_packets_dropped := 0\<rparr>)\<rparr>\<rparr>)"
    using assms(2-6) by (simp only: flushLocalCounters_def option.case Let_def IncrementPacketsReceived_def
        IncrementPacketsPassed_def IncrementPacketsDropped_def m1_def [symmetric] m2_def [symmetric] m3_def [symmetric])
  then show ?thesis
    using m1 m2 m3 assms(2) by (simp add: flushed_def flushLocalCounters_def)
qed

theorem flush_conserves_counts_witness:
  "\<exists>s'. flushLocalCounters ref_prom (sample_loop_state\<lparr>proc := sample_proc_state
        \<lparr>instance_of := Some (sample_worker\<lparr>local_packets_received := 3, local_packets_dropped := 1\<rparr>)\<rparr>\<rparr>) = Inr s' \<and>
     flushed s' \<and> snd (prom_state s') 4 = 3 \<and> snd (prom_state s') 5 = 0 \<and> snd (prom_state s') 6 = 1"
  using flush_conserves_counts [OF ref_metrics.prometheus_axioms, of "sample_loop_state\<lparr>proc := sample_proc_state
        \<lparr>instance_of := Some (sample_worker\<lparr>local_packets_received := 3, local_packets_dropped := 1\<rparr>)\<rparr>\<rparr>"
      "sample_worker\<lparr>local_packets_received := 3, local_packets_dropped := 1\<rparr>" sample_collector 4 5 6 0 0 0]
  by (auto simp: sample_loop_state_def sample_collector_def sample_worker_def)

end
