(* ===== verification/Net_Port.thy ===== *)
theory Net_Port
  imports Types
begin

text \<open>
  The ports, \<open>src/worker/src/dpdk_filter/net_port.c\<close>: the description of a port, the creation and
  configuration of its virtual device, and its release.  The Ethernet device library of DPDK is a
  parameter; \<open>vdevs\<close> below is the set of names of the virtual devices that exist.
\<close>

section \<open>Descriptions\<close>

text \<open>\<open>snprintf (dst, sizeof (dst), ...)\<close> of a text: cut to fit, with its terminator.\<close>

definition c_snprintf :: "byte list \<Rightarrow> byte list \<Rightarrow> byte list" where
  "c_snprintf dst s =
     (let s = take (length dst - 1) s in s @ 0 # drop (Suc (length s)) dst)"

abbreviation bytes_of_string :: "string \<Rightarrow> byte list" where
  "bytes_of_string \<equiv> map of_char"

text \<open>\<open>calloc\<close> of a port.\<close>

definition zero_port :: net_port where
  "zero_port =
     \<lparr>port_id = 0, iface_name = replicate 32 0, dev_name = replicate 64 0, dev_args = replicate 256 0, mbuf_pool = None,
      mac_addr = replicate 6 0, neighbor_mac = replicate 6 0, neighbor_learned = False\<rparr>"

text \<open>The first argument tells whether the allocation succeeds.\<close>

definition init_struct_tap_port :: "bool \<Rightarrow> byte list \<Rightarrow> addr option \<Rightarrow> net_port option res" where
  "init_struct_tap_port allocated tap_iface_name pool =
     (if \<not> allocated then Inr None
      else
        let name = cstr tap_iface_name;
            port = zero_port;
            port = port\<lparr>dev_args := c_snprintf (dev_args port)
              (bytes_of_string ''iface='' @ name @ bytes_of_string '', remote='' @ name)\<rparr>;
            port = port\<lparr>dev_name := c_snprintf (dev_name port) (bytes_of_string ''net_tap_'' @ name)\<rparr> in
        rbind (c_strncpy (iface_name port) tap_iface_name 31) (\<lambda>row.
        rbind (rset row 31 0) (\<lambda>row.
        Inr (Some (port\<lparr>iface_name := row, mbuf_pool := pool, port_id := - 1\<rparr>)))))"

text \<open>\<open>WITH_AF_PACKET\<close> is a flag of the build.\<close>

definition init_struct_af_xdp_port :: "bool \<Rightarrow> bool \<Rightarrow> byte list \<Rightarrow> addr option \<Rightarrow> net_port option res" where
  "init_struct_af_xdp_port with_af_packet allocated iface pool =
     (if \<not> allocated then Inr None
      else
        let name = cstr iface;
            port = zero_port;
            port =
              (if with_af_packet then
                 port\<lparr>dev_name := c_snprintf (dev_name port) (bytes_of_string ''eth_af_packet_'' @ name),
                   dev_args := c_snprintf (dev_args port) (bytes_of_string ''iface='' @ name @
                     bytes_of_string '',qpairs=1,blocksz=16384,framesz=2048,framecnt=4096'')\<rparr>
               else
                 port\<lparr>dev_args := c_snprintf (dev_args port) (bytes_of_string ''iface='' @ name @
                     bytes_of_string '',start_queue=0,queue_count=1''),
                   dev_name := c_snprintf (dev_name port) (bytes_of_string ''net_af_xdp_'' @ name)\<rparr>) in
        rbind (c_strncpy (iface_name port) iface 31) (\<lambda>row.
        rbind (rset row 31 0) (\<lambda>row.
        Inr (Some (port\<lparr>iface_name := row, mbuf_pool := pool, port_id := - 1\<rparr>)))))"

section \<open>Devices\<close>

definition RX_RING_SIZE :: nat where "RX_RING_SIZE = 1024"
definition TX_RING_SIZE :: nat where "TX_RING_SIZE = 1024"

record 'w eth_api =
  rte_eth_dev_count_avail :: "'w \<Rightarrow> 16 word"
  rte_eth_dev_info_get :: "16 word \<Rightarrow> 'w \<Rightarrow> int"
  rte_eth_dev_get_name_by_port :: "16 word \<Rightarrow> 'w \<Rightarrow> int \<times> byte list"
  rte_eth_dev_is_valid_port :: "16 word \<Rightarrow> 'w \<Rightarrow> bool"
  rte_vdev_init :: "byte list \<Rightarrow> byte list \<Rightarrow> 'w \<Rightarrow> int \<times> 'w"
  rte_vdev_uninit :: "byte list \<Rightarrow> 'w \<Rightarrow> int \<times> 'w"
  rte_eth_dev_socket_id :: "16 word \<Rightarrow> 'w \<Rightarrow> int"
  rte_eth_dev_configure :: "16 word \<Rightarrow> nat \<Rightarrow> nat \<Rightarrow> 'w \<Rightarrow> int \<times> 'w"
  rte_eth_rx_queue_setup :: "16 word \<Rightarrow> nat \<Rightarrow> nat \<Rightarrow> int \<Rightarrow> addr option \<Rightarrow> 'w \<Rightarrow> int \<times> 'w"
  rte_eth_tx_queue_setup :: "16 word \<Rightarrow> nat \<Rightarrow> nat \<Rightarrow> int \<Rightarrow> 'w \<Rightarrow> int \<times> 'w"
  rte_eth_macaddr_get :: "16 word \<Rightarrow> 'w \<Rightarrow> int \<times> byte list"
  rte_eth_dev_start :: "16 word \<Rightarrow> 'w \<Rightarrow> int \<times> 'w"
  rte_eth_promiscuous_enable :: "16 word \<Rightarrow> 'w \<Rightarrow> int \<times> 'w"
  rte_eth_dev_stop :: "16 word \<Rightarrow> 'w \<Rightarrow> int \<times> 'w"
  rte_eth_dev_close :: "16 word \<Rightarrow> 'w \<Rightarrow> int \<times> 'w"

text \<open>The result of the search is the return value, and the port when it is found.\<close>

definition find_port_by_dev_name :: "'w eth_api \<Rightarrow> byte list \<Rightarrow> 'w \<Rightarrow> (int \<times> 16 word option) res" where
  "find_port_by_dev_name N name w =
     rbind (c_for (map of_nat [0..<unat (rte_eth_dev_count_avail N w)]) (\<lambda>port_id.
       let ret = rte_eth_dev_info_get N port_id w in
       if ret \<noteq> 0 then Inr (Return (ret, None))
       else
         (case rte_eth_dev_get_name_by_port N port_id w of (ret, dev) \<Rightarrow>
          if ret = 0 then
            rbind (c_strcmp dev name) (\<lambda>r. if r = 0 then Inr (Return (0, Some port_id)) else Inr Continue)
          else Inr Continue)))
     (\<lambda>r. case r of Some v \<Rightarrow> Inr v | None \<Rightarrow> Inr (- 1, None))"

text \<open>The clean-up that every failure after the creation of the device takes.\<close>

definition uninit_and_return :: "'w eth_api \<Rightarrow> int \<Rightarrow> net_port \<Rightarrow> 'w \<Rightarrow> int \<times> net_port \<times> 'w" where
  "uninit_and_return N ret port w = (ret, port, snd (rte_vdev_uninit N (dev_name port) w))"

definition net_port_init :: "'w eth_api \<Rightarrow> net_port option \<Rightarrow> 'w \<Rightarrow> (int \<times> net_port \<times> 'w) res" where
  "net_port_init N ptr w =
     (case ptr of None \<Rightarrow> Inl NullDeref | Some port \<Rightarrow>
     (case rte_vdev_init N (dev_name port) (dev_args port) w of (ret, w) \<Rightarrow>
      if ret < 0 then Inr (ret, port, w)
      else
        rbind (find_port_by_dev_name N (dev_name port) w) (\<lambda>(ret, found).
        if ret \<noteq> 0 then Inr (uninit_and_return N (- 1) port w)
        else
          let pid = the found;
              port = port\<lparr>port_id := pid\<rparr> in
          if \<not> rte_eth_dev_is_valid_port N pid w then Inr (uninit_and_return N (- EINVAL) port w)
          else
            (case rte_eth_dev_configure N pid 1 1 w of (ret, w) \<Rightarrow>
             if ret < 0 then Inr (uninit_and_return N ret port w)
             else
               (case rte_eth_rx_queue_setup N pid 0 RX_RING_SIZE (rte_eth_dev_socket_id N pid w) (mbuf_pool port) w of
                  (ret, w) \<Rightarrow>
                if ret < 0 then Inr (uninit_and_return N ret port w)
                else
                  (case rte_eth_tx_queue_setup N pid 0 TX_RING_SIZE (rte_eth_dev_socket_id N pid w) w of (ret, w) \<Rightarrow>
                   if ret < 0 then Inr (uninit_and_return N ret port w)
                   else
                     (case rte_eth_macaddr_get N pid w of (ret, mac) \<Rightarrow>
                      if ret < 0 then Inr (uninit_and_return N ret port w)
                      else Inr (0, port\<lparr>mac_addr := mac, neighbor_learned := False\<rparr>, w))))))))"

definition net_port_start :: "'w eth_api \<Rightarrow> 16 word \<Rightarrow> 'w \<Rightarrow> int \<times> 'w" where
  "net_port_start N pid w =
     (case rte_eth_dev_start N pid w of (ret, w) \<Rightarrow>
      if ret < 0 then (ret, w)
      else
        (case rte_eth_promiscuous_enable N pid w of (ret, w) \<Rightarrow>
         if ret \<noteq> 0 then (ret, w) else (0, w)))"

text \<open>Both take a pointer that may be null; releasing the description leaves no port.\<close>

definition net_port_destroy :: "net_port option \<Rightarrow> net_port option" where
  "net_port_destroy port = (case port of None \<Rightarrow> port | Some p \<Rightarrow> None)"

definition net_port_close :: "'w eth_api \<Rightarrow> net_port option \<Rightarrow> 'w \<Rightarrow> net_port option \<times> 'w" where
  "net_port_close N port w =
     (case port of
        None \<Rightarrow> (None, w)
      | Some p \<Rightarrow>
          (case rte_eth_dev_stop N (port_id p) w of (ret, w) \<Rightarrow>
           if ret \<noteq> 0 then (Some p, w)
           else
             (case rte_eth_dev_close N (port_id p) w of (ret, w) \<Rightarrow>
              if ret \<noteq> 0 then (Some p, w)
              else
                (case rte_vdev_uninit N (dev_name p) w of (ret, w) \<Rightarrow>
                 if ret \<noteq> 0 then (Some p, w)
                 else (Some (p\<lparr>port_id := - 1\<rparr>), w)))))"

section \<open>The contract of the device library\<close>

text \<open>
  Names of devices are C strings; a device is created once, under a fresh name; only the creation
  and the removal of virtual devices change which ones exist.
\<close>

locale eth_device =
  fixes N :: "'w eth_api" and vdevs :: "'w \<Rightarrow> byte list set"
  assumes vdev_init: "rte_vdev_init N name args w = (r, w') \<Longrightarrow>
      vdevs w' = (if r < 0 then vdevs w else insert (cstr name) (vdevs w)) \<and> (cstr name \<in> vdevs w \<longrightarrow> r < 0)"
    and vdev_uninit: "rte_vdev_uninit N name w = (r, w') \<Longrightarrow>
      vdevs w' = (if r = 0 then vdevs w - {cstr name} else vdevs w)"
    and configure: "rte_eth_dev_configure N p m n w = (r, w') \<Longrightarrow> vdevs w' = vdevs w"
    and rx_queue: "rte_eth_rx_queue_setup N p q d i pool w = (r, w') \<Longrightarrow> vdevs w' = vdevs w"
    and tx_queue: "rte_eth_tx_queue_setup N p q d i w = (r, w') \<Longrightarrow> vdevs w' = vdevs w"
    and dev_start: "rte_eth_dev_start N p w = (r, w') \<Longrightarrow> vdevs w' = vdevs w"
    and promiscuous: "rte_eth_promiscuous_enable N p w = (r, w') \<Longrightarrow> vdevs w' = vdevs w"
    and dev_stop: "rte_eth_dev_stop N p w = (r, w') \<Longrightarrow> vdevs w' = vdevs w"
    and dev_close: "rte_eth_dev_close N p w = (r, w') \<Longrightarrow> vdevs w' = vdevs w"
    and name_term: "rte_eth_dev_get_name_by_port N p w = (r, name) \<Longrightarrow> nul_term name"

text \<open>A library whose removal of an existing device succeeds.\<close>

locale eth_removable = eth_device +
  assumes uninit_ok: "cstr name \<in> vdevs w \<Longrightarrow> fst (rte_vdev_uninit N name w) = 0"

section \<open>Finding a port\<close>

definition port_named :: "'w eth_api \<Rightarrow> byte list \<Rightarrow> 'w \<Rightarrow> 16 word \<Rightarrow> bool" where
  "port_named N name w p \<longleftrightarrow>
     (case rte_eth_dev_get_name_by_port N p w of (r, dev) \<Rightarrow> r = 0 \<and> cstr dev = cstr name)"

definition port_answer :: "'w eth_api \<Rightarrow> byte list \<Rightarrow> 'w \<Rightarrow> 16 word \<Rightarrow> (int \<times> 16 word option) option" where
  "port_answer N name w p =
     (if rte_eth_dev_info_get N p w \<noteq> 0 then Some (rte_eth_dev_info_get N p w, None)
      else if port_named N name w p then Some (0, Some p) else None)"

primrec first_answer :: "('a \<Rightarrow> 'b option) \<Rightarrow> 'a list \<Rightarrow> 'b option" where
  "first_answer g [] = None"
| "first_answer g (x # xs) = (case g x of None \<Rightarrow> first_answer g xs | Some r \<Rightarrow> Some r)"

lemma c_for_first:
  assumes "\<And>i. i \<in> set ks \<Longrightarrow> body i = Inr (case g i of None \<Rightarrow> Continue | Some r \<Rightarrow> Return r)"
  shows "c_for ks body = Inr (first_answer g ks)"
  using assms by (induction ks) (auto split: option.splits)

lemma first_answer_Some:
  "first_answer g xs = Some r \<longleftrightarrow> (\<exists>i < length xs. g (xs ! i) = Some r \<and> (\<forall>j < i. g (xs ! j) = None))"
proof (induction xs)
  case (Cons x xs)
  then show ?case
    by (cases "g x") (auto simp: Ex_less_Suc2 All_less_Suc2)
qed simp

context eth_device
begin

lemma find_port_run:
  assumes "nul_term name"
  shows "find_port_by_dev_name N name w =
     Inr (case first_answer (port_answer N name w) (map of_nat [0..<unat (rte_eth_dev_count_avail N w)]) of
            None \<Rightarrow> (- 1, None) | Some v \<Rightarrow> v)"
proof -
  have "c_for ks (\<lambda>port_id.
       let ret = rte_eth_dev_info_get N port_id w in
       if ret \<noteq> 0 then Inr (Return (ret, None))
       else
         (case rte_eth_dev_get_name_by_port N port_id w of (ret, dev) \<Rightarrow>
          if ret = 0 then
            rbind (c_strcmp dev name) (\<lambda>r. if r = 0 then Inr (Return (0, Some port_id)) else Inr Continue)
          else Inr Continue)) = Inr (first_answer (port_answer N name w) ks)"
    for ks
    using name_term assms
    by (intro c_for_first) (auto simp: port_answer_def port_named_def c_strcmp_eq_0 Let_def split: prod.split)
  then show ?thesis
    by (simp only: find_port_by_dev_name_def rbind_Inr) (simp split: option.split)
qed

lemma find_port_found:
  assumes "nul_term name"
  shows "find_port_by_dev_name N name w = Inr (0, Some p) \<longleftrightarrow>
     p < rte_eth_dev_count_avail N w \<and> port_named N name w p \<and>
     (\<forall>q \<le> p. rte_eth_dev_info_get N q w = 0) \<and> (\<forall>q < p. \<not> port_named N name w q)"
    (is "?L \<longleftrightarrow> ?R")
proof -
  let ?c = "rte_eth_dev_count_avail N w" and ?ks = "map of_nat [0..<unat (rte_eth_dev_count_avail N w)] :: 16 word list"
  have ids: "?ks ! unat q = q" if "q < ?c" for q
    using that by (simp add: word_less_nat_alt)
  have "?L \<longleftrightarrow> first_answer (port_answer N name w) ?ks = Some (0, Some p)"
    by (simp add: find_port_run [OF assms] split: option.split)
  also have "\<dots> \<longleftrightarrow> (\<exists>i < length ?ks. port_answer N name w (?ks ! i) = Some (0, Some p) \<and>
      (\<forall>j < i. port_answer N name w (?ks ! j) = None))"
    by (rule first_answer_Some)
  also have "\<dots> \<longleftrightarrow> (\<exists>i :: 16 word. i < ?c \<and> port_answer N name w i = Some (0, Some p) \<and>
      (\<forall>j < i. port_answer N name w j = None))"
  proof (intro iffI; elim exE conjE)
    fix i
    assume i: "i < length ?ks" "port_answer N name w (?ks ! i) = Some (0, Some p)"
      "\<forall>j < i. port_answer N name w (?ks ! j) = None"
    then have "unat (of_nat i :: 16 word) = i"
      using unsigned_less [where 'a = nat, of ?c] by (simp add: unat_of_nat take_bit_nat_eq_self)
    then show "\<exists>i :: 16 word. i < ?c \<and> port_answer N name w i = Some (0, Some p) \<and>
        (\<forall>j < i. port_answer N name w j = None)"
      using i ids by (intro exI [of _ "of_nat i"]) (auto simp: word_less_nat_alt)
  next
    fix i
    assume "i < ?c" "port_answer N name w i = Some (0, Some p)" "\<forall>j < i. port_answer N name w j = None"
    then show "\<exists>i < length ?ks. port_answer N name w (?ks ! i) = Some (0, Some p) \<and>
        (\<forall>j < i. port_answer N name w (?ks ! j) = None)"
      by (intro exI [of _ "unat i"])
        (auto simp: word_less_nat_alt unat_of_nat intro!: allI dest: less_trans spec [of _ "of_nat _"])
  qed
  also have "\<dots> \<longleftrightarrow> ?R"
    by (auto simp: port_answer_def le_less split: if_splits)
  finally show ?thesis .
qed

lemma find_port_result:
  assumes "nul_term name"
  obtains p where "find_port_by_dev_name N name w = Inr (0, Some p)"
  | r where "find_port_by_dev_name N name w = Inr (r, None)" "r \<noteq> 0"
proof (cases "first_answer (port_answer N name w) (map of_nat [0..<unat (rte_eth_dev_count_avail N w)])")
  case None
  then show ?thesis using that(2) find_port_run [OF assms] by simp
next
  case (Some v)
  then obtain q where "port_answer N name w q = Some v"
    by (auto simp: first_answer_Some)
  with Some show ?thesis
    using that find_port_run [OF assms, of w] by (auto simp: port_answer_def split: if_splits)
qed

end

section \<open>Creating and releasing a port\<close>

text \<open>What the return value of \<open>net_port_init\<close> tells about the devices and the port.\<close>

definition init_outcome ::
  "('w \<Rightarrow> byte list set) \<Rightarrow> 'w eth_api \<Rightarrow> net_port \<Rightarrow> 'w \<Rightarrow> int \<times> net_port \<times> 'w \<Rightarrow> bool" where
  "init_outcome vdevs N port w out \<longleftrightarrow>
     (case out of (r, port', w') \<Rightarrow>
        r \<le> 0 \<and> dev_name port' = dev_name port \<and> mbuf_pool port' = mbuf_pool port \<and>
        (if r = 0 then
           cstr (dev_name port) \<notin> vdevs w \<and> vdevs w' = insert (cstr (dev_name port)) (vdevs w) \<and>
           find_port_by_dev_name N (dev_name port) (snd (rte_vdev_init N (dev_name port) (dev_args port) w)) =
             Inr (0, Some (port_id port')) \<and> \<not> neighbor_learned port'
         else vdevs w' = vdevs w))"

context eth_removable
begin

lemma uninit_outcome:
  assumes "cstr (dev_name p) \<notin> vdevs w" "vdevs w' = insert (cstr (dev_name p)) (vdevs w)" "r < 0"
    "dev_name q = dev_name p" "mbuf_pool q = mbuf_pool p"
  shows "init_outcome vdevs N p w (uninit_and_return N r q w')"
proof -
  obtain r' w'' where "rte_vdev_uninit N (dev_name p) w' = (r', w'')" by fastforce
  then show ?thesis
    using vdev_uninit [of "dev_name p" w' r' w''] uninit_ok [of "dev_name p" w'] assms
    by (simp add: init_outcome_def uninit_and_return_def)
qed

lemma net_port_init_run:
  assumes name: "nul_term (dev_name port)"
  shows "case net_port_init N (Some port) w of Inl e \<Rightarrow> False | Inr out \<Rightarrow> init_outcome vdevs N port w out"
proof -
  obtain r w1 where init: "rte_vdev_init N (dev_name port) (dev_args port) w = (r, w1)" by fastforce
  note made = vdev_init [OF init]
  show ?thesis
  proof (cases "r < 0")
    case True
    with init made show ?thesis by (simp add: net_port_init_def init_outcome_def)
  next
    case False
    with made have new: "cstr (dev_name port) \<notin> vdevs w" "vdevs w1 = insert (cstr (dev_name port)) (vdevs w)"
      by auto
    from name show ?thesis
    proof (cases rule: find_port_result [of "dev_name port" w1])
      case (1 p)
      obtain r2 w2 where c: "rte_eth_dev_configure N p 1 1 w1 = (r2, w2)" by fastforce
      obtain r3 w3 where x: "rte_eth_rx_queue_setup N p 0 RX_RING_SIZE (rte_eth_dev_socket_id N p w2)
        (mbuf_pool port) w2 = (r3, w3)" by fastforce
      obtain r4 w4 where t: "rte_eth_tx_queue_setup N p 0 TX_RING_SIZE (rte_eth_dev_socket_id N p w3) w3 = (r4, w4)"
        by fastforce
      obtain r5 mac where m: "rte_eth_macaddr_get N p w4 = (r5, mac)" by fastforce
      note same = configure [OF c] rx_queue [OF x] tx_queue [OF t]
      show ?thesis
        using init 1 c x t m False new same
        by (simp add: net_port_init_def Let_def uninit_outcome) (simp add: init_outcome_def)
    next
      case (2 r')
      with init False new show ?thesis
        by (simp add: net_port_init_def uninit_outcome)
    qed
  qed
qed

lemma net_port_close_run:
  assumes "fst (rte_eth_dev_stop N (port_id p) w) = 0"
    "fst (rte_eth_dev_close N (port_id p) (snd (rte_eth_dev_stop N (port_id p) w))) = 0"
    "cstr (dev_name p) \<in> vdevs w"
  shows "\<exists>w'. net_port_close N (Some p) w = (Some (p\<lparr>port_id := - 1\<rparr>), w') \<and>
    vdevs w' = vdevs w - {cstr (dev_name p)}"
proof -
  obtain w1 where s: "rte_eth_dev_stop N (port_id p) w = (0, w1)" using assms(1) by (cases "rte_eth_dev_stop N (port_id p) w") auto
  obtain w2 where c: "rte_eth_dev_close N (port_id p) w1 = (0, w2)"
    using assms(2) s by (cases "rte_eth_dev_close N (port_id p) w1") auto
  note same = dev_stop [OF s] dev_close [OF c]
  obtain w3 where u: "rte_vdev_uninit N (dev_name p) w2 = (0, w3)"
    using uninit_ok [of "dev_name p" w2] same assms(3) by (cases "rte_vdev_uninit N (dev_name p) w2") auto
  show ?thesis
    using s c u vdev_uninit [OF u] same by (simp add: net_port_close_def)
qed

end

section \<open>Shape of a description\<close>

definition wf_net_port :: "net_port \<Rightarrow> bool" where
  "wf_net_port p \<longleftrightarrow>
     length (iface_name p) = 32 \<and> length (dev_name p) = 64 \<and> length (dev_args p) = 256 \<and>
     length (mac_addr p) = 6 \<and> length (neighbor_mac p) = 6 \<and>
     nul_term (iface_name p) \<and> nul_term (dev_name p) \<and> nul_term (dev_args p)"

definition describes :: "byte list \<Rightarrow> byte list \<Rightarrow> byte list \<Rightarrow> addr option \<Rightarrow> net_port \<Rightarrow> bool" where
  "describes name args iface pool p \<longleftrightarrow>
     wf_net_port p \<and> port_id p = 0xFFFF \<and> mbuf_pool p = pool \<and> \<not> neighbor_learned p \<and>
     cstr (dev_name p) = take 63 name \<and> cstr (dev_args p) = take 255 args \<and> cstr (iface_name p) = take 31 iface"

lemma c_snprintf_array:
  assumes "0 < length dst" "0 \<notin> set s"
  shows "length (c_snprintf dst s) = length dst" "nul_term (c_snprintf dst s)"
    "cstr (c_snprintf dst s) = take (length dst - 1) s"
proof -
  have "0 \<notin> set (take n s)" for n
    using assms(2) by (auto dest: in_set_takeD)
  then show "cstr (c_snprintf dst s) = take (length dst - 1) s"
    by (simp add: c_snprintf_def Let_def cstr_append_nul)
  show "length (c_snprintf dst s) = length dst" "nul_term (c_snprintf dst s)"
    using assms(1) by (cases dst; simp add: c_snprintf_def Let_def nul_term_def min_def)+
qed

lemma iface_row:
  assumes "nul_term iface"
  obtains row where "c_strncpy (replicate 32 0) iface 31 = Inr row" "length row = 32"
    "length (row[31 := 0]) = 32" "nul_term (row[31 := 0])" "cstr (row[31 := 0]) = take 31 (cstr iface)"
proof -
  let ?row = "take 31 (cstr iface) @ replicate (31 - length (cstr iface)) 0 @ drop 31 (replicate 32 0) :: byte list"
  have row: "c_strncpy (replicate 32 0) iface 31 = Inr ?row"
    using c_strncpy_term [of iface 31 "replicate 32 0"] assms by simp
  have len: "length ?row = 32" by simp
  have "?row[31 := 0] = ?row"
    using len by (intro list_update_same_conv [THEN iffD2])
      (simp_all add: nth_append min_def numeral_eq_Suc)
  moreover have "cstr ?row = take 31 (cstr iface)"
    using cstr_append_nul [of "take 31 (cstr iface)"] cstr_no_nul [of iface]
    by (cases "31 - length (cstr iface)") (auto dest: in_set_takeD)
  ultimately show ?thesis
    using that [OF row len] by (simp add: nul_term_def)
qed


definition described_port :: "byte list \<Rightarrow> byte list \<Rightarrow> byte list \<Rightarrow> addr option \<Rightarrow> net_port" where
  "described_port name args row pool =
     \<lparr>port_id = - 1, iface_name = row, dev_name = c_snprintf (replicate 64 0) name,
      dev_args = c_snprintf (replicate 256 0) args, mbuf_pool = pool,
      mac_addr = replicate 6 0, neighbor_mac = replicate 6 0, neighbor_learned = False\<rparr>"

lemma describes_described_port:
  assumes "0 \<notin> set name" "0 \<notin> set args" "length row = 32" "nul_term row" "cstr row = take 31 iface"
  shows "describes name args iface pool (described_port name args row pool)"
proof -
  have "(- 1 :: 16 word) = 0xFFFF" by simp
  then show ?thesis
    using assms c_snprintf_array [of "replicate 64 0" name] c_snprintf_array [of "replicate 256 0" args]
    by (simp add: describes_def described_port_def wf_net_port_def)
qed

definition tap_name :: "byte list \<Rightarrow> byte list" where
  "tap_name iface = bytes_of_string ''net_tap_'' @ iface"

definition tap_args :: "byte list \<Rightarrow> byte list" where
  "tap_args iface = bytes_of_string ''iface='' @ iface @ bytes_of_string '', remote='' @ iface"

definition xdp_name :: "bool \<Rightarrow> byte list \<Rightarrow> byte list" where
  "xdp_name af iface = bytes_of_string (if af then ''eth_af_packet_'' else ''net_af_xdp_'') @ iface"

definition xdp_args :: "bool \<Rightarrow> byte list \<Rightarrow> byte list" where
  "xdp_args af iface = bytes_of_string ''iface='' @ iface @ bytes_of_string
     (if af then '',qpairs=1,blocksz=16384,framesz=2048,framecnt=4096'' else '',start_queue=0,queue_count=1'')"

lemmas port_texts = tap_name_def tap_args_def xdp_name_def xdp_args_def

lemma port_texts_nul:
  "0 \<notin> set iface \<Longrightarrow>
   0 \<notin> set (tap_name iface) \<and> 0 \<notin> set (tap_args iface) \<and> 0 \<notin> set (xdp_name af iface) \<and> 0 \<notin> set (xdp_args af iface)"
  by (simp add: port_texts)

lemma ports_described:
  assumes "nul_term iface"
  obtains p q where
    "init_struct_tap_port True iface pool = Inr (Some p)" "describes (tap_name (cstr iface)) (tap_args (cstr iface)) (cstr iface) pool p"
    "init_struct_af_xdp_port af True iface pool = Inr (Some q)"
    "describes (xdp_name af (cstr iface)) (xdp_args af (cstr iface)) (cstr iface) pool q"
proof -
  obtain row where row: "c_strncpy (replicate 32 0) iface 31 = Inr row" "length row = 32"
    "length (row[31 := 0]) = 32" "nul_term (row[31 := 0])" "cstr (row[31 := 0]) = take 31 (cstr iface)"
    using iface_row [OF assms] .
  have "init_struct_tap_port True iface pool =
      Inr (Some (described_port (tap_name (cstr iface)) (tap_args (cstr iface)) (row[31 := 0]) pool))"
    using row(1,2) by (simp add: init_struct_tap_port_def zero_port_def Let_def described_port_def port_texts)
  moreover have "init_struct_af_xdp_port af True iface pool =
      Inr (Some (described_port (xdp_name af (cstr iface)) (xdp_args af (cstr iface)) (row[31 := 0]) pool))"
    using row(1,2) by (simp add: init_struct_af_xdp_port_def zero_port_def Let_def described_port_def port_texts)
  ultimately show ?thesis
    using row(3-5) port_texts_nul [OF cstr_no_nul, of iface af]
    by (intro that) (auto intro!: describes_described_port)
qed

text \<open>Linux limits the name of an interface to fifteen bytes; such names are never cut.\<close>

lemma describes_exact:
  assumes "describes (xdp_name af i) (xdp_args af i) i pool q" "describes (tap_name i) (tap_args i) i pool p" "length i < 16"
  shows "cstr (dev_name q) = xdp_name af i" "cstr (dev_args q) = xdp_args af i"
    "cstr (dev_name p) = tap_name i" "cstr (dev_args p) = tap_args i"
proof -
  have "length (xdp_name af i) \<le> 63" "length (xdp_args af i) \<le> 255" "length (tap_name i) \<le> 63" "length (tap_args i) \<le> 255"
    using assms(3) by (simp_all add: port_texts)
  with assms show "cstr (dev_name q) = xdp_name af i" "cstr (dev_args q) = xdp_args af i"
    "cstr (dev_name p) = tap_name i" "cstr (dev_args p) = tap_args i"
    by (simp_all add: describes_def)
qed

section \<open>A sample device library\<close>

text \<open>
  The world is the table of ports, by identifier: a removed device leaves its identifier unused.
\<close>

definition ref_present :: "16 word \<Rightarrow> byte list option list \<Rightarrow> bool" where
  "ref_present p w \<longleftrightarrow> unat p < length w \<and> w ! unat p \<noteq> None"

definition ref_eth :: "byte list option list eth_api" where
  "ref_eth =
     \<lparr>rte_eth_dev_count_avail = (\<lambda>w. of_nat (length (filter (\<lambda>d. d \<noteq> None) w))),
      rte_eth_dev_info_get = (\<lambda>p w. if ref_present p w then 0 else - 19),
      rte_eth_dev_get_name_by_port = (\<lambda>p w. if ref_present p w then (0, the (w ! unat p) @ [0]) else (- 19, [0])),
      rte_eth_dev_is_valid_port = ref_present,
      rte_vdev_init = (\<lambda>name args w.
        if Some (cstr name) \<in> set w then (- 17, w) else (0, w @ [Some (cstr name)])),
      rte_vdev_uninit = (\<lambda>name w.
        if Some (cstr name) \<in> set w then (0, map (\<lambda>d. if d = Some (cstr name) then None else d) w) else (- 22, w)),
      rte_eth_dev_socket_id = (\<lambda>p w. 0),
      rte_eth_dev_configure = (\<lambda>p m n w. (if ref_present p w then 0 else - 19, w)),
      rte_eth_rx_queue_setup = (\<lambda>p q d i pool w. (if pool = None then - 22 else 0, w)),
      rte_eth_tx_queue_setup = (\<lambda>p q d i w. (0, w)),
      rte_eth_macaddr_get = (\<lambda>p w. (0, replicate 6 2)),
      rte_eth_dev_start = (\<lambda>p w. (0, w)),
      rte_eth_promiscuous_enable = (\<lambda>p w. (0, w)),
      rte_eth_dev_stop = (\<lambda>p w. (if ref_present p w then 0 else - 19, w)),
      rte_eth_dev_close = (\<lambda>p w. (if ref_present p w then 0 else - 19, w))\<rparr>"

definition ref_vdevs :: "byte list option list \<Rightarrow> byte list set" where
  "ref_vdevs w = {n. Some n \<in> set w}"

interpretation ref_ports: eth_removable ref_eth ref_vdevs
  by unfold_locales
    (auto simp: ref_eth_def ref_vdevs_def nul_term_def split: if_splits)

section \<open>Properties\<close>

text \<open>
  C32 (functional).  \<open>find_port_by_dev_name\<close> never reads out of bounds, and it succeeds with a port
  \<open>p\<close> exactly when \<open>p\<close> is below the number of available ports, carries the name, is the first
  to carry it, and every identifier up to \<open>p\<close> answers the request for its information.  So a port
  above an identifier that is no longer in use is never found.
\<close>

theorem find_port_by_dev_name_spec:
  assumes "eth_device N vdevs" "nul_term name"
  shows "(\<exists>r. find_port_by_dev_name N name w = Inr r \<and> r \<noteq> (0, None)) \<and>
    (find_port_by_dev_name N name w = Inr (0, Some p) \<longleftrightarrow>
       p < rte_eth_dev_count_avail N w \<and> port_named N name w p \<and>
       (\<forall>q \<le> p. rte_eth_dev_info_get N q w = 0) \<and> (\<forall>q < p. \<not> port_named N name w q))"
proof
  show "\<exists>r. find_port_by_dev_name N name w = Inr r \<and> r \<noteq> (0, None)"
    by (rule eth_device.find_port_result [OF assms, of w]) auto
  show "find_port_by_dev_name N name w = Inr (0, Some p) \<longleftrightarrow>
       p < rte_eth_dev_count_avail N w \<and> port_named N name w p \<and>
       (\<forall>q \<le> p. rte_eth_dev_info_get N q w = 0) \<and> (\<forall>q < p. \<not> port_named N name w q)"
    by (rule eth_device.find_port_found [OF assms])
qed

theorem find_port_by_dev_name_spec_witness:
  "find_port_by_dev_name ref_eth [98, 0] [Some [97], Some [98]] = Inr (0, Some 1) \<and>
   find_port_by_dev_name ref_eth [98, 0] [None, Some [98]] \<noteq> Inr (0, Some 1)"
proof -
  have two: "q \<le> 1 \<longleftrightarrow> q = 0 \<or> q = 1" for q :: "16 word"
    by (auto simp: word_le_nat_alt le_Suc_eq word_unat_eq_iff)
  have nt: "nul_term [98, 0]" by simp
  have d: "eth_device ref_eth ref_vdevs" by (rule ref_ports.eth_device_axioms)
  show ?thesis
    using find_port_by_dev_name_spec [OF d nt, of "[Some [97], Some [98]]" 1]
      find_port_by_dev_name_spec [OF d nt, of "[None, Some [98]]" 1]
    by (simp add: two ref_eth_def ref_present_def port_named_def)
qed


definition named_port :: net_port where
  "named_port = zero_port\<lparr>dev_name := 98 # replicate 63 0\<rparr>"


text \<open>
  C34 (type).  The two constructors of descriptions give, when the allocation succeeds, arrays of
  the declared sizes that are terminated, the identifier 65535 that stands for no port, and texts
  cut to the sizes of their arrays; for an interface name that Linux admits (fewer than sixteen bytes)
  nothing is cut.  When the allocation fails they return no port.
\<close>

theorem port_descriptions:
  assumes "nul_term iface"
  shows "init_struct_tap_port False iface pool = Inr None \<and> init_struct_af_xdp_port af False iface pool = Inr None \<and>
    (\<exists>p q. init_struct_tap_port True iface pool = Inr (Some p) \<and>
       describes (tap_name (cstr iface)) (tap_args (cstr iface)) (cstr iface) pool p \<and>
       init_struct_af_xdp_port af True iface pool = Inr (Some q) \<and>
       describes (xdp_name af (cstr iface)) (xdp_args af (cstr iface)) (cstr iface) pool q \<and>
       (length (cstr iface) < 16 \<longrightarrow>
          cstr (dev_name p) = tap_name (cstr iface) \<and> cstr (dev_args p) = tap_args (cstr iface) \<and>
          cstr (dev_name q) = xdp_name af (cstr iface) \<and> cstr (dev_args q) = xdp_args af (cstr iface)))"
proof -
  obtain p q where pq: "init_struct_tap_port True iface pool = Inr (Some p)"
    "describes (tap_name (cstr iface)) (tap_args (cstr iface)) (cstr iface) pool p"
    "init_struct_af_xdp_port af True iface pool = Inr (Some q)"
    "describes (xdp_name af (cstr iface)) (xdp_args af (cstr iface)) (cstr iface) pool q"
    using ports_described [OF assms] .
  moreover have "init_struct_tap_port False iface pool = Inr None" "init_struct_af_xdp_port af False iface pool = Inr None"
    by (simp_all add: init_struct_tap_port_def init_struct_af_xdp_port_def)
  ultimately show ?thesis
    using describes_exact [OF pq(4,2)] by blast
qed

theorem port_descriptions_witness:
  "\<exists>p. init_struct_tap_port True [116, 48, 0] None = Inr (Some p) \<and>
       cstr (dev_name p) = bytes_of_string ''net_tap_t0'' \<and> wf_net_port p"
  using port_descriptions [of "[116, 48, 0]" None False]
  by (auto simp: tap_name_def describes_def)

end
