(* ===== verification/Store.thy ===== *)
theory Store
  imports Cache
begin

text \<open>
  What the persistence code of \<open>ip_cache.c\<close> and \<open>domain_cache.c\<close> shares: the SQLite calls on the
  connection of a cache, the loops over the rows of a query, and their properties.  A call on a null
  connection returns \<open>SQLITE_MISUSE\<close>.
\<close>

section \<open>Calls on the connection of a cache\<close>

abbreviation (input) SQLITE_MISUSE :: int where "SQLITE_MISUSE \<equiv> 21"

definition db_prepare ::
  "('w, 'db, 'st) sqlite_api \<Rightarrow> string \<Rightarrow> ('h, 'db, 'n, 'k) cache \<Rightarrow> int \<times> 'st option \<times> ('h, 'db, 'n, 'k) cache" where
  "db_prepare S sql c =
     (case cache_table c of
        None \<Rightarrow> (SQLITE_MISUSE, None, c)
      | Some db \<Rightarrow>
          (case sqlite3_prepare_v2 S db sql of (rc, st, db) \<Rightarrow>
           (rc, if rc = SQLITE_OK then Some st else None, c\<lparr>cache_table := Some db\<rparr>)))"

definition db_step ::
  "('w, 'db, 'st) sqlite_api \<Rightarrow> 'st \<Rightarrow> ('h, 'db, 'n, 'k) cache \<Rightarrow> int \<times> 'st \<times> ('h, 'db, 'n, 'k) cache" where
  "db_step S st c =
     (case cache_table c of
        None \<Rightarrow> (SQLITE_MISUSE, st, c)
      | Some db \<Rightarrow> (case sqlite3_step S db st of (rc, st, db) \<Rightarrow> (rc, st, c\<lparr>cache_table := Some db\<rparr>)))"

definition db_finalize ::
  "('w, 'db, 'st) sqlite_api \<Rightarrow> 'st \<Rightarrow> ('h, 'db, 'n, 'k) cache \<Rightarrow> int \<times> ('h, 'db, 'n, 'k) cache" where
  "db_finalize S st c =
     (case cache_table c of
        None \<Rightarrow> (SQLITE_MISUSE, c)
      | Some db \<Rightarrow> (case sqlite3_finalize S st db of (rc, db) \<Rightarrow> (rc, c\<lparr>cache_table := Some db\<rparr>)))"

definition db_exec ::
  "('w, 'db, 'st) sqlite_api \<Rightarrow> string \<Rightarrow> ('h, 'db, 'n, 'k) cache \<Rightarrow> int \<times> ('h, 'db, 'n, 'k) cache" where
  "db_exec S sql c =
     (case cache_table c of
        None \<Rightarrow> (SQLITE_MISUSE, c)
      | Some db \<Rightarrow> (case sqlite3_exec S db sql of (rc, db) \<Rightarrow> (rc, c\<lparr>cache_table := Some db\<rparr>)))"

text \<open>What uninitialised memory holds: a block of \<open>rte_malloc\<close>, a variable on the stack, a
  snapshot of \<open>malloc\<close>, which is null when the allocation fails.\<close>

record ('w, 'n, 'k, 'sn) memory =
  heap_node :: "'w \<Rightarrow> 'n"
  stack_key :: "'w \<Rightarrow> 'k"
  snapshot_block :: "nat \<Rightarrow> 'w \<Rightarrow> 'sn list option"

section \<open>Loops over rows\<close>

text \<open>The loop over the category rows, with the number of iterations left before
  \<open>cat_idx < MAX_CATEGORIES\<close> fails; the step is taken before that test.\<close>

fun load_rows_of_categories ::
  "(byte list option \<Rightarrow> nat \<Rightarrow> byte list \<Rightarrow> byte list res) \<Rightarrow> ('w, 'db, 'st) sqlite_api \<Rightarrow> nat \<Rightarrow> nat \<Rightarrow> 'st \<Rightarrow>
   byte list list \<Rightarrow> ('h, 'db, 'n, 'k) cache \<Rightarrow> (byte list list \<times> 'st \<times> ('h, 'db, 'n, 'k) cache) res" where
  "load_rows_of_categories f S left cat_idx stmt t c =
     (case db_step S stmt c of (rc, stmt, c) \<Rightarrow>
      if rc = SQLITE_ROW then
        (case left of
           0 \<Rightarrow> Inr (t, stmt, c)
         | Suc left \<Rightarrow>
             rbind (row_update (f (sqlite3_column_text S stmt 0)) cat_idx t) (\<lambda>t.
             load_rows_of_categories f S left (Suc cat_idx) stmt t c))
      else Inr (t, stmt, c))"

declare load_rows_of_categories.simps [simp del]

text \<open>The loop over the rows of the main table; the numbers of rows loaded, expired and failed.
  Nothing in the loop bounds it.\<close>

partial_function (option) load_rows ::
  "('w, 'db, 'st) sqlite_api \<Rightarrow> ('st \<Rightarrow> 'w \<times> ('h, 'db, 'n, 'k) cache \<Rightarrow> (load_result \<times> 'w \<times> ('h, 'db, 'n, 'k) cache) res) \<Rightarrow>
   'st \<Rightarrow> nat \<times> nat \<times> nat \<Rightarrow> 'w \<Rightarrow> ('h, 'db, 'n, 'k) cache \<Rightarrow>
   ('st \<times> (nat \<times> nat \<times> nat) \<times> 'w \<times> ('h, 'db, 'n, 'k) cache) res option" where
  "load_rows S create stmt counts w c =
     (case db_step S stmt c of (rc, stmt, c) \<Rightarrow>
      if rc = SQLITE_ROW then
        (case create stmt (w, c) of
           Inl e \<Rightarrow> Some (Inl e)
         | Inr (ret, w, c) \<Rightarrow>
             load_rows S create stmt
               (case counts of (loaded, over, errors) \<Rightarrow>
                  (case ret of LOAD_OK \<Rightarrow> (loaded + 1, over, errors)
                   | LOAD_EXPIRED \<Rightarrow> (loaded, over + 1, errors)
                   | LOAD_ERROR \<Rightarrow> (loaded, over, errors + 1))) w c)
      else Some (Inr (stmt, counts, w, c)))"

declare load_rows.simps [code]

section \<open>Loops that write\<close>

text \<open>One \<open>INSERT\<close> per category, up to the first empty one; a failed step ends the loop.\<close>

fun insert_category_rows ::
  "('w, 'db, 'st) sqlite_api \<Rightarrow> byte list \<Rightarrow> byte list list \<Rightarrow> nat \<Rightarrow> nat \<Rightarrow> 'st \<Rightarrow> ('h, 'db, 'n, 'k) cache \<Rightarrow>
   (int \<times> ('h, 'db, 'n, 'k) cache) res" where
  "insert_category_rows S name cats 0 i stmt c = Inr (SQLITE_OK, snd (db_finalize S stmt c))"
| "insert_category_rows S name cats (Suc left) i stmt c =
     rbind (rget cats i) (\<lambda>row.
     rbind (rget row 0) (\<lambda>b.
     if b = 0 then Inr (SQLITE_OK, snd (db_finalize S stmt c))
     else
       let stmt = sqlite3_bind_text S stmt 1 (Some name);
           stmt = sqlite3_bind_text S stmt 2 (Some row) in
       (case db_step S stmt c of (ret, stmt, c) \<Rightarrow>
        if ret \<noteq> SQLITE_DONE then Inr (ret, snd (db_finalize S stmt c))
        else insert_category_rows S name cats left (Suc i) (sqlite3_reset S stmt) c)))"

text \<open>\<open>snapt[i] = ...; i++\<close>, through a pointer that may be null.\<close>

definition store_snapshot :: "'sn \<Rightarrow> nat \<Rightarrow> 'sn list option \<Rightarrow> (nat \<times> 'sn list option) res" where
  "store_snapshot sn i snapt =
     (case snapt of
        None \<Rightarrow> Inl NullDeref
      | Some rows \<Rightarrow> rbind (rset rows i sn) (\<lambda>rows. Inr (Suc i, Some rows)))"

text \<open>The transaction that writes the first \<open>count\<close> rows of a snapshot, and frees it unless the
  transaction cannot be opened or committed.\<close>

definition write_snapshot ::
  "('w, 'db, 'st) sqlite_api \<Rightarrow> ('sn \<Rightarrow> ('h, 'db, 'n, 'k) cache \<Rightarrow> (int \<times> ('h, 'db, 'n, 'k) cache) res) \<Rightarrow> nat \<Rightarrow>
   'sn list option \<Rightarrow> ('h, 'db, 'n, 'k) cache \<Rightarrow> (bool \<times> ('h, 'db, 'n, 'k) cache) res" where
  "write_snapshot S save count snapt c =
     (case db_exec S ''BEGIN TRANSACTION;'' c of (ret, c) \<Rightarrow>
      if ret \<noteq> SQLITE_OK then Inr (snapt \<noteq> None, c)
      else
        rbind (c_fold [0..<count] (\<lambda>i c.
            case snapt of
              None \<Rightarrow> Inl NullDeref
            | Some rows \<Rightarrow> rbind (rget rows i) (\<lambda>sn. rbind (save sn c) (\<lambda>(ret, c). Inr c))) c) (\<lambda>c.
        case db_exec S ''COMMIT;'' c of (ret, c) \<Rightarrow>
        Inr (ret \<noteq> SQLITE_OK \<and> snapt \<noteq> None, c)))"

section \<open>What the calls leave alone\<close>

text \<open>The calls change the connection only, and nothing but the calls looks at it.\<close>

lemma cache_table_irrelevant [simp]:
  "cache_ok slots live getk (w, c\<lparr>cache_table := t\<rparr>) = cache_ok slots live getk (w, c)"
  "unused slots (c\<lparr>cache_table := t\<rparr>) a = unused slots c a"
  "cache_view slots (c\<lparr>cache_table := t\<rparr>) = cache_view slots c"
  "owned (c\<lparr>cache_table := t\<rparr>) = owned c"
  by (simp_all add: cache_ok_def unused_def cache_view_def owned_def split: option.splits)

lemma db_calls:
  "db_prepare S sql c = (rc, st, c') \<Longrightarrow> \<exists>t. c' = c\<lparr>cache_table := t\<rparr>"
  "db_step S st1 c = (rc, st1', c') \<Longrightarrow> \<exists>t. c' = c\<lparr>cache_table := t\<rparr>"
  "db_finalize S st1 c = (rc, c') \<Longrightarrow> \<exists>t. c' = c\<lparr>cache_table := t\<rparr>"
  "db_exec S sql c = (rc, c') \<Longrightarrow> \<exists>t. c' = c\<lparr>cache_table := t\<rparr>"
  by (cases c; auto simp: db_prepare_def db_step_def db_finalize_def db_exec_def split: option.splits prod.splits)+

section \<open>Queries\<close>

text \<open>
  What SQLite documents of a \<open>SELECT\<close>: the text of a column is terminated; a step that returns a
  row leaves fewer rows to return; and reading changes the database for nobody.
  \<open>left db st\<close> is the number of rows that the statement \<open>st\<close> still has to return.
\<close>

locale sqlite_reads =
  fixes S :: "('w, 'db, 'st) sqlite_api" and left :: "'db \<Rightarrow> 'st \<Rightarrow> nat" and reads :: "'st \<Rightarrow> bool"
  assumes text_term: "sqlite3_column_text S st i = Some s \<Longrightarrow> nul_term s"
    and prepare_reads: "sqlite3_prepare_v2 S db sql = (SQLITE_OK, st, db') \<Longrightarrow> take 6 sql = ''SELECT'' \<Longrightarrow> reads st"
    and bind_reads: "reads st \<Longrightarrow> reads (sqlite3_bind_text S st i v)"
    and step_reads: "reads st \<Longrightarrow> sqlite3_step S db st = (rc, st', db') \<Longrightarrow> reads st'"
    and step_left: "reads st \<Longrightarrow> sqlite3_step S db st = (SQLITE_ROW, st', db') \<Longrightarrow> left db' st' < left db st"
    and step_others: "reads st \<Longrightarrow> sqlite3_step S db st = (rc, st', db') \<Longrightarrow> left db' st2 = left db st2"
    and prepare_others: "sqlite3_prepare_v2 S db sql = (rc, st, db') \<Longrightarrow> left db' st2 = left db st2"
    and finalize_others: "sqlite3_finalize S st db = (rc, db') \<Longrightarrow> left db' st2 = left db st2"
begin

definition rows_left :: "('h, 'db, 'n, 'k) cache \<Rightarrow> 'st \<Rightarrow> nat" where
  "rows_left c st = (case cache_table c of None \<Rightarrow> 0 | Some db \<Rightarrow> left db st)"

lemma rows_left_prepare: "db_prepare S sql c = (rc, st, c') \<Longrightarrow> rows_left c' = rows_left c"
  by (auto simp: db_prepare_def rows_left_def fun_eq_iff dest: prepare_others split: option.splits prod.splits)

lemma rows_left_finalize: "db_finalize S st c = (rc, c') \<Longrightarrow> rows_left c' = rows_left c"
  by (auto simp: db_finalize_def rows_left_def fun_eq_iff dest: finalize_others split: option.splits prod.splits)

lemma rows_left_step: "reads st \<Longrightarrow> db_step S st c = (rc, st', c') \<Longrightarrow> rows_left c' = rows_left c"
  by (auto simp: db_step_def rows_left_def fun_eq_iff dest: step_others split: option.splits prod.splits)

lemma rows_left_row: "reads st \<Longrightarrow> db_step S st c = (SQLITE_ROW, st', c') \<Longrightarrow> rows_left c' st' < rows_left c st"
  by (auto simp: db_step_def rows_left_def dest: step_left split: option.splits prod.splits)

lemma db_step_reads: "reads st \<Longrightarrow> db_step S st c = (rc, st', c') \<Longrightarrow> reads st'"
  by (auto simp: db_step_def dest: step_reads split: option.splits prod.splits)

lemma db_prepare_reads: "db_prepare S sql c = (rc, Some st, c') \<Longrightarrow> take 6 sql = ''SELECT'' \<Longrightarrow> reads st"
  by (auto simp: db_prepare_def dest: prepare_reads split: option.splits prod.splits if_splits)

text \<open>The loop over the rows ends when each row keeps an invariant and leaves the rows alone.\<close>

lemma load_rows_ends:
  assumes I: "I w c" "reads st" and table: "\<And>w c t. I w c \<Longrightarrow> I w (c\<lparr>cache_table := t\<rparr>)"
    and body: "\<And>st w c. I w c \<Longrightarrow> reads st \<Longrightarrow>
      \<exists>r w' c'. create st (w, c) = Inr (r, w', c') \<and> I w' c' \<and> rows_left c' = rows_left c"
  shows "\<exists>st' counts' w' c'. load_rows S create st counts w c = Some (Inr (st', counts', w', c')) \<and> I w' c'"
  using I
proof (induction "rows_left c st" arbitrary: st counts w c rule: less_induct)
  case less
  obtain rc st1 c1 where step: "db_step S st c = (rc, st1, c1)" by (cases "db_step S st c")
  have I1: "I w c1" using db_calls(2) [OF step] table [OF less.prems(1)] by auto
  have r1: "reads st1" using db_step_reads [OF less.prems(2) step] .
  show ?case
  proof (cases "rc = SQLITE_ROW")
    case True
    obtain r w2 c2 where c2: "create st1 (w, c1) = Inr (r, w2, c2)" "I w2 c2" "rows_left c2 = rows_left c1"
      using body [OF I1 r1] by blast
    have "rows_left c2 st1 < rows_left c st"
      using c2(3) rows_left_row [OF less.prems(2)] step True by simp
    from less.hyps [OF this c2(2) r1] show ?thesis
      by (subst load_rows.simps) (simp add: step True c2(1))
  next
    case False
    with I1 show ?thesis by (subst load_rows.simps) (cases counts; simp add: step)
  qed
qed

text \<open>The loop over the categories of a row keeps the size of the table.\<close>

lemma load_categories_run:
  assumes f: "\<And>s i row. (\<And>t. s = Some t \<Longrightarrow> nul_term t) \<Longrightarrow> length row = CATEGORY_MAX_LEN \<Longrightarrow>
      \<exists>row'. f s i row = Inr row' \<and> length row' = CATEGORY_MAX_LEN"
    and t: "length t = MAX_CATEGORIES" "\<forall>row \<in> set t. length row = CATEGORY_MAX_LEN"
    and n: "n + i = MAX_CATEGORIES" and st: "reads st"
  shows "\<exists>t' st' u. load_rows_of_categories f S n i st t c = Inr (t', st', c\<lparr>cache_table := u\<rparr>) \<and>
     length t' = MAX_CATEGORIES \<and> (\<forall>row \<in> set t'. length row = CATEGORY_MAX_LEN) \<and>
     rows_left (c\<lparr>cache_table := u\<rparr>) = rows_left c"
  using t n st
proof (induction n arbitrary: i st t c)
  case (0 i st t c)
  obtain rc st1 c1 where step: "db_step S st c = (rc, st1, c1)" by (cases "db_step S st c")
  with 0 db_calls(2) [OF step] rows_left_step [OF 0(4) step] show ?case
    by (subst load_rows_of_categories.simps) auto
next
  case (Suc n i st t c)
  obtain rc st1 c1 where step: "db_step S st c = (rc, st1, c1)" by (cases "db_step S st c")
  obtain u where u: "c1 = c\<lparr>cache_table := u\<rparr>" using db_calls(2) [OF step] by blast
  note same = rows_left_step [OF Suc.prems(4) step]
  show ?case
  proof (cases "rc = SQLITE_ROW")
    case True
    have i: "i < length t" using Suc.prems(1,3) by simp
    then obtain row' where row: "f (sqlite3_column_text S st1 0) i (t ! i) = Inr row'" "length row' = CATEGORY_MAX_LEN"
      using f [of "sqlite3_column_text S st1 0" "t ! i" i] text_term Suc.prems(2) by (meson nth_mem)
    have rows: "\<forall>row \<in> set (t[i := row']). length row = CATEGORY_MAX_LEN"
      using Suc.prems(2) row(2) by (auto dest!: set_update_subset_insert [THEN subsetD])
    obtain t' st' v where "load_rows_of_categories f S n (Suc i) st1 (t[i := row']) c1 = Inr (t', st', c1\<lparr>cache_table := v\<rparr>)"
      "length t' = MAX_CATEGORIES" "\<forall>row \<in> set t'. length row = CATEGORY_MAX_LEN"
      "rows_left (c1\<lparr>cache_table := v\<rparr>) = rows_left c1"
      using Suc.IH [of "t[i := row']" "Suc i" st1 c1] Suc.prems rows db_step_reads [OF Suc.prems(4) step] by auto
    then show ?thesis
      using step True row(1) i same
      by (subst load_rows_of_categories.simps) (auto simp: row_update_def u)
  next
    case False
    with step u same Suc.prems show ?thesis
      by (subst load_rows_of_categories.simps) auto
  qed
qed

end

section \<open>Loading keeps the cache well formed\<close>

text \<open>The arrays in an uninitialised node have their size.\<close>

definition memory_ok :: "('w, 'x node_cache_scheme, 'k, 'sn) memory \<Rightarrow> bool" where
  "memory_ok M \<longleftrightarrow>
     (\<forall>w. length (categories (heap_node M w)) = MAX_CATEGORIES \<and>
          (\<forall>row \<in> set (categories (heap_node M w)). length row = CATEGORY_MAX_LEN))"

text \<open>A new node that is not stored: it can be filled, freed again, or inserted.\<close>

context cache_env
begin

lemma fill_node:
  assumes ok: "cache_ok slots live getk (w, c)" and a: "cache_nodes c a \<noteq> None" "unused slots c a"
  shows "cache_ok slots live getk (w, c\<lparr>cache_nodes := (cache_nodes c)(a \<mapsto> n)\<rparr>)"
    "unused slots (c\<lparr>cache_nodes := (cache_nodes c)(a \<mapsto> n)\<rparr>) a"
    "cache_view slots (c\<lparr>cache_nodes := (cache_nodes c)(a \<mapsto> n)\<rparr>) = cache_view slots c"
proof -
  have "table_ok getk (content (slots h)) ((cache_nodes c)(a \<mapsto> n)) (cache_keys c)" if "cache_hash c = Some h" for h
    by (rule table_ok_mono [OF cache_okD(5) [OF ok that]]) (use a(2) that in \<open>auto simp: unused_def\<close>)
  with ok a(1) show "cache_ok slots live getk (w, c\<lparr>cache_nodes := (cache_nodes c)(a \<mapsto> n)\<rparr>)"
    by (auto simp: cache_ok_def)
  show "unused slots (c\<lparr>cache_nodes := (cache_nodes c)(a \<mapsto> n)\<rparr>) a"
    using a(2) by (simp add: unused_def)
  show "cache_view slots (c\<lparr>cache_nodes := (cache_nodes c)(a \<mapsto> n)\<rparr>) = cache_view slots c"
    by (rule cache_view_cong) (use a(2) in \<open>auto simp: unused_def\<close>)
qed

lemma free_unused:
  assumes ok: "cache_ok slots live getk (w, c)" and a: "cache_nodes c a \<noteq> None" "unused slots c a"
  shows "\<exists>w' c'. free_node D a (w, c) = Inr (w', c') \<and> cache_ok slots live getk (w', c') \<and>
     frame live (w, c) (w', c') \<and> cache_view slots c' = cache_view slots c \<and> cache_table c' = cache_table c \<and>
     cache_hash c' = cache_hash c"
proof -
  have "cache_keys c a = None"
    using cache_okD(4) [OF ok] a(1) by (auto simp: dom_def)
  then have "(cache_keys c)(a := None) = cache_keys c" by auto
  moreover have "frame live (w, c) (rte_free D a w, c\<lparr>cache_nodes := (cache_nodes c)(a := None)\<rparr>)"
    using a(1) by (intro frameI) (auto simp: owned_def free_live)
  ultimately show ?thesis
    using drop_node_ok [OF ok a, of "rte_free D a w" a] drop_node_view [OF a(2), of "cache_keys c"] free_live [of a w]
    \<open>cache_keys c a = None\<close> a(1)
    by (auto simp: free_node_def)
qed

lemma insert_frame:
  assumes a: "cache_nodes c a = Some n" and run: "g_insert setk D H (Inr k) a (w, c) = Inr (r, w', c')"
  shows "frame live (w, c) (w', c')"
proof (cases "rte_malloc D w")
  case (Pair p w1)
  show ?thesis
  proof (cases p)
    case None
    with run Pair malloc_none [of w w1] show ?thesis by (auto simp: g_insert_def intro: frame_same)
  next
    case (Some ka)
    note new = malloc_some [OF Pair [unfolded Some]]
    obtain ret t where add: "rte_hash_add_key_data H (cache_hash c) k a = (ret, t)" by fastforce
    have "owned c' \<subseteq> insert ka (owned c)" "live w \<subseteq> live w'"
      using run a Pair Some add new
      by (auto simp: g_insert_def rbind_eq_Inr_iff spin_lock_def spin_unlock_def Let_def free_key_def owned_def free_live
          split: if_splits)
    with new show ?thesis by (intro frameI) auto
  qed
qed

lemma add_table:
  assumes "rte_hash_add_key_data H t k a = (r, t')"
  shows "t' = None \<longleftrightarrow> t = None"
proof (cases t)
  case (Some h)
  then show ?thesis
    using add_ok [of h k a t'] add_err [of h k a r t'] assms by (cases "r = 0") auto
qed (use assms add_null [of k a] in simp)

lemma insert_table:
  assumes "g_insert setk D H (Inr k) a (w, c) = Inr (r, w', c')"
  shows "cache_table c' = cache_table c \<and> (cache_hash c' = None \<longleftrightarrow> cache_hash c = None)"
proof (cases "rte_malloc D w")
  case (Pair p w1)
  show ?thesis
  proof (cases p)
    case None
    with assms Pair show ?thesis by (simp add: g_insert_def)
  next
    case (Some ka)
    obtain ret t where add: "rte_hash_add_key_data H (cache_hash c) k a = (ret, t)" by fastforce
    show ?thesis
      using assms Pair Some add add_table [OF add]
      by (auto simp: g_insert_def rbind_eq_Inr_iff spin_lock_def spin_unlock_def Let_def free_key_def split: if_splits)
  qed
qed

end

text \<open>The end of loading a row: the node is inserted, or freed when something went wrong.\<close>

definition finish_row ::
  "'w dpdk \<Rightarrow> (int \<times> 'w \<times> ('h, 'db, 'n, 'k) cache) res \<Rightarrow> addr \<Rightarrow> (load_result \<times> 'w \<times> ('h, 'db, 'n, 'k) cache) res" where
  "finish_row D inserted a =
     rbind inserted (\<lambda>(ret, w, c).
     if ret \<noteq> 0 then rbind (free_node D a (w, c)) (\<lambda>(w, c). Inr (LOAD_ERROR, w, c)) else Inr (LOAD_OK, w, c))"

context cache_env
begin

lemma finish_row_run:
  assumes ok: "cache_ok slots live getk (w, c)" and a: "cache_nodes c a = Some n" "unused slots c a"
    and ins: "inserted = Inr (ret, w, c) \<and> ret \<noteq> 0 \<or> inserted = g_insert setk D H (Inr k) a (w, c)"
  shows "\<exists>r w' c'. finish_row D inserted a = Inr (r, w', c') \<and> cache_ok slots live getk (w', c') \<and>
     frame live (w, c) (w', c') \<and> cache_table c' = cache_table c \<and> (cache_hash c' = None \<longleftrightarrow> cache_hash c = None) \<and>
     (r = LOAD_OK \<and> (\<exists>ka. cache_view slots c' = (cache_view slots c)(k \<mapsto> setk ka n)) \<or>
      r = LOAD_ERROR \<and> cache_view slots c' = cache_view slots c)"
  using ins
proof
  assume "inserted = Inr (ret, w, c) \<and> ret \<noteq> 0"
  with free_unused [OF ok _ a(2)] a(1) show ?thesis by (auto simp: finish_row_def)
next
  assume inserted: "inserted = g_insert setk D H (Inr k) a (w, c)"
  obtain r w1 c1 where run: "g_insert setk D H (Inr k) a (w, c) = Inr (r, w1, c1)" and ok1: "cache_ok slots live getk (w1, c1)"
    and out: "if r = 0 then \<exists>ka. cache_view slots c1 = (cache_view slots c)(k \<mapsto> setk ka n)
      else r < 0 \<and> cache_view slots c1 = cache_view slots c \<and> cache_keys c1 = cache_keys c \<and>
        cache_nodes c1 a \<noteq> None \<and> unused slots c1 a"
    using insert_stores [OF ok a, of k] by blast
  note tab = insert_table [OF run] insert_frame [OF a(1) run]
  show ?thesis
  proof (cases "r = 0")
    case True
    with inserted run ok1 out tab show ?thesis by (simp add: finish_row_def)
  next
    case False
    then have *: "cache_nodes c1 a \<noteq> None" "unused slots c1 a" "cache_view slots c1 = cache_view slots c"
      using out by simp_all
    obtain w2 c2 where "free_node D a (w1, c1) = Inr (w2, c2)" "cache_ok slots live getk (w2, c2)"
      "frame live (w1, c1) (w2, c2)" "cache_view slots c2 = cache_view slots c1" "cache_table c2 = cache_table c1" "cache_hash c2 = cache_hash c1"
      using free_unused [OF ok1 *(1,2)] by blast
    with inserted run False *(3) tab frame_trans [of live "(w, c)" "(w1, c1)" "(w2, c2)"] show ?thesis
      by (simp add: finish_row_def)
  qed
qed

end

section \<open>Snapshots\<close>

text \<open>Copying the entries of a table into an array, from position \<open>i\<close> on.\<close>

lemma store_entries:
  assumes "i \<le> length rows"
  shows "c_fold es (\<lambda>e (i, snapt). store_snapshot (g e) i snapt) (i, Some rows) =
    (if i + length es \<le> length rows
     then Inr (i + length es, Some (take i rows @ map g es @ drop (i + length es) rows))
     else Inl OutOfBounds)"
  using assms
proof (induction es arbitrary: i rows)
  case (Cons e es)
  show ?case
  proof (cases "i < length rows")
    case True
    then have "take (Suc i) (rows[i := g e]) = take i rows @ [g e]"
      by (simp add: take_Suc_conv_app_nth)
    with True Cons.IH [of "Suc i" "rows[i := g e]"] show ?thesis
      by (simp add: store_snapshot_def)
  qed (use Cons.prems in \<open>simp add: store_snapshot_def\<close>)
qed simp

lemma c_fold_cong:
  assumes "\<And>e s. e \<in> set es \<Longrightarrow> f e s = g e s"
  shows "c_fold es f s = c_fold es g s"
  using assms
proof (induction es arbitrary: s)
  case (Cons e es)
  then show ?case by (simp add: rbind_def split: sum.splits)
qed simp

section \<open>A concrete database\<close>

text \<open>A library that reads: a database is the list of the rows of its main table, a statement
  the rows it has still to return.  There are no categories, and writing is refused.\<close>

record db_row =
  row_text :: "byte list"
  row_ints :: "nat \<Rightarrow> int"

record db_query =
  rest_rows :: "db_row list"
  this_row :: db_row

definition ref_reader :: "('w, db_row list, db_query) sqlite_api" where
  "ref_reader =
     \<lparr>sqlite3_open = (\<lambda>f w. (0, Some [], w)), sqlite3_close = (\<lambda>db w. (0, w)),
      sqlite3_exec = (\<lambda>db sql. (0, db)),
      sqlite3_prepare_v2 = (\<lambda>db sql. (0,
        \<lparr>rest_rows = (if take 23 sql = ''SELECT certain_category'' then [] else db),
         this_row = \<lparr>row_text = [], row_ints = (\<lambda>_. 0)\<rparr>\<rparr>, db)),
      sqlite3_bind_text = (\<lambda>st i s. st), sqlite3_bind_int = (\<lambda>st i v. st),
      sqlite3_bind_int64 = (\<lambda>st i v. st),
      sqlite3_step = (\<lambda>db st. case rest_rows st of
          [] \<Rightarrow> (101, st, db)
        | r # rs \<Rightarrow> (100, \<lparr>rest_rows = rs, this_row = r\<rparr>, db)),
      sqlite3_column_text = (\<lambda>st i. Some (row_text (this_row st) @ [0])),
      sqlite3_column_int = (\<lambda>st i. row_ints (this_row st) i),
      sqlite3_column_int64 = (\<lambda>st i. row_ints (this_row st) i), sqlite3_reset = id,
      sqlite3_finalize = (\<lambda>st db. (0, db))\<rparr>"

interpretation ref_reads: sqlite_reads ref_reader "\<lambda>db st. length (rest_rows st)" "\<lambda>_. True"
  by unfold_locales (auto simp: ref_reader_def nul_term_def split: list.splits)

end
