(* ===== verification/Loading.thy ===== *)
theory Loading
  imports Store
begin

text \<open>
  How a cache is filled when it is created.  The two caches read their files in the same way; the functions
  with the prefix \<open>g_\<close> are what their functions have in common, and the lemmas about them are used for both
  in \<open>Ip_Store\<close> and \<open>Domain_Store\<close>.
\<close>

section \<open>The common functions\<close>

text \<open>The categories of a row, with the query and the treatment of one category as parameters.\<close>

definition g_load_categories ::
  "(byte list option \<Rightarrow> nat \<Rightarrow> byte list \<Rightarrow> byte list res) \<Rightarrow> string \<Rightarrow> ('w, 'db, 'st) sqlite_api \<Rightarrow> byte list option \<Rightarrow> addr \<Rightarrow>
   ('h, 'db, 'x node_cache_scheme, 'k) cache \<Rightarrow> (int \<times> ('h, 'db, 'x node_cache_scheme, 'k) cache) res" where
  "g_load_categories f sql S name node c =
     (case db_prepare S sql c of
        (rc, None, c) \<Rightarrow> Inr (- 1, c)
      | (rc, Some stmt, c) \<Rightarrow>
          let stmt = sqlite3_bind_text S stmt 1 name in
          rbind (deref (cache_nodes c) node) (\<lambda>n.
          rbind (load_rows_of_categories f S MAX_CATEGORIES 0 stmt (categories n) c) (\<lambda>(t, stmt, c).
          let c = c\<lparr>cache_nodes := (cache_nodes c)(node \<mapsto> n\<lparr>categories := t\<rparr>)\<rparr> in
          Inr (0, snd (db_finalize S stmt c)))))"

text \<open>A row of the main table: \<open>cats\<close> reads its categories and \<open>ins\<close> inserts the node under its name.\<close>

definition g_create_row ::
  "'w dpdk \<Rightarrow> ('w, 'db, 'st) sqlite_api \<Rightarrow> ('w, 'x node_cache_scheme, 'k, 'sn) memory \<Rightarrow>
   (byte list option \<Rightarrow> addr \<Rightarrow> ('h, 'db, 'x node_cache_scheme, 'k) cache \<Rightarrow> (int \<times> ('h, 'db, 'x node_cache_scheme, 'k) cache) res) \<Rightarrow>
   (byte list option \<Rightarrow> addr \<Rightarrow> 'w \<times> ('h, 'db, 'x node_cache_scheme, 'k) cache \<Rightarrow>
      (int \<times> 'w \<times> ('h, 'db, 'x node_cache_scheme, 'k) cache) res) \<Rightarrow> 'st \<Rightarrow> 64 word \<Rightarrow> 64 word \<Rightarrow>
   'w \<times> ('h, 'db, 'x node_cache_scheme, 'k) cache \<Rightarrow> (load_result \<times> 'w \<times> ('h, 'db, 'x node_cache_scheme, 'k) cache) res" where
  "g_create_row D S M cats ins stmt now hz = (\<lambda>(w, c).
     let stamp = (word_of_int (sqlite3_column_int64 S stmt 3) :: 64 word);
         ttl = (word_of_int (sqlite3_column_int S stmt 4) :: 32 word) in
     rbind (u64_div (now - stamp) hz) (\<lambda>age_seconds.
     if age_seconds \<ge> ucast ttl then Inr (LOAD_EXPIRED, w, c)
     else
       (case new_node D (heap_node M w) (w, c) of
          (None, w, c) \<Rightarrow> Inr (LOAD_ERROR, w, c)
        | (Some node, w, c) \<Rightarrow>
            rbind (deref (cache_nodes c) node) (\<lambda>n.
            let c = c\<lparr>cache_nodes := (cache_nodes c)(node \<mapsto>
                  n\<lparr>solution_is_send := (sqlite3_column_int S stmt 1 \<noteq> 0), trust_lvl := sqlite3_column_int S stmt 2,
                    timestamp := stamp, ttl_seconds := ttl\<rparr>)\<rparr>;
                name = sqlite3_column_text S stmt 0 in
            rbind (cats name node c) (\<lambda>(ret, c).
            finish_row D (if ret \<noteq> 0 then Inr (ret, w, c) else ins name node (w, c)) node)))))"

definition g_load_cache ::
  "'w dpdk \<Rightarrow> ('w, 'db, 'st) sqlite_api \<Rightarrow> string \<Rightarrow>
   ('st \<Rightarrow> 64 word \<Rightarrow> 64 word \<Rightarrow> 'w \<times> ('h, 'db, 'n, 'k) cache \<Rightarrow> (load_result \<times> 'w \<times> ('h, 'db, 'n, 'k) cache) res) \<Rightarrow>
   'w \<times> ('h, 'db, 'n, 'k) cache \<Rightarrow> ('w \<times> ('h, 'db, 'n, 'k) cache) res option" where
  "g_load_cache D S sql create = (\<lambda>(w, c).
     if cache_hash c = None then Some (Inr (w, c))
     else if cache_table c = None then Some (Inr (w, c))
     else
       (case rte_get_timer_cycles D w of (now_cycles, w) \<Rightarrow>
        (case db_prepare S sql c of
           (ret, None, c) \<Rightarrow> Some (Inr (w, c))
         | (ret, Some stmt, c) \<Rightarrow>
             (case load_rows S (\<lambda>stmt. create stmt now_cycles (rte_get_timer_hz D)) stmt (0, 0, 0) w c of
                None \<Rightarrow> None
              | Some (Inl e) \<Rightarrow> Some (Inl e)
              | Some (Inr (stmt, counts, w, c)) \<Rightarrow> Some (Inr (w, snd (db_finalize S stmt c)))))))"

text \<open>Opening the file and creating its tables, with the two statements as parameters.\<close>

definition g_open_tables ::
  "('w, 'db, 'st) sqlite_api \<Rightarrow> string \<Rightarrow> string \<Rightarrow> string \<Rightarrow> 'w \<times> ('h, 'db, 'n, 'k) cache \<Rightarrow> 'w \<times> ('h, 'db, 'n, 'k) cache" where
  "g_open_tables S file main_sql categories_sql = (\<lambda>(w, c).
     case sqlite3_open S file w of (ret, db, w) \<Rightarrow>
     let c = c\<lparr>cache_table := db\<rparr> in
     if ret \<noteq> SQLITE_OK then (w, c)
     else
       (case db_exec S main_sql c of (ret, c) \<Rightarrow>
        if ret \<noteq> SQLITE_OK then (w, c)
        else
          (case db_exec S categories_sql c of (ret, c) \<Rightarrow>
           if ret \<noteq> SQLITE_OK then (w, c)
           else (w, snd (db_exec S ''PRAGMA foreign_keys = ON;'' c)))))"

definition g_init_cache ::
  "'w dpdk \<Rightarrow> ('w, 'h, 'k) hash_api \<Rightarrow> ('w \<times> ('h, 'db, 'n, 'k) cache \<Rightarrow> 'w \<times> ('h, 'db, 'n, 'k) cache) \<Rightarrow>
   ('w \<times> ('h, 'db, 'n, 'k) cache \<Rightarrow> ('w \<times> ('h, 'db, 'n, 'k) cache) res option) \<Rightarrow>
   'w \<times> ('h, 'db, 'n, 'k) cache \<Rightarrow> ('w \<times> ('h, 'db, 'n, 'k) cache) res option" where
  "g_init_cache D H tables load = (\<lambda>(w, c).
     if cache_hash c \<noteq> None then Some (Inr (w, c))
     else
       (case rte_hash_create H w of (h, w) \<Rightarrow>
        let c = c\<lparr>cache_hash := h\<rparr> in
        if h = None then Some (Inr (w, c))
        else
          (case load (tables (w, c)) of
             None \<Rightarrow> None
           | Some (Inl e) \<Rightarrow> Some (Inl e)
           | Some (Inr (w, c)) \<Rightarrow>
               let save_interval_cycles = rte_get_timer_hz D * 3600 in
               Some (Inr (snd (rte_timer_reset D save_interval_cycles w),
                          c\<lparr>save_timer := Some save_interval_cycles\<rparr>)))))"

section \<open>What loading promises\<close>

text \<open>
  The cache is well formed afterwards, memory of others is untouched, the table exists if it did before, and
  an entry that was not there before is not expired at the time \<open>now\<close>.
\<close>

definition well_loaded ::
  "('h \<Rightarrow> ('k \<times> addr) option list) \<Rightarrow> ('w \<Rightarrow> addr set) \<Rightarrow> ('x node_cache_scheme \<Rightarrow> addr option) \<Rightarrow> 64 word \<Rightarrow> 64 word \<Rightarrow>
   'w \<times> ('h, 'db, 'x node_cache_scheme, 'k) cache \<Rightarrow> 'w \<times> ('h, 'db, 'x node_cache_scheme, 'k) cache \<Rightarrow> bool" where
  "well_loaded slots live getk now hz = (\<lambda>(w, c) (w', c').
     cache_ok slots live getk (w', c') \<and> frame live (w, c) (w', c') \<and> (cache_hash c' = None \<longleftrightarrow> cache_hash c = None) \<and>
     (\<forall>k n. cache_view slots c' k = Some n \<longrightarrow> cache_view slots c k = Some n \<or> \<not> expired now hz n))"

lemma well_loaded_trans:
  assumes "well_loaded slots live getk now hz wc wc1" "well_loaded slots live getk now hz wc1 wc2"
  shows "well_loaded slots live getk now hz wc wc2"
  using assms frame_trans [of live wc wc1 wc2] unfolding well_loaded_def by (auto split: prod.splits)

lemma frame_table [simp]:
  "frame live (w, c\<lparr>cache_table := t\<rparr>) wc = frame live (w, c) wc"
  "frame live wc (w, c\<lparr>cache_table := t\<rparr>) = frame live wc (w, c)"
  by (auto simp: frame_def split: prod.splits)

lemma well_loaded_table [simp]:
  "well_loaded slots live getk now hz (w, c\<lparr>cache_table := t\<rparr>) wc = well_loaded slots live getk now hz (w, c) wc"
  "well_loaded slots live getk now hz wc (w, c\<lparr>cache_table := t\<rparr>) = well_loaded slots live getk now hz wc (w, c)"
  by (auto simp: well_loaded_def split: prod.splits)

text \<open>How one category is copied: the row keeps its size.\<close>

definition row_loader :: "(byte list option \<Rightarrow> nat \<Rightarrow> byte list \<Rightarrow> byte list res) \<Rightarrow> bool" where
  "row_loader f \<longleftrightarrow> (\<forall>s i row. (\<forall>t. s = Some t \<longrightarrow> nul_term t) \<longrightarrow> length row = CATEGORY_MAX_LEN \<longrightarrow>
     (\<exists>row'. f s i row = Inr row' \<and> length row' = CATEGORY_MAX_LEN))"

text \<open>How a node is inserted under a name: not at all, or as \<open>g_insert\<close> does under some key.\<close>

definition inserts ::
  "(addr \<Rightarrow> 'n \<Rightarrow> 'n) \<Rightarrow> 'w dpdk \<Rightarrow> ('w, 'h, 'k) hash_api \<Rightarrow>
   (addr \<Rightarrow> 'w \<times> ('h, 'db, 'n, 'k) cache \<Rightarrow> (int \<times> 'w \<times> ('h, 'db, 'n, 'k) cache) res) \<Rightarrow> bool" where
  "inserts setk D H ins \<longleftrightarrow> (\<forall>a w c. (\<exists>ret. ret \<noteq> 0 \<and> ins a (w, c) = Inr (ret, w, c)) \<or>
     (\<exists>k. ins a (w, c) = g_insert setk D H (Inr k) a (w, c)))"

text \<open>What the program relies on when it creates a table: it is empty, and no memory of the program is freed.\<close>

locale table_creation =
  fixes H :: "('w, 'h, 'k) hash_api" and slots :: "'h \<Rightarrow> ('k \<times> addr) option list" and live :: "'w \<Rightarrow> addr set"
  assumes create_live: "rte_hash_create H w = (t, w') \<Longrightarrow> live w' = live w"
    and create_empty: "rte_hash_create H w = (Some h, w') \<Longrightarrow> content (slots h) = Map.empty"

locale cache_store = cache_env D live H slots getk setk + sqlite_reads S left reads
  for D :: "'w dpdk" and live and H :: "('w, 'h, 'k) hash_api" and slots and getk and setk
    and S :: "('w, 'db, 'st) sqlite_api" and left and reads

section \<open>Loading keeps the promise\<close>

context cache_store
begin

lemma load_categories_kept:
  assumes f: "row_loader f" and sql: "take 6 sql = ''SELECT''"
    and n: "cache_nodes c a = Some n" "length (categories n) = MAX_CATEGORIES"
      "\<forall>row \<in> set (categories n). length row = CATEGORY_MAX_LEN"
  shows "\<exists>ret u t. g_load_categories f sql S s a c =
      Inr (ret, c\<lparr>cache_table := u, cache_nodes := (cache_nodes c)(a \<mapsto> n\<lparr>categories := t\<rparr>)\<rparr>) \<and>
    rows_left (c\<lparr>cache_table := u\<rparr>) = rows_left c"
proof -
  obtain rc st c1 where prep: "db_prepare S sql c = (rc, st, c1)" by (cases "db_prepare S sql c")
  obtain u where u: "c1 = c\<lparr>cache_table := u\<rparr>" using db_calls(1) [OF prep] by blast
  note same = rows_left_prepare [OF prep]
  show ?thesis
  proof (cases st)
    case None
    have eq: "c\<lparr>cache_table := u, cache_nodes := (cache_nodes c)(a \<mapsto> n\<lparr>categories := categories n\<rparr>)\<rparr> = c\<lparr>cache_table := u\<rparr>"
      using n(1) by (cases c) (simp add: fun_upd_idem)
    have "g_load_categories f sql S s a c = Inr (- 1, c\<lparr>cache_table := u\<rparr>)"
      using None prep u by (simp add: g_load_categories_def)
    with same u eq show ?thesis by (intro exI [of _ "- 1"] exI [of _ u] exI [of _ "categories n"]) simp
  next
    case (Some stmt)
    let ?stmt = "sqlite3_bind_text S stmt 1 s"
    have r: "reads ?stmt" using db_prepare_reads [of sql c rc stmt c1] prep Some bind_reads sql by simp
    have "\<exists>t st' v. load_rows_of_categories f S MAX_CATEGORIES 0 ?stmt (categories n) c1 =
        Inr (t, st', c1\<lparr>cache_table := v\<rparr>) \<and> length t = MAX_CATEGORIES \<and>
        (\<forall>row \<in> set t. length row = CATEGORY_MAX_LEN) \<and> rows_left (c1\<lparr>cache_table := v\<rparr>) = rows_left c1"
      using n r f [unfolded row_loader_def] by (intro load_categories_run) auto
    then obtain t st' v where run: "load_rows_of_categories f S MAX_CATEGORIES 0 ?stmt (categories n) c1 =
        Inr (t, st', c1\<lparr>cache_table := v\<rparr>)" and same2: "rows_left (c1\<lparr>cache_table := v\<rparr>) = rows_left c1"
      by blast
    let ?c2 = "c1\<lparr>cache_table := v, cache_nodes := (cache_nodes c1)(a \<mapsto> n\<lparr>categories := t\<rparr>)\<rparr>"
    obtain rc' c3 where fin: "db_finalize S st' ?c2 = (rc', c3)" by (cases "db_finalize S st' ?c2")
    obtain x where x: "c3 = ?c2\<lparr>cache_table := x\<rparr>" using db_calls(3) [OF fin] by blast
    have "rows_left (c\<lparr>cache_table := x\<rparr>) = rows_left c"
      using rows_left_finalize [OF fin] same same2 by (simp add: x u rows_left_def fun_eq_iff)
    moreover have "g_load_categories f sql S s a c =
        Inr (0, c\<lparr>cache_table := x, cache_nodes := (cache_nodes c)(a \<mapsto> n\<lparr>categories := t\<rparr>)\<rparr>)"
      using prep Some run fin n(1) by (simp add: g_load_categories_def u x)
    ultimately show ?thesis by blast
  qed
qed

lemma well_loaded_refl: "cache_ok slots live getk (w, c) \<Longrightarrow> live w' = live w \<Longrightarrow> well_loaded slots live getk now hz (w, c) (w', c)"
  using cache_ok_world [of slots live getk w c w'] frame_same [of live w' w c] by (simp add: well_loaded_def)

lemma expired_setk [simp]: "expired now hz (setk a n) = expired now hz n"
  by (simp add: expired_def)

text \<open>The end of a row, from a new node that is filled.\<close>

lemma finish_row_loaded:
  assumes ok: "cache_ok slots live getk (w, c)" and a: "cache_nodes c a = Some n" "unused slots c a" and n: "\<not> expired now hz n"
    and ins: "ret \<noteq> 0 \<or> inserts setk D H ins"
  shows "\<exists>r w' c'. finish_row D (if ret \<noteq> 0 then Inr (ret, w, c) else ins a (w, c)) a = Inr (r, w', c') \<and>
    well_loaded slots live getk now hz (w, c) (w', c') \<and> cache_table c' = cache_table c"
proof -
  obtain q k where "(if ret \<noteq> 0 then Inr (ret, w, c) else ins a (w, c)) = Inr (q, w, c) \<and> q \<noteq> 0 \<or>
      (if ret \<noteq> 0 then Inr (ret, w, c) else ins a (w, c)) = g_insert setk D H (Inr k) a (w, c)"
    using ins unfolding inserts_def by metis
  from finish_row_run [OF ok a this] n show ?thesis
    by (elim exE) (rule exI, rule exI, rule exI, auto simp: well_loaded_def split: if_splits)
qed

end

context cache_store
begin

lemma create_row_loaded:
  assumes ok: "cache_ok slots live getk (w, c)" and mem: "memory_ok M"
    and f: "row_loader f" and sql: "take 6 sql = ''SELECT''"
    and ins: "inserts setk D H (ins (sqlite3_column_text S st 0))"
  shows "\<exists>r w' c'. g_create_row D S M (g_load_categories f sql S) ins st now (rte_get_timer_hz D) (w, c) = Inr (r, w', c') \<and>
     well_loaded slots live getk now (rte_get_timer_hz D) (w, c) (w', c') \<and> rows_left c' = rows_left c"
proof -
  let ?stamp = "word_of_int (sqlite3_column_int64 S st 3) :: 64 word"
  let ?ttl = "word_of_int (sqlite3_column_int S st 4) :: 32 word"
  let ?fill = "\<lambda>n. n\<lparr>solution_is_send := sqlite3_column_int S st 1 \<noteq> 0, trust_lvl := sqlite3_column_int S st 2,
    timestamp := ?stamp, ttl_seconds := ?ttl\<rparr>"
  let ?hz = "rte_get_timer_hz D" and ?s = "sqlite3_column_text S st 0"
  have div: "u64_div (now - ?stamp) ?hz = Inr ((now - ?stamp) div ?hz)"
    using hz_pos by (simp add: u64_div_def)
  obtain p w1 where m: "rte_malloc D w = (p, w1)" by (cases "rte_malloc D w")
  consider (over) "(now - ?stamp) div ?hz \<ge> ucast ?ttl"
    | (full) "\<not> (now - ?stamp) div ?hz \<ge> ucast ?ttl" "p = None"
    | (new) a where "\<not> (now - ?stamp) div ?hz \<ge> ucast ?ttl" "p = Some a"
    by (cases p) auto
  then show ?thesis
  proof cases
    case over
    with div well_loaded_refl [OF ok refl] show ?thesis by (simp add: g_create_row_def)
  next
    case full
    with m div well_loaded_refl [OF ok malloc_none [of w w1]] show ?thesis
      by (simp add: g_create_row_def Let_def new_node_def)
  next
    case new
    let ?n = "?fill (heap_node M w)"
    let ?c1 = "c\<lparr>cache_nodes := (cache_nodes c)(a \<mapsto> ?n)\<rparr>"
    note c1 = new_node_ok [OF ok m [unfolded new(2)], of ?c1 ?n, OF refl]
    have n: "cache_nodes ?c1 a = Some ?n" "length (categories ?n) = MAX_CATEGORIES"
      "\<forall>row \<in> set (categories ?n). length row = CATEGORY_MAX_LEN"
      using mem by (simp_all add: memory_ok_def)
    obtain ret u t where cats: "g_load_categories f sql S ?s a ?c1 =
        Inr (ret, ?c1\<lparr>cache_table := u, cache_nodes := (cache_nodes ?c1)(a \<mapsto> ?n\<lparr>categories := t\<rparr>)\<rparr>)"
      and rows: "rows_left (?c1\<lparr>cache_table := u\<rparr>) = rows_left ?c1"
      using load_categories_kept [OF f sql n] by blast
    let ?n2 = "?n\<lparr>categories := t\<rparr>"
    let ?c2 = "?c1\<lparr>cache_table := u, cache_nodes := (cache_nodes ?c1)(a \<mapsto> ?n2)\<rparr>"
    have c2: "cache_ok slots live getk (w1, ?c2)" "unused slots ?c2 a" "cache_view slots ?c2 = cache_view slots c"
      "rows_left ?c2 = rows_left c"
      using fill_node [of w1 "?c1\<lparr>cache_table := u\<rparr>" a ?n2] c1(1-3) rows
      by (simp_all add: rows_left_def fun_eq_iff)
    have "owned ?c2 = owned ?c1" by (auto simp: owned_def)
    then have "frame live (w, c) (w1, ?c2)" using c1(4) by (simp add: frame_def)
    with c2 have new: "well_loaded slots live getk now ?hz (w, c) (w1, ?c2)" by (simp add: well_loaded_def)
    have fresh: "\<not> expired now ?hz ?n2" using \<open>\<not> (now - ?stamp) div ?hz \<ge> ucast ?ttl\<close> by (simp add: expired_def)
    have run: "g_create_row D S M (g_load_categories f sql S) ins st now ?hz (w, c) =
        finish_row D (if ret \<noteq> 0 then Inr (ret, w1, ?c2) else ins ?s a (w1, ?c2)) a"
      using m div \<open>\<not> (now - ?stamp) div ?hz \<ge> ucast ?ttl\<close> \<open>p = Some a\<close> cats
      by (simp add: g_create_row_def Let_def new_node_def)
    obtain r w' c' where "finish_row D (if ret \<noteq> 0 then Inr (ret, w1, ?c2) else ins ?s a (w1, ?c2)) a = Inr (r, w', c')"
      "well_loaded slots live getk now ?hz (w1, ?c2) (w', c')" "cache_table c' = cache_table ?c2"
      using finish_row_loaded [OF c2(1) _ c2(2) fresh, of ret "ins ?s"] ins by auto
    with run well_loaded_trans [OF new] c2(4) show ?thesis
      by (intro exI [of _ r] exI [of _ w'] exI [of _ c']) (simp add: rows_left_def fun_eq_iff)
  qed
qed

lemma load_cache_loaded:
  assumes ok: "cache_ok slots live getk (w, c)" and sql: "take 6 sql = ''SELECT''"
    and now: "now = fst (rte_get_timer_cycles D w)"
    and create: "\<And>st w c. cache_ok slots live getk (w, c) \<Longrightarrow>
      \<exists>r w' c'. create st now (rte_get_timer_hz D) (w, c) = Inr (r, w', c') \<and>
        well_loaded slots live getk now (rte_get_timer_hz D) (w, c) (w', c') \<and> rows_left c' = rows_left c"
  shows "\<exists>w' c'. g_load_cache D S sql create (w, c) = Some (Inr (w', c')) \<and>
    well_loaded slots live getk now (rte_get_timer_hz D) (w, c) (w', c')"
proof (cases "cache_hash c = None \<or> cache_table c = None")
  case True
  with well_loaded_refl [OF ok refl] show ?thesis by (auto simp: g_load_cache_def)
next
  case False
  obtain w1 where clock: "rte_get_timer_cycles D w = (now, w1)" using now by (cases "rte_get_timer_cycles D w") simp
  obtain rc st c1 where prep: "db_prepare S sql c = (rc, st, c1)" by (cases "db_prepare S sql c")
  obtain u where u: "c1 = c\<lparr>cache_table := u\<rparr>" using db_calls(1) [OF prep] by blast
  let ?I = "\<lambda>w1 c1. well_loaded slots live getk now (rte_get_timer_hz D) (w, c) (w1, c1)"
  let ?create = "\<lambda>stmt. create stmt now (rte_get_timer_hz D)"
  have I1: "?I w1 c1" using well_loaded_refl [OF ok cycles_live [OF clock]] u by simp
  show ?thesis
  proof (cases st)
    case None
    then have "g_load_cache D S sql create (w, c) = Some (Inr (w1, c1))"
      using prep clock False by (auto simp: g_load_cache_def)
    with I1 show ?thesis by simp
  next
    case (Some stmt)
    have "\<exists>st' counts' w' c'. load_rows S ?create stmt (0, 0, 0) w1 c1 = Some (Inr (st', counts', w', c')) \<and> ?I w' c'"
    proof (rule load_rows_ends [where I = ?I, OF I1])
      show "reads stmt" using db_prepare_reads [of sql c rc stmt c1] prep Some sql by simp
      show "\<exists>r w' c'. ?create st (w, c1) = Inr (r, w', c') \<and> ?I w' c' \<and> rows_left c' = rows_left c1"
        if I: "?I w c1" for st w c1
      proof -
        have "cache_ok slots live getk (w, c1)" using I by (simp add: well_loaded_def)
        from create [OF this, of st] well_loaded_trans [OF I] show ?thesis by blast
      qed
    qed simp
    then obtain st' counts w2 c2 where run: "load_rows S ?create stmt (0, 0, 0) w1 c1 = Some (Inr (st', counts, w2, c2))"
      and I2: "?I w2 c2"
      by (elim exE conjE) (rule that)
    obtain rc' c3 where fin: "db_finalize S st' c2 = (rc', c3)" by (cases "db_finalize S st' c2")
    obtain v where v: "c3 = c2\<lparr>cache_table := v\<rparr>" using db_calls(3) [OF fin] by blast
    have "g_load_cache D S sql create (w, c) = Some (Inr (w2, c3))"
      using False clock prep Some run fin by (auto simp: g_load_cache_def)
    with I2 v show ?thesis by simp
  qed
qed

end

section \<open>Creating a cache\<close>

lemma open_tables_run:
  "\<exists>t. g_open_tables S file main_sql categories_sql (w, c) = (snd (snd (sqlite3_open S file w)), c\<lparr>cache_table := t\<rparr>)"
proof -
  obtain r db w1 where "sqlite3_open S file w = (r, db, w1)" by (cases "sqlite3_open S file w")
  moreover obtain r1 c1 where one: "db_exec S main_sql (c\<lparr>cache_table := db\<rparr>) = (r1, c1)" by fastforce
  moreover obtain r2 c2 where two: "db_exec S categories_sql c1 = (r2, c2)" by fastforce
  moreover obtain r3 c3 where three: "db_exec S ''PRAGMA foreign_keys = ON;'' c2 = (r3, c3)" by fastforce
  ultimately show ?thesis
    using db_calls(4) [OF one] db_calls(4) [OF two] db_calls(4) [OF three] by (auto simp: g_open_tables_def Let_def)
qed

text \<open>The time at which the rows of a file are judged.\<close>

definition load_time :: "'w dpdk \<Rightarrow> ('w, 'h, 'k) hash_api \<Rightarrow> ('w, 'db, 'st) sqlite_api \<Rightarrow> string \<Rightarrow> 'w \<Rightarrow> 64 word" where
  "load_time D H S file w = fst (rte_get_timer_cycles D (snd (snd (sqlite3_open S file (snd (rte_hash_create H w))))))"

text \<open>A cache that is created: it is well formed and holds nothing that is expired.\<close>

definition created ::
  "('h \<Rightarrow> ('k \<times> addr) option list) \<Rightarrow> ('w \<Rightarrow> addr set) \<Rightarrow> ('x node_cache_scheme \<Rightarrow> addr option) \<Rightarrow> 64 word \<Rightarrow> 64 word \<Rightarrow> bool \<Rightarrow>
   'w \<times> ('h, 'db, 'x node_cache_scheme, 'k) cache \<Rightarrow> 'w \<times> ('h, 'db, 'x node_cache_scheme, 'k) cache \<Rightarrow> bool" where
  "created slots live getk now hz no_table = (\<lambda>(w, c) (w', c').
     cache_ok slots live getk (w', c') \<and> frame live (w, c) (w', c') \<and> (cache_hash c' = None \<longleftrightarrow> no_table) \<and>
     (\<forall>k n. cache_view slots c' k = Some n \<longrightarrow> \<not> expired now hz n))"

context cache_store
begin

lemma init_cache_created:
  assumes ok: "cache_ok slots live getk (w, c)" and none: "cache_hash c = None" and table: "table_creation H slots live"
    and opens: "\<And>w. live (snd (snd (sqlite3_open S file w))) = live w"
    and load: "\<And>w c. cache_ok slots live getk (w, c) \<Longrightarrow> \<exists>w' c'. load (w, c) = Some (Inr (w', c')) \<and>
      well_loaded slots live getk (fst (rte_get_timer_cycles D w)) (rte_get_timer_hz D) (w, c) (w', c')"
  shows "\<exists>w' c'. g_init_cache D H (g_open_tables S file main_sql categories_sql) load (w, c) = Some (Inr (w', c')) \<and>
    created slots live getk (load_time D H S file w) (rte_get_timer_hz D) (fst (rte_hash_create H w) = None) (w, c) (w', c')"
proof -
  obtain t w1 where create: "rte_hash_create H w = (t, w1)" by fastforce
  have live1: "live w1 = live w" using table_creation.create_live [OF table create] .
  show ?thesis
  proof (cases t)
    case None
    have "g_init_cache D H (g_open_tables S file main_sql categories_sql) load (w, c) = Some (Inr (w1, c\<lparr>cache_hash := None\<rparr>))"
      using None create none by (simp add: g_init_cache_def)
    moreover have "c\<lparr>cache_hash := None\<rparr> = c" using none by (cases c) simp
    ultimately have "g_init_cache D H (g_open_tables S file main_sql categories_sql) load (w, c) = Some (Inr (w1, c))"
      by (simp only:)
    with None create none cache_ok_world [OF ok live1] frame_same [of live w1 w c] live1 show ?thesis
      by (simp add: created_def cache_view_def)
  next
    case (Some h)
    let ?c1 = "c\<lparr>cache_hash := Some h\<rparr>" and ?w2 = "snd (snd (sqlite3_open S file w1))"
    note empty = table_creation.create_empty [OF table create [unfolded Some]]
    obtain u where tables: "g_open_tables S file main_sql categories_sql (w1, ?c1) = (?w2, ?c1\<lparr>cache_table := u\<rparr>)"
      using open_tables_run [where S = S and w = w1 and c = ?c1] by blast
    have live2: "live ?w2 = live w" using opens live1 by simp
    have c1: "cache_ok slots live getk (?w2, ?c1)"
      using ok live2 empty by (simp add: cache_ok_def table_ok_def)
    have view: "cache_view slots ?c1 = Map.empty" using empty by (simp add: cache_view_def)
    have fr: "frame live (w, c) (?w2, ?c1)" using live2 by (simp add: frame_def owned_def)
    have c2: "cache_ok slots live getk (?w2, ?c1\<lparr>cache_table := u\<rparr>)" using c1 by simp
    obtain w3 c3 where run: "load (?w2, ?c1\<lparr>cache_table := u\<rparr>) = Some (Inr (w3, c3))"
      and well_loaded: "well_loaded slots live getk (fst (rte_get_timer_cycles D ?w2)) (rte_get_timer_hz D) (?w2, ?c1\<lparr>cache_table := u\<rparr>) (w3, c3)"
      using load [OF c2] by (elim exE conjE) (rule that)
    let ?w4 = "snd (rte_timer_reset D (rte_get_timer_hz D * 3600) w3)"
      and ?c4 = "c3\<lparr>save_timer := Some (rte_get_timer_hz D * 3600)\<rparr>"
    have init: "g_init_cache D H (g_open_tables S file main_sql categories_sql) load (w, c) = Some (Inr (?w4, ?c4))"
      using none create Some tables run by (simp add: g_init_cache_def Let_def)
    have "cache_ok slots live getk (?w4, ?c4)" "frame live (w, c) (?w4, ?c4)" "cache_view slots ?c4 = cache_view slots c3"
      using well_loaded frame_trans [OF fr, of "(w3, c3)"] timer_live
      by (auto simp: well_loaded_def cache_ok_def frame_def owned_def cache_view_def split: option.splits)
    with well_loaded init view create Some show ?thesis
      by (auto simp: created_def well_loaded_def load_time_def)
  qed
qed

end

interpretation ref_creation: table_creation "ref_hash CACHE_SIZE" "ref_slots CACHE_SIZE" ref_live
  by unfold_locales (auto simp: ref_hash_def ref_slots_def ref_live_def)

end
