(* ===== verification/Ip_Store.thy ===== *)
theory Ip_Store
  imports Ip_Cache Loading Inet
begin

text \<open>
  The part of \<open>src/worker/src/dpdk_filter/ip_cache.c\<close> that keeps the address cache in an SQLite
  file: reading it when the cache is created, and writing a snapshot of the table.  The SQLite
  library is a parameter.
\<close>

section \<open>Snapshots\<close>

record snapshot_ip =
  snap_node :: node_cache_ip
  snap_key :: ip_key

type_synonym 'w ip_memory = "('w, node_cache_ip, ip_key, snapshot_ip) memory"

section \<open>Reading the file\<close>

text \<open>
  \<open>inet_pton\<close> writes the address into the union.  The key is an uninitialised variable of the
  caller: the bytes of the union after an IPv4 address are what the stack held.
\<close>

definition ip_str_to_key :: "byte list \<Rightarrow> ip_key \<Rightarrow> int \<times> ip_key" where
  "ip_str_to_key ip_str k =
     (case inet_pton4 ip_str of
        Some bs \<Rightarrow> (0, k\<lparr>addr_bytes := bs @ drop 4 (addr_bytes k), version := 4\<rparr>)
      | None \<Rightarrow>
          (case inet_pton6 ip_str of
             Some bs \<Rightarrow> (0, k\<lparr>addr_bytes := bs, version := 6\<rparr>)
           | None \<Rightarrow> (- 1, k)))"

definition load_category_ip :: "byte list option \<Rightarrow> nat \<Rightarrow> byte list \<Rightarrow> byte list res" where
  "load_category_ip cat_text i row =
     (case cat_text of
        Some s \<Rightarrow> rbind (c_strncpy row s (CATEGORY_MAX_LEN - 1)) (\<lambda>row. rset row (CATEGORY_MAX_LEN - 1) 0)
      | None \<Rightarrow> rset row 0 0)"

definition load_ip_categories ::
  "('w, 'db, 'st) sqlite_api \<Rightarrow> byte list option \<Rightarrow> addr \<Rightarrow> ('h, 'db) ip_cache \<Rightarrow> (int \<times> ('h, 'db) ip_cache) res" where
  "load_ip_categories S ip_str node c =
     (case db_prepare S ''SELECT certain_category FROM ip_categories_table WHERE ip_str = ?;'' c of
        (rc, None, c) \<Rightarrow> Inr (- 1, c)
      | (rc, Some stmt, c) \<Rightarrow>
          let stmt = sqlite3_bind_text S stmt 1 ip_str in
          rbind (deref (cache_nodes c) node) (\<lambda>n.
          rbind (load_rows_of_categories load_category_ip S MAX_CATEGORIES 0 stmt (categories n) c) (\<lambda>(t, stmt, c).
          let c = c\<lparr>cache_nodes := (cache_nodes c)(node \<mapsto> n\<lparr>categories := t\<rparr>)\<rparr> in
          Inr (0, snd (db_finalize S stmt c)))))"

definition create_node_from_db_row ::
  "'w dpdk \<Rightarrow> ('w, 'h, ip_key) hash_api \<Rightarrow> ('w, 'db, 'st) sqlite_api \<Rightarrow> 'w ip_memory \<Rightarrow> 'st \<Rightarrow> 64 word \<Rightarrow> 64 word \<Rightarrow>
   'w \<times> ('h, 'db) ip_cache \<Rightarrow> (load_result \<times> 'w \<times> ('h, 'db) ip_cache) res" where
  "create_node_from_db_row D H S M stmt now_cycles hz = (\<lambda>(w, c).
     let solution = sqlite3_column_int S stmt 1;
         trust = sqlite3_column_int S stmt 2;
         stamp = (word_of_int (sqlite3_column_int64 S stmt 3) :: 64 word);
         ttl = (word_of_int (sqlite3_column_int S stmt 4) :: 32 word) in
     rbind (u64_div (now_cycles - stamp) hz) (\<lambda>age_seconds.
     if age_seconds \<ge> ucast ttl then Inr (LOAD_EXPIRED, w, c)
     else
       (case new_node D (heap_node M w) (w, c) of
          (None, w, c) \<Rightarrow> Inr (LOAD_ERROR, w, c)
        | (Some node, w, c) \<Rightarrow>
            rbind (deref (cache_nodes c) node) (\<lambda>n.
            let c = c\<lparr>cache_nodes := (cache_nodes c)(node \<mapsto>
                  n\<lparr>solution_is_send := (solution \<noteq> 0), trust_lvl := trust, timestamp := stamp, ttl_seconds := ttl\<rparr>)\<rparr> in
            let ip_str = sqlite3_column_text S stmt 0 in
            rbind (load_ip_categories S ip_str node c) (\<lambda>(ret, c).
            if ret \<noteq> 0 then rbind (free_node D node (w, c)) (\<lambda>(w, c). Inr (LOAD_ERROR, w, c))
            else
              (case ip_str of
                 None \<Rightarrow> Inl NullDeref
               | Some ip_str \<Rightarrow>
                   (case ip_str_to_key (cstr ip_str) (stack_key M w) of (ret, k) \<Rightarrow>
                    if ret \<noteq> 0 then rbind (free_node D node (w, c)) (\<lambda>(w, c). Inr (LOAD_ERROR, w, c))
                    else
                      rbind (insert_loaded_node_ip D H k node (w, c)) (\<lambda>(ret, w, c).
                      if ret \<noteq> 0 then rbind (free_node D node (w, c)) (\<lambda>(w, c). Inr (LOAD_ERROR, w, c))
                      else Inr (LOAD_OK, w, c)))))))))"

definition load_cache_ip_from_sqlite ::
  "'w dpdk \<Rightarrow> ('w, 'h, ip_key) hash_api \<Rightarrow> ('w, 'db, 'st) sqlite_api \<Rightarrow> 'w ip_memory \<Rightarrow> 'w \<times> ('h, 'db) ip_cache \<Rightarrow>
   ('w \<times> ('h, 'db) ip_cache) res option" where
  "load_cache_ip_from_sqlite D H S M = (\<lambda>(w, c).
     if cache_hash c = None then Some (Inr (w, c))
     else if cache_table c = None then Some (Inr (w, c))
     else
       (case rte_get_timer_cycles D w of (now_cycles, w) \<Rightarrow>
        let hz = rte_get_timer_hz D in
        (case db_prepare S
            ''SELECT ip_str, solution_is_send, trust_lvl, timestamp, ttl_seconds FROM ip_main_table;'' c of
           (ret, None, c) \<Rightarrow> Some (Inr (w, c))
         | (ret, Some stmt, c) \<Rightarrow>
             (case load_rows S (\<lambda>stmt. create_node_from_db_row D H S M stmt now_cycles hz) stmt (0, 0, 0) w c of
                None \<Rightarrow> None
              | Some (Inl e) \<Rightarrow> Some (Inl e)
              | Some (Inr (stmt, counts, w, c)) \<Rightarrow> Some (Inr (w, snd (db_finalize S stmt c)))))))"

section \<open>Writing the file\<close>

definition insert_ip_main_record ::
  "('w, 'db, 'st) sqlite_api \<Rightarrow> byte list \<Rightarrow> node_cache_ip \<Rightarrow> ('h, 'db) ip_cache \<Rightarrow> int \<times> ('h, 'db) ip_cache" where
  "insert_ip_main_record S ip_str node c =
     (case db_prepare S
        ''INSERT OR REPLACE INTO ip_main_table (ip_str, solution_is_send, trust_lvl, timestamp, ttl_seconds) VALUES (?, ?, ?, ?, ?)'' c of
        (ret, None, c) \<Rightarrow> (ret, c)
      | (ret, Some stmt, c) \<Rightarrow>
          let stmt = sqlite3_bind_text S stmt 1 (Some ip_str);
              stmt = sqlite3_bind_int S stmt 2 (if solution_is_send node then 1 else 0);
              stmt = sqlite3_bind_int S stmt 3 (trust_lvl node);
              stmt = sqlite3_bind_int64 S stmt 4 (sint (timestamp node));
              stmt = sqlite3_bind_int S stmt 5 (sint (ttl_seconds node)) in
          (case db_step S stmt c of (ret, stmt, c) \<Rightarrow>
           let c = snd (db_finalize S stmt c) in
           if ret \<noteq> SQLITE_DONE then (ret, c) else (SQLITE_OK, c)))"

definition delete_ip_categories ::
  "('w, 'db, 'st) sqlite_api \<Rightarrow> byte list \<Rightarrow> ('h, 'db) ip_cache \<Rightarrow> int \<times> ('h, 'db) ip_cache" where
  "delete_ip_categories S ip_str c =
     (case db_prepare S ''DELETE FROM ip_categories_table WHERE ip_str = ?'' c of
        (ret, None, c) \<Rightarrow> (ret, c)
      | (ret, Some stmt, c) \<Rightarrow>
          (case db_step S (sqlite3_bind_text S stmt 1 (Some ip_str)) c of (ret, stmt, c) \<Rightarrow>
           (if ret = SQLITE_DONE then SQLITE_OK else ret, snd (db_finalize S stmt c))))"

definition insert_ip_categories ::
  "('w, 'db, 'st) sqlite_api \<Rightarrow> byte list \<Rightarrow> node_cache_ip \<Rightarrow> ('h, 'db) ip_cache \<Rightarrow> (int \<times> ('h, 'db) ip_cache) res" where
  "insert_ip_categories S ip_str node c =
     (case db_prepare S ''INSERT INTO ip_categories_table (ip_str, certain_category) VALUES (?, ?)'' c of
        (ret, None, c) \<Rightarrow> Inr (ret, c)
      | (ret, Some stmt, c) \<Rightarrow> insert_category_rows S ip_str (categories node) MAX_CATEGORIES 0 stmt c)"

text \<open>The text goes into an uninitialised array of 46 bytes; the address fits with its terminator.\<close>

definition ip_text :: "ip_key \<Rightarrow> byte list" where
  "ip_text k = (if version k = 4 then dotted_decimal (take 4 (addr_bytes k)) else inet_ntop6 (addr_bytes k)) @ [0]"

definition save_single_node_ip_to_sqlite ::
  "('w, 'db, 'st) sqlite_api \<Rightarrow> ip_key \<Rightarrow> node_cache_ip \<Rightarrow> ('h, 'db) ip_cache \<Rightarrow> (int \<times> ('h, 'db) ip_cache) res" where
  "save_single_node_ip_to_sqlite S k node c =
     (let ip_str = ip_text k in
      case insert_ip_main_record S ip_str node c of (ret, c) \<Rightarrow>
      if ret \<noteq> SQLITE_OK then Inr (ret, c)
      else
        (case delete_ip_categories S ip_str c of (ret, c) \<Rightarrow>
         if ret \<noteq> SQLITE_OK then Inr (ret, c)
         else
           rbind (insert_ip_categories S ip_str node c) (\<lambda>(ret, c).
           if ret \<noteq> SQLITE_OK then Inr (ret, c) else Inr (SQLITE_OK, c))))"

definition copy_data_from_hash_to_snapshot_ip ::
  "('w, 'h, ip_key) hash_api \<Rightarrow> snapshot_ip list option \<Rightarrow> ('h, 'db) ip_cache \<Rightarrow>
   (snapshot_ip list option \<times> ('h, 'db) ip_cache) res option" where
  "copy_data_from_hash_to_snapshot_ip H snapt c =
     (case spin_lock c of
        Inl e \<Rightarrow> Some (Inl e)
      | Inr c \<Rightarrow>
        (case hash_walk H (cache_hash c)
            (\<lambda>(k, data) (i, snapt).
               case data of
                 None \<Rightarrow> Inl NullDeref
               | Some orig \<Rightarrow>
                   rbind (deref (cache_nodes c) orig) (\<lambda>n.
                   store_snapshot \<lparr>snap_node = n, snap_key = k\<rparr> i snapt)) 0 (0, snapt) of
           None \<Rightarrow> None
         | Some (Inl e) \<Rightarrow> Some (Inl e)
         | Some (Inr (i, snapt)) \<Rightarrow> Some (Inr (snapt, spin_unlock c))))"

text \<open>The first result tells whether the snapshot is still allocated at the end.\<close>

definition save_all_cache_ip_to_sqlite ::
  "('w, 'h, ip_key) hash_api \<Rightarrow> ('w, 'db, 'st) sqlite_api \<Rightarrow> 'w ip_memory \<Rightarrow> 'w \<Rightarrow> ('h, 'db) ip_cache \<Rightarrow>
   (bool \<times> ('h, 'db) ip_cache) res option" where
  "save_all_cache_ip_to_sqlite H S M w c =
     (if cache_hash c = None then Some (Inr (False, c))
      else if cache_table c = None then Some (Inr (False, c))
      else
        let count = unat (word_of_int (rte_hash_count H (cache_hash c)) :: 32 word) in
        (case copy_data_from_hash_to_snapshot_ip H (snapshot_block M count w) c of
           None \<Rightarrow> None
         | Some (Inl e) \<Rightarrow> Some (Inl e)
         | Some (Inr (snapt, c)) \<Rightarrow>
             Some (write_snapshot S (\<lambda>sn c. save_single_node_ip_to_sqlite S (snap_key sn) (snap_node sn) c) count snapt c)))"

section \<open>Creating the cache\<close>

definition init_tables_sqlite_ip_cache ::
  "('w, 'db, 'st) sqlite_api \<Rightarrow> 'w \<times> ('h, 'db) ip_cache \<Rightarrow> 'w \<times> ('h, 'db) ip_cache" where
  "init_tables_sqlite_ip_cache S = (\<lambda>(w, c).
     case sqlite3_open S ''ip_cache.db'' w of (ret, db, w) \<Rightarrow>
     let c = c\<lparr>cache_table := db\<rparr> in
     if ret \<noteq> SQLITE_OK then (w, c)
     else
       (case db_exec S ''CREATE TABLE IF NOT EXISTS ip_main_table(ip_str TEXT PRIMARY KEY, solution_is_send INT NOT NULL, trust_lvl INT NOT NULL, timestamp INT NOT NULL, ttl_seconds INT NOT NULL)'' c of (ret, c) \<Rightarrow>
        if ret \<noteq> SQLITE_OK then (w, c)
        else
          (case db_exec S ''CREATE TABLE IF NOT EXISTS ip_categories_table(ip_str TEXT NOT NULL, certain_category TEXT NOT NULL, PRIMARY KEY (ip_str, certain_category), FOREIGN KEY (ip_str) REFERENCES ip_main_table(ip_str))'' c of (ret, c) \<Rightarrow>
           if ret \<noteq> SQLITE_OK then (w, c)
           else (w, snd (db_exec S ''PRAGMA foreign_keys = ON;'' c)))))"

definition init_ip_cache ::
  "'w dpdk \<Rightarrow> ('w, 'h, ip_key) hash_api \<Rightarrow> ('w, 'db, 'st) sqlite_api \<Rightarrow> 'w ip_memory \<Rightarrow> 'w \<times> ('h, 'db) ip_cache \<Rightarrow>
   ('w \<times> ('h, 'db) ip_cache) res option" where
  "init_ip_cache D H S M = (\<lambda>(w, c).
     if cache_hash c \<noteq> None then Some (Inr (w, c))
     else
       (case rte_hash_create H w of (h, w) \<Rightarrow>
        let c = c\<lparr>cache_hash := h\<rparr> in
        if h = None then Some (Inr (w, c))
        else
          (case load_cache_ip_from_sqlite D H S M (init_tables_sqlite_ip_cache S (w, c)) of
             None \<Rightarrow> None
           | Some (Inl e) \<Rightarrow> Some (Inl e)
           | Some (Inr (w, c)) \<Rightarrow>
               let save_interval_cycles = rte_get_timer_hz D * 3600 in
               Some (Inr (snd (rte_timer_reset D save_interval_cycles w),
                          c\<lparr>save_timer := Some save_interval_cycles\<rparr>)))))"

section \<open>Loading\<close>

locale ip_store = ip_env D live H slots + sqlite_reads S left reads
  for D :: "'w dpdk" and live and H :: "('w, 'h, ip_key) hash_api" and slots
    and S :: "('w, 'db, 'st) sqlite_api" and left and reads

sublocale ip_store \<subseteq> cache_store D live H slots key set_key S left reads
  by unfold_locales

lemma load_category_ip_row: "row_loader load_category_ip"
  unfolding row_loader_def
proof (intro allI impI)
  fix s :: "byte list option" and i and row :: "byte list"
  assume "\<forall>t. s = Some t \<longrightarrow> nul_term t" "length row = CATEGORY_MAX_LEN"
  then show "\<exists>row'. load_category_ip s i row = Inr row' \<and> length row' = CATEGORY_MAX_LEN"
    by (cases s) (auto simp: load_category_ip_def c_strncpy_term CATEGORY_MAX_LEN_def min_def)
qed

text \<open>The functions of the file are the common ones; a row is inserted under the key that its text is parsed to.\<close>

definition insert_row_ip ::
  "'w dpdk \<Rightarrow> ('w, 'h, ip_key) hash_api \<Rightarrow> 'w ip_memory \<Rightarrow> byte list option \<Rightarrow> addr \<Rightarrow> 'w \<times> ('h, 'db) ip_cache \<Rightarrow>
   (int \<times> 'w \<times> ('h, 'db) ip_cache) res" where
  "insert_row_ip D H M name node = (\<lambda>(w, c).
     case name of
       None \<Rightarrow> Inl NullDeref
     | Some ip_str \<Rightarrow>
         (case ip_str_to_key (cstr ip_str) (stack_key M w) of (ret, k) \<Rightarrow>
          if ret \<noteq> 0 then Inr (ret, w, c) else insert_loaded_node_ip D H k node (w, c)))"

abbreviation (input) ip_categories_sql :: string where
  "ip_categories_sql \<equiv> ''SELECT certain_category FROM ip_categories_table WHERE ip_str = ?;''"

lemma load_ip_categories_common: "load_ip_categories S = g_load_categories load_category_ip ip_categories_sql S"
  unfolding fun_eq_iff load_ip_categories_def g_load_categories_def by simp

lemma finish_row_ip:
  "finish_row D (if ret \<noteq> 0 then Inr (ret, w, c) else insert_row_ip D H M name node (w, c)) node =
     (if ret \<noteq> 0 then rbind (free_node D node (w, c)) (\<lambda>(w, c). Inr (LOAD_ERROR, w, c))
      else
        (case name of
           None \<Rightarrow> Inl NullDeref
         | Some ip_str \<Rightarrow>
             (case ip_str_to_key (cstr ip_str) (stack_key M w) of (ret, k) \<Rightarrow>
              if ret \<noteq> 0 then rbind (free_node D node (w, c)) (\<lambda>(w, c). Inr (LOAD_ERROR, w, c))
              else
                rbind (insert_loaded_node_ip D H k node (w, c)) (\<lambda>(ret, w, c).
                if ret \<noteq> 0 then rbind (free_node D node (w, c)) (\<lambda>(w, c). Inr (LOAD_ERROR, w, c))
                else Inr (LOAD_OK, w, c)))))"
  by (auto simp: finish_row_def insert_row_ip_def split: option.splits prod.splits)

lemma create_node_common:
  "create_node_from_db_row D H S M = g_create_row D S M (load_ip_categories S) (insert_row_ip D H M)"
  unfolding fun_eq_iff create_node_from_db_row_def g_create_row_def finish_row_ip Let_def by simp

lemma load_cache_ip_common:
  "load_cache_ip_from_sqlite D H S M =
     g_load_cache D S ''SELECT ip_str, solution_is_send, trust_lvl, timestamp, ttl_seconds FROM ip_main_table;''
       (create_node_from_db_row D H S M)"
  unfolding load_cache_ip_from_sqlite_def g_load_cache_def Let_def ..

lemma init_ip_common:
  "init_ip_cache D H S M = g_init_cache D H (init_tables_sqlite_ip_cache S) (load_cache_ip_from_sqlite D H S M)"
  unfolding init_ip_cache_def g_init_cache_def ..

lemma insert_row_ip_inserts:
  assumes "name \<noteq> None"
  shows "inserts set_key D H (insert_row_ip D H M name)"
  unfolding inserts_def
proof (intro allI)
  fix a w c
  obtain ip_str ret k where "name = Some ip_str" "ip_str_to_key (cstr ip_str) (stack_key M w) = (ret, k)"
    using assms by fastforce
  then show "(\<exists>ret. ret \<noteq> 0 \<and> insert_row_ip D H M name a (w, c) = Inr (ret, w, c)) \<or>
      (\<exists>k. insert_row_ip D H M name a (w, c) = g_insert set_key D H (Inr k) a (w, c))"
    by (cases "ret = 0") (auto simp: insert_row_ip_def insert_loaded_node_ip_common)
qed

context ip_store
begin

lemma load_cache_run:
  assumes ok: "cache_ok slots live key (w, c)" and mem: "memory_ok M" and name: "\<And>st. sqlite3_column_text S st 0 \<noteq> None"
    and now: "now = fst (rte_get_timer_cycles D w)"
  shows "\<exists>w' c'. load_cache_ip_from_sqlite D H S M (w, c) = Some (Inr (w', c')) \<and>
    well_loaded slots live key now (rte_get_timer_hz D) (w, c) (w', c')"
  unfolding load_cache_ip_common
proof (rule load_cache_loaded [OF ok _ now])
  show "\<exists>r w' c'. create_node_from_db_row D H S M st now (rte_get_timer_hz D) (w, c) = Inr (r, w', c') \<and>
      well_loaded slots live key now (rte_get_timer_hz D) (w, c) (w', c') \<and> rows_left c' = rows_left c"
    if "cache_ok slots live key (w, c)" for st w c
    unfolding create_node_common load_ip_categories_common
    by (rule create_row_loaded [where ins = "insert_row_ip D H M", OF that mem load_category_ip_row _ insert_row_ip_inserts [OF name]]) simp
qed simp

lemma init_ip_cache_run:
  assumes "cache_ok slots live key (w, c)" "cache_hash c = None" "table_creation H slots live"
    and "\<And>w. live (snd (snd (sqlite3_open S ''ip_cache.db'' w))) = live w"
    and "memory_ok M" "\<And>st. sqlite3_column_text S st 0 \<noteq> None"
  shows "\<exists>w' c'. init_ip_cache D H S M (w, c) = Some (Inr (w', c')) \<and>
    created slots live key (load_time D H S ''ip_cache.db'' w) (rte_get_timer_hz D) (fst (rte_hash_create H w) = None) (w, c) (w', c')"
proof -
  have tables: "init_tables_sqlite_ip_cache S = g_open_tables S ''ip_cache.db''
      ''CREATE TABLE IF NOT EXISTS ip_main_table(ip_str TEXT PRIMARY KEY, solution_is_send INT NOT NULL, trust_lvl INT NOT NULL, timestamp INT NOT NULL, ttl_seconds INT NOT NULL)''
      ''CREATE TABLE IF NOT EXISTS ip_categories_table(ip_str TEXT NOT NULL, certain_category TEXT NOT NULL, PRIMARY KEY (ip_str, certain_category), FOREIGN KEY (ip_str) REFERENCES ip_main_table(ip_str))''"
    unfolding init_tables_sqlite_ip_cache_def g_open_tables_def ..
  show ?thesis
    unfolding init_ip_common tables
    by (rule init_cache_created [OF assms(1-4)]) (rule load_cache_run [OF _ assms(5,6) refl])
qed

end

section \<open>A concrete file\<close>

text \<open>The file has one row, for 127.0.0.1; the stack holds other bytes than zero.\<close>

definition sample_memory :: "'w ip_memory" where
  "sample_memory = \<lparr>heap_node = (\<lambda>_. zero_node_ip), stack_key = (\<lambda>_. zero_ip_key\<lparr>addr_bytes := replicate 16 7\<rparr>),
     snapshot_block = (\<lambda>n _. Some (replicate n \<lparr>snap_node = zero_node_ip, snap_key = zero_ip_key\<rparr>))\<rparr>"

definition stored_ip_cache :: "((ip_key \<times> addr) list, db_row list) ip_cache" where
  "stored_ip_cache =
     \<lparr>cache_hash = Some [], cache_table = Some [\<lparr>row_text = map of_char ''127.0.0.1'', row_ints = nth [0, 1, 3, 90, 60]\<rparr>],
      cache_spinlock = False, cache_nodes = Map.empty, cache_keys = Map.empty, save_timer = None\<rparr>"

lemma stored_ip_cache_ok: "cache_ok (ref_slots CACHE_SIZE) ref_live key (sample_world, stored_ip_cache)"
  by (simp add: stored_ip_cache_def cache_ok_def table_ok_def)

lemma sample_memory_ok: "memory_ok sample_memory"
  by (simp add: memory_ok_def sample_memory_def zero_node_ip_def)

interpretation ref_store: ip_store ref_dpdk ref_live "ref_hash CACHE_SIZE" "ref_slots CACHE_SIZE" ref_reader
    "\<lambda>db st. length (rest_rows st)" "\<lambda>_. True"
  by (rule ip_store.intro) (unfold_locales)

section \<open>Properties of the file\<close>



text \<open>
  C28.  The snapshot that is written to the file has the nodes and keys of all entries, in the
  order of the table, if it has room for them; a snapshot with fewer rows, as when entries were
  added since they were counted, is overrun.  The lock is released.
\<close>

theorem copy_data_from_hash_to_snapshot_ip_bounds:
  assumes "ip_env D live H slots" "cache_ok slots live key (w, c)" "cache_hash c = Some h"
  shows "copy_data_from_hash_to_snapshot_ip H (Some rows) c = Some (
     if length (entries (slots h)) \<le> length rows
     then Inr (Some (map (\<lambda>(k, a). \<lparr>snap_node = the (cache_nodes c a), snap_key = k\<rparr>) (entries (slots h)) @
            drop (length (entries (slots h))) rows), c)
     else Inl OutOfBounds)"
proof -
  note hash = ip_env.axioms(2) [OF assms(1)]
  let ?g = "\<lambda>(k, a). \<lparr>snap_node = the (cache_nodes c a), snap_key = k\<rparr>"
  let ?body = "\<lambda>e (i, snapt). store_snapshot (?g e) i snapt"
  let ?c = "c\<lparr>cache_spinlock := True\<rparr>"
  have free: "\<not> cache_spinlock c" using cache_okD(1) [OF assms(2)] .
  have "c_fold (entries (slots h)) (\<lambda>(k, a) (i, snapt). rbind (deref (cache_nodes c) a) (\<lambda>n.
        store_snapshot \<lparr>snap_node = n, snap_key = k\<rparr> i snapt)) (0, Some rows) =
      c_fold (entries (slots h)) ?body (0, Some rows)"
  proof (rule c_fold_cong)
    fix e s assume "e \<in> set (entries (slots h))"
    then obtain k a n where "e = (k, a)" "cache_nodes c a = Some n"
      using rte_hash.content_iff_entry [OF hash] table_ok_entry [OF cache_okD(5) [OF assms(2,3)]]
      by (metis surj_pair)
    then show "(case e of (k, a) \<Rightarrow> \<lambda>(i, snapt). rbind (deref (cache_nodes c) a) (\<lambda>n.
        store_snapshot \<lparr>snap_node = n, snap_key = k\<rparr> i snapt)) s = ?body e s"
      by (cases s) simp
  qed
  then show ?thesis
    using free assms(3) store_entries [of 0 rows "entries (slots h)" ?g] spin_lock_free [OF free]
    by (simp add: copy_data_from_hash_to_snapshot_ip_def rte_hash.hash_walk_all [OF hash] spin_unlock_def case_prod_unfold)
qed

theorem copy_data_from_hash_to_snapshot_ip_bounds_witness:
  "copy_data_from_hash_to_snapshot_ip (ref_hash CACHE_SIZE :: (ref_world, _, _) hash_api) (Some []) sample_ip_cache =
     Some (Inl OutOfBounds) \<and>
   (\<exists>snapt. copy_data_from_hash_to_snapshot_ip (ref_hash CACHE_SIZE :: (ref_world, _, _) hash_api)
       (snapshot_block sample_memory 1 sample_world) sample_ip_cache = Some (Inr (Some snapt, sample_ip_cache)) \<and>
     map snap_key snapt = [sample_ip])"
  using copy_data_from_hash_to_snapshot_ip_bounds [OF ref_ip.ip_env_axioms sample_ip_cache_ok(1), of "[(sample_ip, 5)]"]
  by (simp add: sample_ip_cache_def sample_memory_def)

text \<open>
  C29.  An address that was saved reads back as the same key exactly if it is an IPv6 address or
  the stack happened to hold the key's own bytes behind the IPv4 address: the variable the text is
  parsed into is not initialised.
\<close>

theorem saved_address_reads_back:
  assumes "version k = 4 \<or> version k = 6" "length (addr_bytes k) = IP6_LEN" "length (addr_bytes junk) = IP6_LEN"
  shows "\<exists>k'. ip_str_to_key (cstr (ip_text k)) junk = (0, k') \<and>
     (k' = k \<longleftrightarrow> version k = 6 \<or> drop 4 (addr_bytes junk) = drop 4 (addr_bytes k))"
proof (cases "version k = 4")
  case True
  have "cstr (ip_text k) = dotted_decimal (take 4 (addr_bytes k))"
    using True dotted_decimal_nz by (simp add: ip_text_def cstr_append_nul)
  moreover have "take 4 (addr_bytes k) @ drop 4 (addr_bytes junk) = addr_bytes k \<longleftrightarrow>
      drop 4 (addr_bytes junk) = drop 4 (addr_bytes k)"
    by (metis append_take_drop_id same_append_eq)
  ultimately show ?thesis
    using True assms pton4_dotted [of "take 4 (addr_bytes k)"]
    by (cases k; cases junk) (auto simp: ip_str_to_key_def IP6_LEN_def)
next
  case False
  have "cstr (ip_text k) = inet_ntop6 (addr_bytes k)"
    using False ntop6_nz by (simp add: ip_text_def cstr_append_nul)
  with False assms pton6_ntop6 [of "addr_bytes k"] pton4_colon [OF ntop6_colon [of "addr_bytes k"]] show ?thesis
    by (cases k; cases junk) (auto simp: ip_str_to_key_def inet_pton4_def IP6_LEN_def)
qed

theorem saved_address_reads_back_witness:
  "\<exists>k'. ip_str_to_key (cstr (ip_text sample_ip)) (stack_key sample_memory ()) = (0, k') \<and> k' \<noteq> sample_ip"
proof -
  have "version sample_ip = 4" "length (addr_bytes sample_ip) = IP6_LEN"
    "length (addr_bytes (stack_key sample_memory ())) = IP6_LEN"
    "drop 4 (addr_bytes (stack_key sample_memory ())) \<noteq> drop 4 (addr_bytes sample_ip)"
    by (simp_all add: sample_ip_def set_ip4_def zero_ip_key_def sample_memory_def IP6_LEN_def)
  with saved_address_reads_back [of sample_ip "stack_key sample_memory ()"] show ?thesis by auto
qed

end
