(* ===== verification/Domain_Store.thy ===== *)
theory Domain_Store
  imports Domain_Cache Loading
begin

text \<open>
  The part of \<open>src/worker/src/dpdk_filter/domain_cache.c\<close> that keeps the domain cache in an SQLite
  file.  It follows \<open>Ip_Store\<close>, except that a name is its own text: nothing is parsed, and the
  snapshot copies the key as a string.  Creating and loading the cache are the common functions of \<open>Loading\<close>.
\<close>

section \<open>Snapshots\<close>

record snapshot_domain =
  dsnap_node :: node_cache_domain
  snap_domain :: "byte list"

type_synonym 'w dns_memory = "('w, node_cache_domain, byte list, snapshot_domain) memory"

section \<open>Reading the file\<close>

text \<open>A null category leaves the row as it is.\<close>

definition load_category_domain :: "byte list option \<Rightarrow> nat \<Rightarrow> byte list \<Rightarrow> byte list res" where
  "load_category_domain cat i row =
     (case cat of
        Some s \<Rightarrow> rbind (c_strncpy row s (CATEGORY_MAX_LEN - 1)) (\<lambda>row. rset row (CATEGORY_MAX_LEN - 1) 0)
      | None \<Rightarrow> Inr row)"

text \<open>\<open>insert_loaded_node_domain\<close> through a pointer that may be null: it is read after the
  allocation of the key.\<close>

definition insert_loaded_row ::
  "'w dpdk \<Rightarrow> ('w, 'h, byte list) hash_api \<Rightarrow> byte list option \<Rightarrow> addr \<Rightarrow> 'w \<times> ('h, 'db) dns_cache \<Rightarrow>
   (int \<times> 'w \<times> ('h, 'db) dns_cache) res" where
  "insert_loaded_row D H name node = (\<lambda>(w, c).
     case name of
       Some name \<Rightarrow> insert_loaded_node_domain D H name node (w, c)
     | None \<Rightarrow> (case rte_malloc D w of (None, w) \<Rightarrow> Inr (- ENOMEM, w, c) | (Some key_copy, w) \<Rightarrow> Inl NullDeref))"

definition load_domain_categories ::
  "('w, 'db, 'st) sqlite_api \<Rightarrow> byte list option \<Rightarrow> addr \<Rightarrow> ('h, 'db) dns_cache \<Rightarrow> (int \<times> ('h, 'db) dns_cache) res" where
  "load_domain_categories S name node c =
     (case db_prepare S ''SELECT certain_category FROM categories_table WHERE domain = ?;'' c of
        (rc, None, c) \<Rightarrow> Inr (- 1, c)
      | (rc, Some stmt, c) \<Rightarrow>
          let stmt = sqlite3_bind_text S stmt 1 name in
          rbind (deref (cache_nodes c) node) (\<lambda>n.
          rbind (load_rows_of_categories load_category_domain S MAX_CATEGORIES 0 stmt (categories n) c) (\<lambda>(t, stmt, c).
          let c = c\<lparr>cache_nodes := (cache_nodes c)(node \<mapsto> n\<lparr>categories := t\<rparr>)\<rparr> in
          Inr (0, snd (db_finalize S stmt c)))))"

definition create_domain_node_from_db_row ::
  "'w dpdk \<Rightarrow> ('w, 'h, byte list) hash_api \<Rightarrow> ('w, 'db, 'st) sqlite_api \<Rightarrow> 'w dns_memory \<Rightarrow> 'st \<Rightarrow> 64 word \<Rightarrow> 64 word \<Rightarrow>
   'w \<times> ('h, 'db) dns_cache \<Rightarrow> (load_result \<times> 'w \<times> ('h, 'db) dns_cache) res" where
  "create_domain_node_from_db_row D H S M stmt now_cycles hz = (\<lambda>(w, c).
     let solution = sqlite3_column_int S stmt 1;
         trust = sqlite3_column_int S stmt 2;
         stamp = (word_of_int (sqlite3_column_int64 S stmt 3) :: 64 word);
         ttl = (word_of_int (sqlite3_column_int S stmt 4) :: 32 word) in
     rbind (u64_div (now_cycles - stamp) hz) (\<lambda>age_seconds.
     if age_seconds \<ge> ucast ttl then Inr (LOAD_EXPIRED, w, c)
     else
       (case new_node D (heap_node M w) (w, c) of
          (None, w, c) \<Rightarrow> Inr (LOAD_ERROR, w, c)
        | (Some node, w, c) \<Rightarrow>
            rbind (deref (cache_nodes c) node) (\<lambda>n.
            let c = c\<lparr>cache_nodes := (cache_nodes c)(node \<mapsto>
                  n\<lparr>solution_is_send := (solution \<noteq> 0), trust_lvl := trust, timestamp := stamp, ttl_seconds := ttl\<rparr>)\<rparr> in
            let name = sqlite3_column_text S stmt 0 in
            rbind (load_domain_categories S name node c) (\<lambda>(ret, c).
            if ret \<noteq> 0 then rbind (free_node D node (w, c)) (\<lambda>(w, c). Inr (LOAD_ERROR, w, c))
            else
              rbind (insert_loaded_row D H name node (w, c)) (\<lambda>(ret, w, c).
              if ret \<noteq> 0 then rbind (free_node D node (w, c)) (\<lambda>(w, c). Inr (LOAD_ERROR, w, c))
              else Inr (LOAD_OK, w, c)))))))"

definition load_cache_from_sqlite ::
  "'w dpdk \<Rightarrow> ('w, 'h, byte list) hash_api \<Rightarrow> ('w, 'db, 'st) sqlite_api \<Rightarrow> 'w dns_memory \<Rightarrow> 'w \<times> ('h, 'db) dns_cache \<Rightarrow>
   ('w \<times> ('h, 'db) dns_cache) res option" where
  "load_cache_from_sqlite D H S M = (\<lambda>(w, c).
     if cache_hash c = None then Some (Inr (w, c))
     else if cache_table c = None then Some (Inr (w, c))
     else
       (case rte_get_timer_cycles D w of (now_cycles, w) \<Rightarrow>
        let hz = rte_get_timer_hz D in
        (case db_prepare S
            ''SELECT domain, solution_is_send, trust_lvl, timestamp, ttl_seconds FROM main_table;'' c of
           (ret, None, c) \<Rightarrow> Some (Inr (w, c))
         | (ret, Some stmt, c) \<Rightarrow>
             (case load_rows S (\<lambda>stmt. create_domain_node_from_db_row D H S M stmt now_cycles hz) stmt (0, 0, 0) w c of
                None \<Rightarrow> None
              | Some (Inl e) \<Rightarrow> Some (Inl e)
              | Some (Inr (stmt, counts, w, c)) \<Rightarrow> Some (Inr (w, snd (db_finalize S stmt c)))))))"

section \<open>Writing the file\<close>

definition insert_domain_main_record ::
  "('w, 'db, 'st) sqlite_api \<Rightarrow> byte list \<Rightarrow> node_cache_domain \<Rightarrow> ('h, 'db) dns_cache \<Rightarrow> int \<times> ('h, 'db) dns_cache" where
  "insert_domain_main_record S name node c =
     (case db_prepare S
        ''INSERT OR REPLACE INTO main_table (domain, solution_is_send, trust_lvl, timestamp, ttl_seconds) VALUES (?, ?, ?, ?, ?)'' c of
        (ret, None, c) \<Rightarrow> (ret, c)
      | (ret, Some stmt, c) \<Rightarrow>
          let stmt = sqlite3_bind_text S stmt 1 (Some name);
              stmt = sqlite3_bind_int S stmt 2 (if solution_is_send node then 1 else 0);
              stmt = sqlite3_bind_int S stmt 3 (trust_lvl node);
              stmt = sqlite3_bind_int64 S stmt 4 (sint (timestamp node));
              stmt = sqlite3_bind_int S stmt 5 (sint (ttl_seconds node)) in
          (case db_step S stmt c of (ret, stmt, c) \<Rightarrow>
           let c = snd (db_finalize S stmt c) in
           if ret \<noteq> SQLITE_DONE then (ret, c) else (SQLITE_OK, c)))"

definition delete_domain_categories ::
  "('w, 'db, 'st) sqlite_api \<Rightarrow> byte list \<Rightarrow> ('h, 'db) dns_cache \<Rightarrow> int \<times> ('h, 'db) dns_cache" where
  "delete_domain_categories S name c =
     (case db_prepare S ''DELETE FROM categories_table WHERE domain = ?'' c of
        (ret, None, c) \<Rightarrow> (ret, c)
      | (ret, Some stmt, c) \<Rightarrow>
          (case db_step S (sqlite3_bind_text S stmt 1 (Some name)) c of (ret, stmt, c) \<Rightarrow>
           (if ret = SQLITE_DONE then SQLITE_OK else ret, snd (db_finalize S stmt c))))"

definition insert_domain_categories ::
  "('w, 'db, 'st) sqlite_api \<Rightarrow> byte list \<Rightarrow> node_cache_domain \<Rightarrow> ('h, 'db) dns_cache \<Rightarrow> (int \<times> ('h, 'db) dns_cache) res" where
  "insert_domain_categories S name node c =
     (case db_prepare S ''INSERT INTO categories_table (domain, certain_category) VALUES (?, ?)'' c of
        (ret, None, c) \<Rightarrow> Inr (ret, c)
      | (ret, Some stmt, c) \<Rightarrow> insert_category_rows S name (categories node) MAX_CATEGORIES 0 stmt c)"

definition save_single_node_to_sqlite ::
  "('w, 'db, 'st) sqlite_api \<Rightarrow> byte list \<Rightarrow> node_cache_domain \<Rightarrow> ('h, 'db) dns_cache \<Rightarrow> (int \<times> ('h, 'db) dns_cache) res" where
  "save_single_node_to_sqlite S name node c =
     (case insert_domain_main_record S name node c of (ret, c) \<Rightarrow>
      if ret \<noteq> SQLITE_OK then Inr (ret, c)
      else
        (case delete_domain_categories S name c of (ret, c) \<Rightarrow>
         if ret \<noteq> SQLITE_OK then Inr (ret, c)
         else
           rbind (insert_domain_categories S name node c) (\<lambda>(ret, c).
           if ret \<noteq> SQLITE_OK then Inr (ret, c) else Inr (SQLITE_OK, c))))"

text \<open>\<open>strncpy (snapt[i].domain, key, DOMAIN_MAX_LEN - 1)\<close> and the terminator write every byte of
  the array.\<close>

definition copy_data_from_hash_to_snapshot ::
  "('w, 'h, byte list) hash_api \<Rightarrow> snapshot_domain list option \<Rightarrow> ('h, 'db) dns_cache \<Rightarrow>
   (snapshot_domain list option \<times> ('h, 'db) dns_cache) res option" where
  "copy_data_from_hash_to_snapshot H snapt c =
     (case spin_lock c of
        Inl e \<Rightarrow> Some (Inl e)
      | Inr c \<Rightarrow>
        (case hash_walk H (cache_hash c)
            (\<lambda>(k, data) (i, snapt).
               case data of
                 None \<Rightarrow> Inl NullDeref
               | Some orig \<Rightarrow>
                   rbind (strncpy_bytes k (DOMAIN_MAX_LEN - 1)) (\<lambda>text.
                   rbind (deref (cache_nodes c) orig) (\<lambda>n.
                   store_snapshot \<lparr>dsnap_node = n, snap_domain = text @ [0]\<rparr> i snapt))) 0 (0, snapt) of
           None \<Rightarrow> None
         | Some (Inl e) \<Rightarrow> Some (Inl e)
         | Some (Inr (i, snapt)) \<Rightarrow> Some (Inr (snapt, spin_unlock c))))"

text \<open>The first result tells whether the snapshot is still allocated at the end.\<close>

definition save_all_cache_to_sqlite ::
  "('w, 'h, byte list) hash_api \<Rightarrow> ('w, 'db, 'st) sqlite_api \<Rightarrow> 'w dns_memory \<Rightarrow> 'w \<Rightarrow> ('h, 'db) dns_cache \<Rightarrow>
   (bool \<times> ('h, 'db) dns_cache) res option" where
  "save_all_cache_to_sqlite H S M w c =
     (if cache_hash c = None then Some (Inr (False, c))
      else if cache_table c = None then Some (Inr (False, c))
      else
        let count = unat (word_of_int (rte_hash_count H (cache_hash c)) :: 32 word) in
        (case copy_data_from_hash_to_snapshot H (snapshot_block M count w) c of
           None \<Rightarrow> None
         | Some (Inl e) \<Rightarrow> Some (Inl e)
         | Some (Inr (snapt, c)) \<Rightarrow>
             Some (write_snapshot S (\<lambda>sn c. save_single_node_to_sqlite S (snap_domain sn) (dsnap_node sn) c) count snapt c)))"

section \<open>Creating the cache\<close>

definition init_tables_sqlite_dns_cache ::
  "('w, 'db, 'st) sqlite_api \<Rightarrow> 'w \<times> ('h, 'db) dns_cache \<Rightarrow> 'w \<times> ('h, 'db) dns_cache" where
  "init_tables_sqlite_dns_cache S = (\<lambda>(w, c).
     case sqlite3_open S ''cache.db'' w of (ret, db, w) \<Rightarrow>
     let c = c\<lparr>cache_table := db\<rparr> in
     if ret \<noteq> SQLITE_OK then (w, c)
     else
       (case db_exec S ''CREATE TABLE IF NOT EXISTS main_table(domain TEXT PRIMARY KEY, solution_is_send INT NOT NULL, trust_lvl INT NOT NULL, timestamp INT NOT NULL, ttl_seconds INT NOT NULL)'' c of (ret, c) \<Rightarrow>
        if ret \<noteq> SQLITE_OK then (w, c)
        else
          (case db_exec S ''CREATE TABLE IF NOT EXISTS categories_table(domain TEXT NOT NULL, certain_category TEXT NOT NULL, PRIMARY KEY (domain, certain_category), FOREIGN KEY (domain) REFERENCES main_table(domain))'' c of (ret, c) \<Rightarrow>
           if ret \<noteq> SQLITE_OK then (w, c)
           else (w, snd (db_exec S ''PRAGMA foreign_keys = ON;'' c)))))"

definition init_dns_cache ::
  "'w dpdk \<Rightarrow> ('w, 'h, byte list) hash_api \<Rightarrow> ('w, 'db, 'st) sqlite_api \<Rightarrow> 'w dns_memory \<Rightarrow> 'w \<times> ('h, 'db) dns_cache \<Rightarrow>
   ('w \<times> ('h, 'db) dns_cache) res option" where
  "init_dns_cache D H S M = (\<lambda>(w, c).
     if cache_hash c \<noteq> None then Some (Inr (w, c))
     else
       (case rte_hash_create H w of (h, w) \<Rightarrow>
        let c = c\<lparr>cache_hash := h\<rparr> in
        if h = None then Some (Inr (w, c))
        else
          (case load_cache_from_sqlite D H S M (init_tables_sqlite_dns_cache S (w, c)) of
             None \<Rightarrow> None
           | Some (Inl e) \<Rightarrow> Some (Inl e)
           | Some (Inr (w, c)) \<Rightarrow>
               let save_interval_cycles = rte_get_timer_hz D * 3600 in
               Some (Inr (snd (rte_timer_reset D save_interval_cycles w),
                          c\<lparr>save_timer := Some save_interval_cycles\<rparr>)))))"

section \<open>Loading\<close>

locale dns_store = dns_env D live H slots + sqlite_reads S left reads
  for D :: "'w dpdk" and live and H :: "('w, 'h, byte list) hash_api" and slots
    and S :: "('w, 'db, 'st) sqlite_api" and left and reads

sublocale dns_store \<subseteq> cache_store D live H slots key_domain set_key_domain S left reads
  by unfold_locales

lemma load_category_domain_row: "row_loader load_category_domain"
  unfolding row_loader_def
proof (intro allI impI)
  fix s :: "byte list option" and i and row :: "byte list"
  assume "\<forall>t. s = Some t \<longrightarrow> nul_term t" "length row = CATEGORY_MAX_LEN"
  then show "\<exists>row'. load_category_domain s i row = Inr row' \<and> length row' = CATEGORY_MAX_LEN"
    by (cases s) (auto simp: load_category_domain_def c_strncpy_term CATEGORY_MAX_LEN_def min_def)
qed

text \<open>The functions of the file are the common ones.\<close>

abbreviation (input) domain_categories_sql :: string where
  "domain_categories_sql \<equiv> ''SELECT certain_category FROM categories_table WHERE domain = ?;''"

lemma load_domain_categories_common: "load_domain_categories S = g_load_categories load_category_domain domain_categories_sql S"
  unfolding fun_eq_iff load_domain_categories_def g_load_categories_def by simp

lemma finish_row_domain:
  "finish_row D (if ret \<noteq> 0 then Inr (ret, w, c) else insert_loaded_row D H name node (w, c)) node =
     (if ret \<noteq> 0 then rbind (free_node D node (w, c)) (\<lambda>(w, c). Inr (LOAD_ERROR, w, c))
      else
        rbind (insert_loaded_row D H name node (w, c)) (\<lambda>(ret, w, c).
        if ret \<noteq> 0 then rbind (free_node D node (w, c)) (\<lambda>(w, c). Inr (LOAD_ERROR, w, c))
        else Inr (LOAD_OK, w, c)))"
  by (simp add: finish_row_def)

lemma create_domain_node_common:
  "create_domain_node_from_db_row D H S M = g_create_row D S M (load_domain_categories S) (insert_loaded_row D H)"
  unfolding fun_eq_iff create_domain_node_from_db_row_def g_create_row_def finish_row_domain Let_def by simp

lemma load_cache_common:
  "load_cache_from_sqlite D H S M =
     g_load_cache D S ''SELECT domain, solution_is_send, trust_lvl, timestamp, ttl_seconds FROM main_table;''
       (create_domain_node_from_db_row D H S M)"
  unfolding load_cache_from_sqlite_def g_load_cache_def Let_def ..

lemma init_dns_common:
  "init_dns_cache D H S M = g_init_cache D H (init_tables_sqlite_dns_cache S) (load_cache_from_sqlite D H S M)"
  unfolding init_dns_cache_def g_init_cache_def ..

lemma insert_loaded_row_inserts:
  assumes "name = Some s" "nul_term s"
  shows "inserts set_key_domain D H (insert_loaded_row D H name)"
  using assms key_bytes_of_term [OF assms(2)]
  by (auto simp: inserts_def insert_loaded_row_def insert_loaded_node_domain_common)

context dns_store
begin

lemma load_cache_run:
  assumes ok: "cache_ok slots live key_domain (w, c)" and mem: "memory_ok M" and name: "\<And>st. sqlite3_column_text S st 0 \<noteq> None"
    and now: "now = fst (rte_get_timer_cycles D w)"
  shows "\<exists>w' c'. load_cache_from_sqlite D H S M (w, c) = Some (Inr (w', c')) \<and>
    well_loaded slots live key_domain now (rte_get_timer_hz D) (w, c) (w', c')"
  unfolding load_cache_common
proof (rule load_cache_loaded [OF ok _ now])
  show "\<exists>r w' c'. create_domain_node_from_db_row D H S M st now (rte_get_timer_hz D) (w, c) = Inr (r, w', c') \<and>
      well_loaded slots live key_domain now (rte_get_timer_hz D) (w, c) (w', c') \<and> rows_left c' = rows_left c"
    if "cache_ok slots live key_domain (w, c)" for st w c
  proof -
    obtain s where s: "sqlite3_column_text S st 0 = Some s" using name by blast
    show ?thesis
      unfolding create_domain_node_common load_domain_categories_common
      by (rule create_row_loaded [where ins = "insert_loaded_row D H",
            OF that mem load_category_domain_row _ insert_loaded_row_inserts [OF s text_term [OF s]]]) simp
  qed
qed simp

lemma init_dns_cache_run:
  assumes "cache_ok slots live key_domain (w, c)" "cache_hash c = None" "table_creation H slots live"
    and "\<And>w. live (snd (snd (sqlite3_open S ''cache.db'' w))) = live w"
    and "memory_ok M" "\<And>st. sqlite3_column_text S st 0 \<noteq> None"
  shows "\<exists>w' c'. init_dns_cache D H S M (w, c) = Some (Inr (w', c')) \<and>
    created slots live key_domain (load_time D H S ''cache.db'' w) (rte_get_timer_hz D) (fst (rte_hash_create H w) = None) (w, c) (w', c')"
proof -
  have tables: "init_tables_sqlite_dns_cache S = g_open_tables S ''cache.db''
      ''CREATE TABLE IF NOT EXISTS main_table(domain TEXT PRIMARY KEY, solution_is_send INT NOT NULL, trust_lvl INT NOT NULL, timestamp INT NOT NULL, ttl_seconds INT NOT NULL)''
      ''CREATE TABLE IF NOT EXISTS categories_table(domain TEXT NOT NULL, certain_category TEXT NOT NULL, PRIMARY KEY (domain, certain_category), FOREIGN KEY (domain) REFERENCES main_table(domain))''"
    unfolding init_tables_sqlite_dns_cache_def g_open_tables_def ..
  show ?thesis
    unfolding init_dns_common tables
    by (rule init_cache_created [OF assms(1-4)]) (rule load_cache_run [OF _ assms(5,6) refl])
qed

end

interpretation ref_dns_store: dns_store ref_dpdk ref_live "ref_hash CACHE_SIZE" "ref_slots CACHE_SIZE" ref_reader
    "\<lambda>db st. length (rest_rows st)" "\<lambda>_. True"
  by (rule dns_store.intro) (unfold_locales)

end
