(* ===== verification/Startup.thy ===== *)
theory Startup
  imports Worker_Loop Net_Port Ip_Store Domain_Store
begin

text \<open>
  The life of the two programs: \<open>Worker::initDPDK\<close>, the constructor and the destructor of the worker
  (\<open>src/worker/src/worker.cpp\<close>), \<open>main\<close> of \<open>src/worker/src/main.cpp\<close>, and the stand-alone filter
  \<open>src/worker/src/dpdk_filter/main.c\<close>.  A computation may run into undefined behaviour (\<open>Inl\<close>) and
  may not end (\<open>None\<close>); an exception of C++ is a value that keeps the object.
\<close>

section \<open>Sequencing\<close>

definition obind :: "'a res option \<Rightarrow> ('a \<Rightarrow> 'b res option) \<Rightarrow> 'b res option" where
  "obind m f = (case m of None \<Rightarrow> None | Some (Inl e) \<Rightarrow> Some (Inl e) | Some (Inr x) \<Rightarrow> f x)"

lemma obind_simps [simp]:
  "obind None f = None" "obind (Some (Inl e)) f = Some (Inl e)" "obind (Some (Inr x)) f = f x"
  by (simp_all add: obind_def)

datatype 'a outcome = Normal 'a | Throws 'a

section \<open>The object and its surroundings\<close>

text \<open>The three port pointers, null until the ports are described, and the object.\<close>

record ('w, 'hi, 'hd, 'db, 'm) object =
  loop :: "('w, 'hi, 'hd, 'db, 'm) loop_state"
  ptr_in :: "addr option"
  ptr_out :: "addr option"
  ptr_exception :: "addr option"

record 'w start_api =
  rte_eal_init :: "'w \<Rightarrow> int \<times> 'w"
  rte_pktmbuf_pool_create :: "'w \<Rightarrow> addr option \<times> 'w"
  calloc_succeeds :: "'w \<Rightarrow> bool"
  eth_of :: "'w eth_api"
  af_packet :: bool
  getenv :: "string \<Rightarrow> byte list option"

text \<open>The persistent parts of the caches.\<close>

record ('w, 'db, 'st) store_api =
  sqlite_of :: "('w, 'db, 'st) sqlite_api"
  ip_mem :: "'w ip_memory"
  dns_mem :: "'w dns_memory"

section \<open>Ports of a program\<close>

definition describe_port ::
  "net_port option res \<Rightarrow> addr \<Rightarrow> ('w, 'hi, 'hd, 'db) proc_state \<Rightarrow> (addr option \<times> ('w, 'hi, 'hd, 'db) proc_state) res" where
  "describe_port made a s =
     rbind made (\<lambda>port. case port of None \<Rightarrow> Inr (None, s) | Some p \<Rightarrow> Inr (Some a, s\<lparr>ports := (ports s)(a := p)\<rparr>))"

text \<open>\<open>net_port_init (p) || ...\<close> and \<open>net_port_start (p->port_id) || ...\<close>: the first value that is not zero.\<close>

fun init_ports :: "'w eth_api \<Rightarrow> addr option list \<Rightarrow> ('w, 'hi, 'hd, 'db) proc_state \<Rightarrow> (int \<times> ('w, 'hi, 'hd, 'db) proc_state) res" where
  "init_ports N [] s = Inr (0, s)"
| "init_ports N (p # ps) s =
     rbind (net_port_init N (map_option (ports s) p) (world s)) (\<lambda>(r, port, w).
     let s = s\<lparr>ports := (ports s)(the p := port), world := w\<rparr> in
     if r \<noteq> 0 then Inr (r, s) else init_ports N ps s)"

fun start_ports :: "'w eth_api \<Rightarrow> addr option list \<Rightarrow> ('w, 'hi, 'hd, 'db) proc_state \<Rightarrow> (int \<times> ('w, 'hi, 'hd, 'db) proc_state) res" where
  "start_ports N [] s = Inr (0, s)"
| "start_ports N (p # ps) s =
     (case p of
        None \<Rightarrow> Inl NullDeref
      | Some a \<Rightarrow>
          (case net_port_start N (port_id (ports s a)) (world s) of (r, w) \<Rightarrow>
           let s = s\<lparr>world := w\<rparr> in
           if r \<noteq> 0 then Inr (r, s) else start_ports N ps s))"

text \<open>\<open>net_port_close\<close> of each pointer in turn.\<close>

fun close_ports :: "'w eth_api \<Rightarrow> addr option list \<Rightarrow> ('w, 'hi, 'hd, 'db) proc_state \<Rightarrow> ('w, 'hi, 'hd, 'db) proc_state" where
  "close_ports N [] s = s"
| "close_ports N (p # ps) s =
     (case net_port_close N (map_option (ports s) p) (world s) of (port, w) \<Rightarrow>
      close_ports N ps
        (case (p, port) of (Some a, Some q) \<Rightarrow> s\<lparr>world := w, ports := (ports s)(a := q)\<rparr> | _ \<Rightarrow> s\<lparr>world := w\<rparr>))"

section \<open>Caches of a program\<close>

definition init_caches ::
  "('w, 'hi, 'hd) env \<Rightarrow> ('w, 'db, 'st) store_api \<Rightarrow> ('w, 'hi, 'hd, 'db) proc_state \<Rightarrow> ('w, 'hi, 'hd, 'db) proc_state res option" where
  "init_caches E S s =
     obind (init_dns_cache (dpdk_of E) (dns_api E) (sqlite_of S) (dns_mem S) (world s, dns_state s)) (\<lambda>(w, c).
     let s = s\<lparr>world := w, dns_state := c\<rparr> in
     obind (init_ip_cache (dpdk_of E) (ip_api E) (sqlite_of S) (ip_mem S) (world s, ip_state s)) (\<lambda>(w, c).
     Some (Inr (s\<lparr>world := w, ip_state := c\<rparr>))))"

definition save_and_free_caches ::
  "('w, 'hi, 'hd) env \<Rightarrow> ('w, 'db, 'st) store_api \<Rightarrow> ('w, 'hi, 'hd, 'db) proc_state \<Rightarrow> ('w, 'hi, 'hd, 'db) proc_state res option" where
  "save_and_free_caches E S s =
     obind (save_all_cache_to_sqlite (dns_api E) (sqlite_of S) (dns_mem S) (world s) (dns_state s)) (\<lambda>(left, c).
     let s = s\<lparr>dns_state := c\<rparr> in
     obind (save_all_cache_ip_to_sqlite (ip_api E) (sqlite_of S) (ip_mem S) (world s) (ip_state s)) (\<lambda>(left, c).
     let s = s\<lparr>ip_state := c\<rparr> in
     obind (free_dns_cache (dpdk_of E) (dns_api E) (sqlite_of S) (world s, dns_state s)) (\<lambda>(w, c).
     let s = s\<lparr>world := w, dns_state := c\<rparr> in
     obind (free_ip_cache (dpdk_of E) (ip_api E) (sqlite_of S) (world s, ip_state s)) (\<lambda>(w, c).
     Some (Inr (s\<lparr>world := w, ip_state := c\<rparr>))))))"

section \<open>The worker\<close>

definition on_object ::
  "('w, 'hi, 'hd, 'db, 'm) object \<Rightarrow> ('w, 'hi, 'hd, 'db) proc_state \<Rightarrow> ('w, 'hi, 'hd, 'db, 'm) object" where
  "on_object x s = x\<lparr>loop := (loop x)\<lparr>proc := s\<rparr>\<rparr>"

definition initDPDK ::
  "('w, 'hi, 'hd) env \<Rightarrow> 'w start_api \<Rightarrow> ('w, 'db, 'st) store_api \<Rightarrow> port_addrs \<Rightarrow>
   ('w, 'hi, 'hd, 'db, 'm) object \<Rightarrow> ('w, 'hi, 'hd, 'db, 'm) object outcome res option" where
  "initDPDK E U S A x =
     (let s = proc (loop x) in
      case rte_eal_init U (world s) of (ret, w) \<Rightarrow>
      let s = s\<lparr>world := w\<rparr> in
      if ret < 0 then Some (Inr (Throws (on_object x s)))
      else
        (case rte_pktmbuf_pool_create U (world s) of (pool, w) \<Rightarrow>
         let s = s\<lparr>world := w\<rparr> in
         if pool = None then Some (Inr (Throws (on_object x s)))
         else
           (case (getenv U ''DPDK_PORT_IN'', getenv U ''DPDK_PORT_OUT'') of
              (Some iface_in, Some iface_out) \<Rightarrow>
                obind (Some (describe_port (init_struct_af_xdp_port (af_packet U) (calloc_succeeds U (world s)) iface_in pool) (port_in A) s)) (\<lambda>(p, s).
                let x = x\<lparr>ptr_in := p\<rparr> in
                obind (Some (describe_port (init_struct_af_xdp_port (af_packet U) (calloc_succeeds U (world s)) iface_out pool) (port_out A) s)) (\<lambda>(p, s).
                let x = x\<lparr>ptr_out := p\<rparr> in
                obind (Some (describe_port (init_struct_tap_port (calloc_succeeds U (world s)) (c_lit ''tap0'') pool) (port_exception A) s)) (\<lambda>(p, s).
                let x = x\<lparr>ptr_exception := p\<rparr> in
                obind (Some (init_ports (eth_of U) [ptr_in x, ptr_out x, ptr_exception x] s)) (\<lambda>(r, s).
                if r \<noteq> 0 then Some (Inr (Throws (on_object x s)))
                else
                  obind (Some (start_ports (eth_of U) [ptr_in x, ptr_out x, ptr_exception x] s)) (\<lambda>(r, s).
                  if r \<noteq> 0 then Some (Inr (Throws (on_object x s)))
                  else obind (init_caches E S s) (\<lambda>s. Some (Inr (Normal (on_object x s)))))))))
            | _ \<Rightarrow> Some (Inr (Throws (on_object x s))))))"

text \<open>
  The constructor: \<open>junk\<close> is what the memory of the object holds where nothing initialises it, the policy and the
  readings of the clock among it.
\<close>

definition new_worker ::
  "('w, 'hi, 'hd) env \<Rightarrow> 'm prom_api \<Rightarrow> cpu_time \<Rightarrow> string option \<Rightarrow> BASE_POLICY \<Rightarrow> 64 word \<Rightarrow>
   ('w, 'hi, 'hd, 'db, 'm) loop_state \<Rightarrow> ('w, 'hi, 'hd, 'db, 'm) object res option" where
  "new_worker E P u stat junk wid s =
     (let this = \<lparr>worker_id = wid, current_config_version = 0, enable = True, current_policy = junk, worker_state = FREE,
                  local_packets_received = 0, local_packets_passed = 0, local_packets_dropped = 0\<rparr> in
      case new_collector P u stat (prom_state s) of
        None \<Rightarrow> None
      | Some (c, m) \<Rightarrow>
          let s = s\<lparr>prom_state := m, metrics_collector := Some c, policy_interval := MIN_POLICY_TIME, last_metrics_push_time := 0,
                    proc := (proc s)\<lparr>instance_of := Some this\<rparr>\<rparr> in
          obind (Some (SetState FREE s)) (\<lambda>s.
          obind (Some (on_proc (requestPolicyFromController E this) s)) (\<lambda>s.
          Some (Inr \<lparr>loop = s, ptr_in = None, ptr_out = None, ptr_exception = None\<rparr>))))"

text \<open>The destructor.  The ports are released with the object.\<close>

definition delete_worker ::
  "('w, 'hi, 'hd) env \<Rightarrow> 'w start_api \<Rightarrow> ('w, 'db, 'st) store_api \<Rightarrow>
   ('w, 'hi, 'hd, 'db, 'm) object \<Rightarrow> ('w, 'hi, 'hd, 'db, 'm) object res option" where
  "delete_worker E U S x =
     (if ptr_in x \<noteq> None \<and> ptr_out x \<noteq> None then
        obind (save_and_free_caches E S (proc (loop x))) (\<lambda>s.
        let s = close_ports (eth_of U) [ptr_in x, ptr_out x, ptr_exception x] s in
        Some (Inr ((on_object x s)\<lparr>ptr_in := None, ptr_out := None, ptr_exception := None\<rparr>)))
      else Some (Inr x))"

section \<open>The program of the worker\<close>

text \<open>\<open>std::stoull\<close>: \<open>None\<close> when it throws, for want of digits or out of range.\<close>

definition stoull :: "string \<Rightarrow> 64 word option" where
  "stoull s =
     (case number_sign (dropWhile is_space s) of (neg, r) \<Rightarrow>
      let ds = takeWhile is_digit r in
      if ds = [] then None
      else (case uint64_convert neg (digits_value ds) of (v, ok) \<Rightarrow> if ok then Some v else None))"

definition string_of_bytes :: "byte list \<Rightarrow> string" where
  "string_of_bytes bs = map (\<lambda>b. char_of (unat b)) (cstr bs)"

text \<open>An exit status, or \<open>std::terminate\<close> after an exception that nothing catches.\<close>

datatype exit = Exit int | Terminated

definition classify_target ::
  "('w, 'hi, 'hd) env \<Rightarrow> byte list option \<Rightarrow> byte list \<Rightarrow> ('w, 'hi, 'hd, 'db, 'm) object \<Rightarrow> ('w, 'hi, 'hd, 'db, 'm) object res" where
  "classify_target E type target x =
     (let s = proc (loop x);
          type = (case type of None \<Rightarrow> c_lit ''domain'' | Some t \<Rightarrow> t);
          req_clas = \<lparr>get_categories = replicate MAX_CATEGORIES (replicate CATEGORY_MAX_LEN 0), get_trust_level = 0\<rparr> in
      case instance_of s of
        None \<Rightarrow> Inl NullDeref
      | Some this \<Rightarrow>
          rbind (classify (rpc_of E) this (cstr type) (cstr target) req_clas (world s)) (\<lambda>(success, req_clas, w).
          Inr (on_object x (s\<lparr>world := w\<rparr>))))"

text \<open>
  \<open>inputs\<close> are the clock readings and random numbers of the steps of the loop; without enough of
  them the run is not over (\<open>None\<close>).
\<close>

definition worker_main ::
  "('w, 'hi, 'hd) env \<Rightarrow> 'w os_api \<Rightarrow> 'm prom_api \<Rightarrow> 'w start_api \<Rightarrow> ('w, 'db, 'st) store_api \<Rightarrow> port_addrs \<Rightarrow>
   cpu_time \<Rightarrow> string option \<Rightarrow> BASE_POLICY \<Rightarrow> int \<Rightarrow> (int \<times> int) list \<Rightarrow>
   ('w, 'hi, 'hd, 'db, 'm) loop_state \<Rightarrow> (exit \<times> ('w, 'hi, 'hd, 'db, 'm) loop_state) res option" where
  "worker_main E T P U S A u stat junk now inputs s =
     (case getenv U ''WORKER_ID'' of
        None \<Rightarrow> Some (Inr (Exit 1, s))
      | Some worker_id_str \<Rightarrow>
          (case stoull (string_of_bytes worker_id_str) of
             None \<Rightarrow> Some (Inr (Terminated, s))
           | Some wid \<Rightarrow>
               if getenv U ''METRICS_GATEWAY_ADDRESS'' = None \<or> getenv U ''METRICS_GATEWAY_PORT'' = None then Some (Inr (Exit 1, s))
               else
                 obind (new_worker E P u stat junk wid s) (\<lambda>x.
                 obind (if getenv U ''TEST_REQUEST_POLICY'' \<noteq> None then
                          Some (case instance_of (proc (loop x)) of
                              None \<Rightarrow> Inl NullDeref
                            | Some this \<Rightarrow> rbind (on_proc (requestPolicyFromController E this) (loop x)) (\<lambda>s. Inr (x\<lparr>loop := s\<rparr>)))
                        else Some (Inr x)) (\<lambda>x.
                 obind (case getenv U ''TEST_CLASSIFY_TARGET'' of
                          None \<Rightarrow> Some (Inr x)
                        | Some target \<Rightarrow> Some (classify_target E (getenv U ''TEST_CLASSIFY_TYPE'') target x)) (\<lambda>x.
                 if getenv U ''TEST_REQUEST_POLICY'' \<noteq> None \<or> getenv U ''TEST_CLASSIFY_TARGET'' \<noteq> None then
                   obind (delete_worker E U S x) (\<lambda>x. Some (Inr (Exit 0, loop x)))
                 else
                   obind (initDPDK E U S A x) (\<lambda>y.
                   case y of
                     Throws x \<Rightarrow> obind (delete_worker E U S x) (\<lambda>x. Some (Inr (Exit 1, loop x)))
                   | Normal x \<Rightarrow>
                       obind (Some (loop_run E T P A inputs (MainLoop_start now (loop x)))) (\<lambda>(pc, s).
                       if pc = Finished then obind (delete_worker E U S (x\<lparr>loop := s\<rparr>)) (\<lambda>x. Some (Inr (Exit 0, loop x)))
                       else None)))))))"

section \<open>The stand-alone filter\<close>

text \<open>Its \<open>forward_to_out\<close> sends the packets as they are; the static functions of \<open>main.c\<close> have the prefix of the program.\<close>

definition FORWARD_TO_OUT_BURST_SIZE :: "16 word" where "FORWARD_TO_OUT_BURST_SIZE = 32"

definition filter_send ::
  "'w net_api \<Rightarrow> addr \<Rightarrow> 16 word \<Rightarrow> addr \<Rightarrow> ('w, 'hi, 'hd, 'db) proc_state \<Rightarrow> ('w, 'hi, 'hd, 'db) proc_state res" where
  "filter_send N outgoing_port q a s =
     rbind (deref (mbufs s) a) (\<lambda>pkt.
     case rte_eth_tx_burst N (port_id (ports s outgoing_port)) q pkt (world s) of (ret, w) \<Rightarrow>
     let s = s\<lparr>world := w\<rparr> in
     if ret < 1 then rte_pktmbuf_free a s
     else Inr (s\<lparr>mbufs := (mbufs s)(a := None), sent := sent s @
       [(a, \<lparr>on_port = port_id (ports s outgoing_port), on_queue = q, contents = pkt\<rparr>)]\<rparr>))"

definition filter_forward_to_out ::
  "'w net_api \<Rightarrow> addr \<Rightarrow> addr \<Rightarrow> 16 word \<Rightarrow> ('w, 'hi, 'hd, 'db) proc_state \<Rightarrow> ('w, 'hi, 'hd, 'db) proc_state res" where
  "filter_forward_to_out N incoming_port outgoing_port q s =
     (case rx_packets N incoming_port q FORWARD_TO_OUT_BURST_SIZE s of (pkts, s) \<Rightarrow>
      c_fold pkts (filter_send N outgoing_port q) s)"

text \<open>\<open>signal_handler\<close>: what it leaves in \<open>running\<close>.\<close>

definition filter_signal_handler :: "int \<Rightarrow> bool \<Rightarrow> bool" where
  "filter_signal_handler signum running = (if signum = 2 \<or> signum = 15 then False else running)"

definition filter_iteration ::
  "('w, 'hi, 'hd) env \<Rightarrow> 'w os_api \<Rightarrow> port_addrs \<Rightarrow> BASE_POLICY \<Rightarrow>
   ('w, 'hi, 'hd, 'db) proc_state \<times> 64 word \<times> save_thread list \<Rightarrow>
   (('w, 'hi, 'hd, 'db) proc_state \<times> 64 word \<times> save_thread list) res" where
  "filter_iteration E T A policy x =
     (case x of (s, counter, saves) \<Rightarrow>
      rbind (filter_forward_to_out (net_of E) (port_exception A) (port_in A) 0 s) (\<lambda>s.
      rbind (pakage_processing E (port_in A) (port_out A) (port_exception A) 0 32 policy False s) (\<lambda>s.
      rbind (filter_forward_to_out (net_of E) (port_out A) (port_in A) 0 s) (\<lambda>s.
      let counter = counter + 1 in
      if 10000 \<le> counter then
        (case manage_timers T (world s, saves) of (w, saves) \<Rightarrow> Inr (s\<lparr>world := w\<rparr>, 0, saves))
      else Inr (s, counter, saves)))))"

text \<open>
  The loop, with the signals that arrive during each iteration.  Without enough of them it is still running (\<open>None\<close>).
\<close>

fun filter_loop ::
  "('w, 'hi, 'hd) env \<Rightarrow> 'w os_api \<Rightarrow> port_addrs \<Rightarrow> BASE_POLICY \<Rightarrow> int list list \<Rightarrow> bool \<Rightarrow>
   ('w, 'hi, 'hd, 'db) proc_state \<times> 64 word \<times> save_thread list \<Rightarrow>
   (('w, 'hi, 'hd, 'db) proc_state \<times> 64 word \<times> save_thread list) res option" where
  "filter_loop E T A policy signals False x = Some (Inr x)"
| "filter_loop E T A policy [] True x = None"
| "filter_loop E T A policy (arrived # signals) True x =
     obind (Some (filter_iteration E T A policy x))
       (filter_loop E T A policy signals (fold filter_signal_handler arrived True))"

text \<open>
  \<open>handlers\<close> tells whether the two signal handlers can be set, \<open>virt_ports\<close> is a flag of the build, \<open>policy\<close> is
  what the uninitialised variable on the stack holds.
\<close>

definition filter_main ::
  "('w, 'hi, 'hd) env \<Rightarrow> 'w os_api \<Rightarrow> 'w start_api \<Rightarrow> ('w, 'db, 'st) store_api \<Rightarrow> port_addrs \<Rightarrow> bool \<Rightarrow> bool \<Rightarrow> BASE_POLICY \<Rightarrow>
   int list list \<Rightarrow> ('w, 'hi, 'hd, 'db) proc_state \<Rightarrow> (int \<times> ('w, 'hi, 'hd, 'db) proc_state) res option" where
  "filter_main E T U S A handlers virt_ports policy signals s =
     (if \<not> handlers then Some (Inr (1, s))
      else
        (case rte_eal_init U (world s) of (ret, w) \<Rightarrow>
         let s = s\<lparr>world := w\<rparr> in
         if ret < 0 then Some (Inr (1, s))
         else
           (case rte_pktmbuf_pool_create U (world s) of (pool, w) \<Rightarrow>
            let s = s\<lparr>world := w\<rparr> in
            if pool = None then Some (Inr (- 1, s))
            else
              obind (init_caches E S s) (\<lambda>s.
              obind (Some (describe_port (init_struct_af_xdp_port (af_packet U) (calloc_succeeds U (world s))
                (c_lit (if virt_ports then ''veth0'' else ''eth0'')) pool) (port_in A) s)) (\<lambda>(p_in, s).
              obind (Some (describe_port (init_struct_af_xdp_port (af_packet U) (calloc_succeeds U (world s))
                (c_lit (if virt_ports then ''veth1'' else ''eth1'')) pool) (port_out A) s)) (\<lambda>(p_out, s).
              obind (Some (describe_port (init_struct_tap_port (calloc_succeeds U (world s)) (c_lit ''tap0'') pool) (port_exception A) s)) (\<lambda>(p_exc, s).
              if p_in = None \<or> p_out = None \<or> p_exc = None then Some (Inr (1, s))
              else
                obind (Some (init_ports (eth_of U) [p_in, p_out, p_exc] s)) (\<lambda>(r, s).
                if r \<noteq> 0 then Some (Inr (1, s))
                else
                  obind (Some (start_ports (eth_of U) [p_in, p_out, p_exc] s)) (\<lambda>(r, s).
                  if r \<noteq> 0 then Some (Inr (1, s))
                  else
                    obind (filter_loop E T A policy signals True (s, 0, [])) (\<lambda>(s, counter, saves).
                    obind (save_and_free_caches E S s) (\<lambda>s.
                    Some (Inr (0, close_ports (eth_of U) [p_in, p_out, p_exc] s)))))))))))))"

section \<open>What a failed start leaves behind\<close>

definition device_names :: "(addr \<Rightarrow> net_port) \<Rightarrow> addr list \<Rightarrow> byte list set" where
  "device_names ps as = (\<lambda>a. cstr (dev_name (ps a))) ` set as"

text \<open>
  The creation of the ports stops at the first that fails: the devices of the ports before it exist, that of the
  failed one and of the ones after it do not.
\<close>

lemma init_ports_devices:
  assumes "eth_removable N vdevs" "distinct as" "list_all (\<lambda>a. nul_term (dev_name (ports s a))) as"
  shows "\<exists>r s' k. init_ports N (map Some as) s = Inr (r, s') \<and> k \<le> length as \<and> (r = 0 \<longleftrightarrow> k = length as) \<and>
     vdevs (world s') = vdevs (world s) \<union> device_names (ports s) (take k as) \<and>
     ip_state s' = ip_state s \<and> dns_state s' = dns_state s"
  using assms(2,3)
proof (induction as arbitrary: s)
  case Nil
  show ?case by (simp add: device_names_def)
next
  case (Cons a as)
  obtain r p w where run: "net_port_init N (Some (ports s a)) (world s) = Inr (r, p, w)"
    and out: "init_outcome vdevs N (ports s a) (world s) (r, p, w)"
    using eth_removable.net_port_init_run [OF assms(1), of "ports s a" "world s"] Cons.prems(2)
    by (auto split: sum.splits)
  let ?s = "s\<lparr>ports := (ports s)(a := p), world := w\<rparr>"
  show ?case
  proof (cases "r = 0")
    case False
    then have "vdevs w = vdevs (world s)" using out by (simp add: init_outcome_def)
    with run False show ?thesis
      by (intro exI [of _ r] exI [of _ ?s] exI [of _ "0 :: nat"]) (simp add: Let_def device_names_def)
  next
    case True
    then have w: "vdevs w = insert (cstr (dev_name (ports s a))) (vdevs (world s))" using out by (simp add: init_outcome_def)
    have rest: "ports ?s b = ports s b" if "b \<in> set as" for b using that Cons.prems(1) by auto
    have d: "distinct as" using Cons.prems(1) by simp
    have names: "list_all (\<lambda>b. nul_term (dev_name (ports ?s b))) as"
      using Cons.prems(2) rest by (simp add: list_all_iff)
    obtain r' s' k where IH: "init_ports N (map Some as) ?s = Inr (r', s')" "k \<le> length as" "r' = 0 \<longleftrightarrow> k = length as"
      "vdevs (world s') = vdevs (world ?s) \<union> device_names (ports ?s) (take k as)" "ip_state s' = ip_state ?s" "dns_state s' = dns_state ?s"
      using Cons.IH [OF d names] by (elim exE conjE) (rule that)
    have "device_names (ports ?s) (take k as) = device_names (ports s) (take k as)"
      using rest in_set_takeD [of _ k as] by (force simp: device_names_def image_iff)
    with IH run True w show ?thesis
      by (intro exI [of _ r'] exI [of _ s'] exI [of _ "Suc k"]) (simp add: Let_def device_names_def)
  qed
qed

text \<open>When no memory is left for a description, \<open>initDPDK\<close> dereferences a null pointer.\<close>

lemma initDPDK_out_of_memory:
  assumes "rte_eal_init U (world (proc (loop x))) = (0, w)" "rte_pktmbuf_pool_create U w = (Some pool, w')"
    and "getenv U ''DPDK_PORT_IN'' = Some iface_in" "getenv U ''DPDK_PORT_OUT'' = Some iface_out"
    and "\<not> calloc_succeeds U w'"
  shows "initDPDK E U S A x = Some (Inl NullDeref)"
  using assms
  by (simp add: initDPDK_def Let_def describe_port_def init_struct_af_xdp_port_def init_struct_tap_port_def net_port_init_def)

text \<open>The destructor of a worker whose caches were never created only closes its ports.\<close>

lemma save_and_free_uncreated:
  assumes "cache_hash (dns_state s) = None" "cache_hash (ip_state s) = None"
  shows "save_and_free_caches E S s = Some (Inr s)"
proof -
  have "s\<lparr>dns_state := dns_state s\<rparr> = s" "s\<lparr>ip_state := ip_state s\<rparr> = s" "s\<lparr>world := world s, dns_state := dns_state s\<rparr> = s"
    "s\<lparr>world := world s, ip_state := ip_state s\<rparr> = s"
    by (cases s; simp)+
  with assms show ?thesis
    by (simp add: save_and_free_caches_def save_all_cache_to_sqlite_def save_all_cache_ip_to_sqlite_def
        free_dns_cache_def free_ip_cache_def Let_def)
qed

end
