(* ===== verification/Startup_Props.thy ===== *)
theory Startup_Props
  imports Startup
begin

text \<open>
  The start of the worker establishes what its main loop relies on: lemmas about the creation of the ports and of
  the caches, put together for \<open>Worker::initDPDK\<close>.
\<close>

section \<open>Ports\<close>

text \<open>The calls of the device library free no memory of the program, and a hardware address has six bytes.\<close>

locale start_eth = eth_device N vdevs for N :: "'w eth_api" and vdevs +
  fixes live :: "'w \<Rightarrow> addr set"
  assumes vdev_live [simp]: "live (snd (rte_vdev_init N name args w)) = live w" "live (snd (rte_vdev_uninit N name w)) = live w"
    and setup_live [simp]: "live (snd (rte_eth_dev_configure N p m n w)) = live w"
      "live (snd (rte_eth_rx_queue_setup N p q d i pool w)) = live w" "live (snd (rte_eth_tx_queue_setup N p q d i w)) = live w"
    and start_live [simp]: "live (snd (rte_eth_dev_start N p w)) = live w" "live (snd (rte_eth_promiscuous_enable N p w)) = live w"
    and mac_length: "length (snd (rte_eth_macaddr_get N p w)) = 6"

text \<open>A description from which a port can be made.\<close>

definition port_ready :: "net_port \<Rightarrow> bool" where
  "port_ready p \<longleftrightarrow> nul_term (dev_name p) \<and> length (neighbor_mac p) = 6"

lemma describes_ready: "describes name args iface pool p \<Longrightarrow> port_ready p"
  by (simp add: describes_def wf_net_port_def port_ready_def)

context start_eth
begin

lemma net_port_init_usable:
  assumes "port_ready port"
  shows "case net_port_init N (Some port) w of Inl e \<Rightarrow> False
    | Inr (r, p, w') \<Rightarrow> live w' = live w \<and> (r = 0 \<longrightarrow> wf_port p)"
proof -
  have name: "nul_term (dev_name port)" using assms by (simp add: port_ready_def)
  let ?w1 = "snd (rte_vdev_init N (dev_name port) (dev_args port) w)"
  from name show ?thesis
  proof (cases rule: find_port_result [of "dev_name port" ?w1])
    case (1 p)
    then show ?thesis
      using assms mac_length
      by (simp add: net_port_init_def split_beta Let_def uninit_and_return_def wf_port_def port_ready_def)
  next
    case (2 r)
    then show ?thesis by (simp add: net_port_init_def split_beta uninit_and_return_def)
  qed
qed

lemma init_ports_usable:
  assumes "distinct as" "list_all (\<lambda>a. port_ready (ports s a)) as"
  shows "\<exists>r s'. init_ports N (map Some as) s = Inr (r, s') \<and> live (world s') = live (world s) \<and>
    s' = s\<lparr>world := world s', ports := ports s'\<rparr> \<and> (\<forall>b. b \<notin> set as \<longrightarrow> ports s' b = ports s b) \<and>
    (r = 0 \<longrightarrow> list_all (\<lambda>a. wf_port (ports s' a)) as)"
  using assms
proof (induction as arbitrary: s)
  case (Cons a as)
  obtain r p w where run: "net_port_init N (Some (ports s a)) (world s) = Inr (r, p, w)"
    and p: "live w = live (world s)" "r = 0 \<longrightarrow> wf_port p"
    using net_port_init_usable [of "ports s a" "world s"] Cons.prems(2) by (auto split: sum.splits)
  let ?s = "s\<lparr>ports := (ports s)(a := p), world := w\<rparr>"
  show ?case
  proof (cases "r = 0")
    case False
    with run p show ?thesis by (intro exI [of _ r] exI [of _ ?s]) (cases s; simp add: Let_def fun_upd_def)
  next
    case True
    have "list_all (\<lambda>b. port_ready (ports ?s b)) as"
      using Cons.prems by (auto simp: list_all_iff)
    then obtain r' s' where IH: "init_ports N (map Some as) ?s = Inr (r', s')" "live (world s') = live (world ?s)"
      "s' = ?s\<lparr>world := world s', ports := ports s'\<rparr>" "\<forall>b. b \<notin> set as \<longrightarrow> ports s' b = ports ?s b"
      "r' = 0 \<longrightarrow> list_all (\<lambda>a. wf_port (ports s' a)) as"
      using Cons.IH [of ?s] Cons.prems(1) by (auto simp del: init_ports.simps)
    have "s' = s\<lparr>world := world s', ports := ports s'\<rparr>" using IH(3) by simp
    moreover have "ports s' a = p" using IH(4) Cons.prems(1) by simp
    ultimately show ?thesis
      using run True p IH by (intro exI [of _ r'] exI [of _ s']) (simp add: Let_def)
  qed
qed simp

lemma net_port_start_live: "live (snd (net_port_start N p w)) = live w"
  by (simp add: net_port_start_def split_beta)

lemma start_ports_usable:
  "\<exists>r s'. start_ports N (map Some as) s = Inr (r, s') \<and> live (world s') = live (world s) \<and> s' = s\<lparr>world := world s'\<rparr>"
proof (induction as arbitrary: s)
  case (Cons a as)
  obtain r w where run: "net_port_start N (port_id (ports s a)) (world s) = (r, w)" by fastforce
  have w: "live w = live (world s)"
    using net_port_start_live [of "port_id (ports s a)" "world s"] run by simp
  show ?case
  proof (cases "r = 0")
    case False
    with run w show ?thesis by (intro exI [of _ r] exI [of _ "s\<lparr>world := w\<rparr>"]) (simp add: Let_def)
  next
    case True
    obtain r' s' where "start_ports N (map Some as) (s\<lparr>world := w\<rparr>) = Inr (r', s')" "live (world s') = live (world (s\<lparr>world := w\<rparr>))"
      "s' = s\<lparr>world := w\<rparr>\<lparr>world := world s'\<rparr>"
      using Cons.IH [of "s\<lparr>world := w\<rparr>"] by (elim exE conjE) (rule that)
    with run w True show ?thesis by (intro exI [of _ r'] exI [of _ s']) (simp add: Let_def)
  qed
qed simp

end

section \<open>Caches\<close>

text \<open>
  What the start relies on beyond the main loop: tables of DPDK are created empty, no call frees memory of the program,
  there is memory for the descriptions of the ports, the first column of the tables in the file is a text, and
  the values of environment variables are terminated.
\<close>

locale start_env = worker_env E live si sd T + start_eth "eth_of U" vdevs live + sqlite_reads "sqlite_of S" left reads
  for E :: "('w, 'hi, 'hd) env" and live si sd T and U :: "'w start_api" and S :: "('w, 'db, 'st) store_api"
    and vdevs left reads +
  assumes tables: "table_creation (ip_api E) si live" "table_creation (dns_api E) sd live"
    and open_live: "live (snd (snd (sqlite3_open (sqlite_of S) f w))) = live w"
    and text_column: "sqlite3_column_text (sqlite_of S) st 0 \<noteq> None"
    and memory: "memory_ok (ip_mem S)" "memory_ok (dns_mem S)" "calloc_succeeds U w"
    and eal_live: "live (snd (rte_eal_init U w)) = live w"
    and pool_live: "live (snd (rte_pktmbuf_pool_create U w)) = live w"
    and getenv_term: "getenv U v = Some text \<Longrightarrow> nul_term text"
begin

abbreviation "uncreated s \<equiv> cache_hash (ip_state s) = None \<and> cache_hash (dns_state s) = None"

lemma init_caches_run:
  assumes ok: "proc_ok live si sd s" and none: "uncreated s"
  shows "\<exists>w1 w2 d i. init_caches E S s = Some (Inr (s\<lparr>world := w2, dns_state := d, ip_state := i\<rparr>)) \<and>
    proc_ok live si sd (s\<lparr>world := w2, dns_state := d, ip_state := i\<rparr>) \<and>
    created sd live key_domain (load_time (dpdk_of E) (dns_api E) (sqlite_of S) ''cache.db'' (world s)) (rte_get_timer_hz (dpdk_of E))
      (fst (rte_hash_create (dns_api E) (world s)) = None) (world s, dns_state s) (w1, d) \<and>
    created si live key (load_time (dpdk_of E) (ip_api E) (sqlite_of S) ''ip_cache.db'' w1) (rte_get_timer_hz (dpdk_of E))
      (fst (rte_hash_create (ip_api E) w1) = None) (w1, ip_state s) (w2, i)"
proof -
  note dns_store = dns_store.intro [OF dns.dns_env_axioms sqlite_reads_axioms]
    and ip_store = ip_store.intro [OF ip.ip_env_axioms sqlite_reads_axioms]
  have d: "cache_ok sd live key_domain (world s, dns_state s)" "cache_hash (dns_state s) = None"
    using ok none by (simp_all add: proc_ok_def)
  obtain w1 c1 where run1: "init_dns_cache (dpdk_of E) (dns_api E) (sqlite_of S) (dns_mem S) (world s, dns_state s) = Some (Inr (w1, c1))"
    and made1: "created sd live key_domain (load_time (dpdk_of E) (dns_api E) (sqlite_of S) ''cache.db'' (world s))
      (rte_get_timer_hz (dpdk_of E)) (fst (rte_hash_create (dns_api E) (world s)) = None) (world s, dns_state s) (w1, c1)"
    using dns_store.init_dns_cache_run [OF dns_store d tables(2) open_live memory(2) text_column] by (elim exE conjE) (rule that)
  have ok1: "proc_ok live si sd (s\<lparr>world := w1, dns_state := c1\<rparr>)"
    using made1 by (intro proc_ok_dns [OF ok]) (simp_all add: created_def)
  then have i: "cache_ok si live key (w1, ip_state s)" "cache_hash (ip_state s) = None"
    using none by (simp_all add: proc_ok_def)
  obtain w2 c2 where run2: "init_ip_cache (dpdk_of E) (ip_api E) (sqlite_of S) (ip_mem S) (w1, ip_state s) = Some (Inr (w2, c2))"
    and made2: "created si live key (load_time (dpdk_of E) (ip_api E) (sqlite_of S) ''ip_cache.db'' w1)
      (rte_get_timer_hz (dpdk_of E)) (fst (rte_hash_create (ip_api E) w1) = None) (w1, ip_state s) (w2, c2)"
    using ip_store.init_ip_cache_run [OF ip_store i tables(1) open_live memory(1) text_column] by (elim exE conjE) (rule that)
  have eq: "s\<lparr>world := w1, dns_state := c1\<rparr>\<lparr>world := w2, ip_state := c2\<rparr> = s\<lparr>world := w2, dns_state := c1, ip_state := c2\<rparr>"
    by (cases s) simp
  have "proc_ok live si sd (s\<lparr>world := w2, dns_state := c1, ip_state := c2\<rparr>)"
    using made2 unfolding eq [symmetric] by (intro proc_ok_ip [OF ok1]) (simp_all add: created_def)
  moreover have "init_caches E S s = Some (Inr (s\<lparr>world := w2, dns_state := c1, ip_state := c2\<rparr>))"
    using run1 run2 eq by (simp add: init_caches_def)
  ultimately show ?thesis
    using made1 made2 by - (rule exI [of _ w1], rule exI [of _ w2], rule exI [of _ c1], rule exI [of _ c2], intro conjI)
qed

end

section \<open>The start\<close>

text \<open>The two ways in which \<open>initDPDK\<close> can end.\<close>

definition start_failed ::
  "('w, 'hi, 'hd, 'db, 'm) object \<Rightarrow> ('w \<Rightarrow> addr set) \<Rightarrow> ('w, 'hi, 'hd, 'db, 'm) object \<Rightarrow> bool" where
  "start_failed x live y \<longleftrightarrow>
     live (world (proc (loop y))) = live (world (proc (loop x))) \<and>
     ip_state (proc (loop y)) = ip_state (proc (loop x)) \<and> dns_state (proc (loop y)) = dns_state (proc (loop x))"

definition started ::
  "('w, 'hi, 'hd, 'db, 'm) object \<Rightarrow> port_addrs \<Rightarrow> ('w, 'hi, 'hd, 'db, 'm) object \<Rightarrow> bool" where
  "started x A y \<longleftrightarrow>
     ptr_in y = Some (port_in A) \<and> ptr_out y = Some (port_out A) \<and> ptr_exception y = Some (port_exception A) \<and>
     list_all (\<lambda>a. wf_port (ports (proc (loop y)) a)) [port_in A, port_out A, port_exception A] \<and>
     loop y = (loop x)\<lparr>proc := proc (loop y)\<rparr> \<and> mbufs (proc (loop y)) = mbufs (proc (loop x)) \<and>
     sent (proc (loop y)) = sent (proc (loop x)) \<and> freed (proc (loop y)) = freed (proc (loop x)) \<and>
     instance_of (proc (loop y)) = instance_of (proc (loop x))"

context start_env
begin

text \<open>The ports of a start with both interfaces named.\<close>

lemma describe_ports:
  assumes "getenv U v1 = Some i1" "getenv U v2 = Some i2"
  obtains p q r where "\<And>s. describe_port (init_struct_af_xdp_port (af_packet U) (calloc_succeeds U w1) i1 pool) a s = Inr (Some a, s\<lparr>ports := (ports s)(a := p)\<rparr>)"
    "\<And>s. describe_port (init_struct_af_xdp_port (af_packet U) (calloc_succeeds U w2) i2 pool) b s = Inr (Some b, s\<lparr>ports := (ports s)(b := q)\<rparr>)"
    "\<And>s. describe_port (init_struct_tap_port (calloc_succeeds U w3) (c_lit ''tap0'') pool) c s = Inr (Some c, s\<lparr>ports := (ports s)(c := r)\<rparr>)"
    "port_ready p" "port_ready q" "port_ready r"
proof -
  have nt: "nul_term i1" "nul_term i2" "nul_term (c_lit ''tap0'')"
    using assms getenv_term by auto
  obtain p where p: "init_struct_af_xdp_port (af_packet U) True i1 pool = Inr (Some p)" "port_ready p"
    using ports_described [OF nt(1), of pool "af_packet U"] describes_ready by metis
  obtain q where q: "init_struct_af_xdp_port (af_packet U) True i2 pool = Inr (Some q)" "port_ready q"
    using ports_described [OF nt(2), of pool "af_packet U"] describes_ready by metis
  obtain r where r: "init_struct_tap_port True (c_lit ''tap0'') pool = Inr (Some r)" "port_ready r"
    using ports_described [OF nt(3), of pool] describes_ready by metis
  show ?thesis
    using that [of p q r] p q r memory(3) by (simp add: describe_port_def)
qed

end

context start_env
begin

text \<open>What follows once the pool exists and both interfaces are named.\<close>

lemma start_ports_and_caches:
  assumes s: "proc_ok live si sd s" "uncreated s" and as: "distinct [a, b, c]"
    and ready: "list_all (\<lambda>a. port_ready (ports s a)) [a, b, c]"
  obtains (init) r s1 where "init_ports (eth_of U) [Some a, Some b, Some c] s = Inr (r, s1)" "r \<noteq> 0"
      "live (world s1) = live (world s)" "ip_state s1 = ip_state s" "dns_state s1 = dns_state s"
  | (start) r s1 s2 where "init_ports (eth_of U) [Some a, Some b, Some c] s = Inr (0, s1)"
      "start_ports (eth_of U) [Some a, Some b, Some c] s1 = Inr (r, s2)" "r \<noteq> 0"
      "live (world s2) = live (world s)" "ip_state s2 = ip_state s" "dns_state s2 = dns_state s"
  | (up) s1 s2 s3 where "init_ports (eth_of U) [Some a, Some b, Some c] s = Inr (0, s1)"
      "start_ports (eth_of U) [Some a, Some b, Some c] s1 = Inr (0, s2)" "init_caches E S s2 = Some (Inr s3)"
      "list_all (\<lambda>a. wf_port (ports s3 a)) [a, b, c]" "proc_ok live si sd s3"
      "mbufs s3 = mbufs s" "sent s3 = sent s" "freed s3 = freed s" "instance_of s3 = instance_of s"
proof -
  obtain r s1 where ini: "init_ports (eth_of U) [Some a, Some b, Some c] s = Inr (r, s1)" "live (world s1) = live (world s)"
    "s1 = s\<lparr>world := world s1, ports := ports s1\<rparr>" "r = 0 \<longrightarrow> list_all (\<lambda>a. wf_port (ports s1 a)) [a, b, c]"
    using init_ports_usable [OF as ready] by (simp only: list.map) (elim exE conjE, rule that)
  obtain r2 s2 where sta: "start_ports (eth_of U) [Some a, Some b, Some c] s1 = Inr (r2, s2)"
    "live (world s2) = live (world s1)" "s2 = s1\<lparr>world := world s2\<rparr>"
    using start_ports_usable [of "[a, b, c]" s1] by (simp only: list.map) (elim exE conjE, rule that)
  have keep1: "ip_state s1 = ip_state s" "dns_state s1 = dns_state s" "mbufs s1 = mbufs s" "sent s1 = sent s" "freed s1 = freed s"
    "instance_of s1 = instance_of s"
    using arg_cong [OF ini(3), of ip_state] arg_cong [OF ini(3), of dns_state] arg_cong [OF ini(3), of mbufs]
      arg_cong [OF ini(3), of sent] arg_cong [OF ini(3), of freed] arg_cong [OF ini(3), of instance_of] by simp_all
  have keep2: "ip_state s2 = ip_state s" "dns_state s2 = dns_state s" "mbufs s2 = mbufs s" "sent s2 = sent s" "freed s2 = freed s"
    "instance_of s2 = instance_of s" "ports s2 = ports s1"
    using keep1 arg_cong [OF sta(3), of ip_state] arg_cong [OF sta(3), of dns_state] arg_cong [OF sta(3), of mbufs]
      arg_cong [OF sta(3), of sent] arg_cong [OF sta(3), of freed] arg_cong [OF sta(3), of instance_of]
      arg_cong [OF sta(3), of ports] by simp_all
  have s2: "proc_ok live si sd s2" "uncreated s2"
    using s keep2 sta(2) ini(2) by (simp_all add: proc_ok_def cache_ok_def)
  consider "r \<noteq> 0" | "r = 0" "r2 \<noteq> 0" | "r = 0" "r2 = 0" by blast
  then show ?thesis
  proof cases
    case 1
    with ini(1,2) keep1 show ?thesis by (intro init)
  next
    case 2
    with ini(1,2) sta(1,2) keep2 show ?thesis
      by (intro start [of s1 r2 s2]) (simp_all del: init_ports.simps start_ports.simps)
  next
    case 3
    obtain w d i where "init_caches E S s2 = Some (Inr (s2\<lparr>world := w, dns_state := d, ip_state := i\<rparr>))"
      "proc_ok live si sd (s2\<lparr>world := w, dns_state := d, ip_state := i\<rparr>)"
      using init_caches_run [OF s2] by (elim exE conjE) (rule that)
    with 3 ini(1,4) sta(1) keep2 show ?thesis
      by (intro up [of s1 s2 "s2\<lparr>world := w, dns_state := d, ip_state := i\<rparr>"]) (simp_all del: init_ports.simps start_ports.simps)
  qed
qed

end

context start_env
begin

lemma initDPDK_outcome:
  assumes ok: "proc_ok live si sd (proc (loop x))" and none: "uncreated (proc (loop x))"
    and A: "distinct [port_in A, port_out A, port_exception A]"
  shows "\<exists>y. initDPDK E U S A x = Some (Inr (Throws y)) \<and> start_failed x live y \<or>
    initDPDK E U S A x = Some (Inr (Normal y)) \<and> started x A y \<and> proc_ok live si sd (proc (loop y))"
proof -
  let ?s = "proc (loop x)"
  obtain ret w1 where eal: "rte_eal_init U (world ?s) = (ret, w1)" by fastforce
  obtain pool w2 where pool: "rte_pktmbuf_pool_create U w1 = (pool, w2)" by fastforce
  have live: "live w1 = live (world ?s)" "live w2 = live (world ?s)"
    using eal_live [of "world ?s"] pool_live [of w1] eal pool by simp_all
  consider "ret < 0" | "0 \<le> ret" "pool = None"
    | "0 \<le> ret" "pool \<noteq> None" "getenv U ''DPDK_PORT_IN'' = None \<or> getenv U ''DPDK_PORT_OUT'' = None"
    | z i1 i2 where "0 \<le> ret" "pool = Some z" "getenv U ''DPDK_PORT_IN'' = Some i1" "getenv U ''DPDK_PORT_OUT'' = Some i2"
    by fastforce
  then show ?thesis
  proof cases
    case 1
    with eal live show ?thesis by (simp add: initDPDK_def Let_def start_failed_def on_object_def)
  next
    case 2
    with eal pool live show ?thesis by (simp add: initDPDK_def Let_def start_failed_def on_object_def)
  next
    case 3
    with eal pool live show ?thesis
      by (auto simp: initDPDK_def Let_def start_failed_def on_object_def split: option.splits)
  next
    case 4
    obtain p q r where describe: "\<And>w (s :: ('w, 'hi, 'hd, 'db) proc_state). describe_port (init_struct_af_xdp_port (af_packet U) (calloc_succeeds U w) i1 (Some z)) (port_in A) s =
        Inr (Some (port_in A), s\<lparr>ports := (ports s)(port_in A := p)\<rparr>)"
      "\<And>w (s :: ('w, 'hi, 'hd, 'db) proc_state). describe_port (init_struct_af_xdp_port (af_packet U) (calloc_succeeds U w) i2 (Some z)) (port_out A) s =
        Inr (Some (port_out A), s\<lparr>ports := (ports s)(port_out A := q)\<rparr>)"
      "\<And>w (s :: ('w, 'hi, 'hd, 'db) proc_state). describe_port (init_struct_tap_port (calloc_succeeds U w) (c_lit ''tap0'') (Some z)) (port_exception A) s =
        Inr (Some (port_exception A), s\<lparr>ports := (ports s)(port_exception A := r)\<rparr>)"
      and ready: "port_ready p" "port_ready q" "port_ready r"
      using describe_ports [OF 4(3,4)] memory(3) by metis
    let ?t = "?s\<lparr>world := w2, ports := (ports ?s)(port_in A := p, port_out A := q, port_exception A := r)\<rparr>"
    let ?x = "x\<lparr>ptr_in := Some (port_in A), ptr_out := Some (port_out A), ptr_exception := Some (port_exception A)\<rparr>"
    let ?ps = "[Some (port_in A), Some (port_out A), Some (port_exception A)]"
    have run: "initDPDK E U S A x =
        obind (Some (init_ports (eth_of U) ?ps ?t)) (\<lambda>(r, s).
        if r \<noteq> 0 then Some (Inr (Throws (on_object ?x s)))
        else
          obind (Some (start_ports (eth_of U) ?ps s)) (\<lambda>(r, s).
          if r \<noteq> 0 then Some (Inr (Throws (on_object ?x s)))
          else obind (init_caches E S s) (\<lambda>s. Some (Inr (Normal (on_object ?x s))))))"
      using 4 eal pool by (simp add: initDPDK_def Let_def describe del: init_ports.simps start_ports.simps cong: if_cong)
    have t: "proc_ok live si sd ?t" "uncreated ?t" "list_all (\<lambda>a. port_ready (ports ?t a)) [port_in A, port_out A, port_exception A]"
      using ok none live(2) A ready by (simp_all add: proc_ok_def cache_ok_def)
    from t(1,2) A t(3) show ?thesis
    proof (cases rule: start_ports_and_caches)
      case (init k s1)
      have "start_failed x live (on_object ?x s1)"
        using live(2) init(3-5) by (simp add: start_failed_def on_object_def)
      with run init(1,2) show ?thesis by (auto simp del: init_ports.simps start_ports.simps)
    next
      case (start k s1 s2)
      have "start_failed x live (on_object ?x s2)"
        using live(2) start(4-6) by (simp add: start_failed_def on_object_def)
      with run start(1-3) show ?thesis by (auto simp del: init_ports.simps start_ports.simps)
    next
      case (up s1 s2 s3)
      have "started x A (on_object ?x s3)" "proc_ok live si sd (proc (loop (on_object ?x s3)))"
        using up(4-9) by (simp_all add: started_def on_object_def)
      with run up(1-3) show ?thesis by (auto simp del: init_ports.simps start_ports.simps)
    qed
  qed
qed

end

section \<open>A concrete start\<close>

text \<open>The world of the sample libraries, with the table of ports of the device library.\<close>

record start_world = ref_world +
  devices :: "byte list option list"

definition on_devices :: "(byte list option list \<Rightarrow> 'r \<times> byte list option list) \<Rightarrow> start_world \<Rightarrow> 'r \<times> start_world" where
  "on_devices f w = (case f (devices w) of (r, d) \<Rightarrow> (r, w\<lparr>devices := d\<rparr>))"

definition start_devices :: "start_world eth_api" where
  "start_devices =
     \<lparr>rte_eth_dev_count_avail = (\<lambda>w. rte_eth_dev_count_avail ref_eth (devices w)),
      rte_eth_dev_info_get = (\<lambda>p w. rte_eth_dev_info_get ref_eth p (devices w)),
      rte_eth_dev_get_name_by_port = (\<lambda>p w. rte_eth_dev_get_name_by_port ref_eth p (devices w)),
      rte_eth_dev_is_valid_port = (\<lambda>p w. rte_eth_dev_is_valid_port ref_eth p (devices w)),
      rte_vdev_init = (\<lambda>name args. on_devices (rte_vdev_init ref_eth name args)),
      rte_vdev_uninit = (\<lambda>name. on_devices (rte_vdev_uninit ref_eth name)),
      rte_eth_dev_socket_id = (\<lambda>p w. 0),
      rte_eth_dev_configure = (\<lambda>p m n. on_devices (rte_eth_dev_configure ref_eth p m n)),
      rte_eth_rx_queue_setup = (\<lambda>p q d i pool. on_devices (rte_eth_rx_queue_setup ref_eth p q d i pool)),
      rte_eth_tx_queue_setup = (\<lambda>p q d i. on_devices (rte_eth_tx_queue_setup ref_eth p q d i)),
      rte_eth_macaddr_get = (\<lambda>p w. rte_eth_macaddr_get ref_eth p (devices w)),
      rte_eth_dev_start = (\<lambda>p. on_devices (rte_eth_dev_start ref_eth p)),
      rte_eth_promiscuous_enable = (\<lambda>p. on_devices (rte_eth_promiscuous_enable ref_eth p)),
      rte_eth_dev_stop = (\<lambda>p. on_devices (rte_eth_dev_stop ref_eth p)),
      rte_eth_dev_close = (\<lambda>p. on_devices (rte_eth_dev_close ref_eth p))\<rparr>"

lemma live_devices [simp]: "ref_live (w\<lparr>devices := d\<rparr>) = ref_live w"
  by (simp add: ref_live_def)

interpretation ref_start_eth: start_eth start_devices "\<lambda>w. ref_vdevs (devices w)" ref_live
proof
  fix name args p m n q d i pool r w w'
  show "rte_vdev_init start_devices name args w = (r, w') \<Longrightarrow>
      ref_vdevs (devices w') = (if r < 0 then ref_vdevs (devices w) else insert (cstr name) (ref_vdevs (devices w))) \<and>
      (cstr name \<in> ref_vdevs (devices w) \<longrightarrow> r < 0)"
    using ref_ports.vdev_init [of name args "devices w"] by (auto simp: start_devices_def on_devices_def split: prod.splits)
  show "rte_vdev_uninit start_devices name w = (r, w') \<Longrightarrow>
      ref_vdevs (devices w') = (if r = 0 then ref_vdevs (devices w) - {cstr name} else ref_vdevs (devices w))"
    using ref_ports.vdev_uninit [of name "devices w"] by (auto simp: start_devices_def on_devices_def split: prod.splits)
qed (auto simp: start_devices_def on_devices_def ref_eth_def nul_term_def split: if_splits prod.splits)

definition start_lib :: "start_world start_api" where
  "start_lib =
     \<lparr>rte_eal_init = (\<lambda>w. (0, w)), rte_pktmbuf_pool_create = (\<lambda>w. (Some 1, w)), calloc_succeeds = (\<lambda>w. True),
      eth_of = start_devices, af_packet = False,
      getenv = (\<lambda>v. if v = ''DPDK_PORT_IN'' then Some (c_lit ''eth0'') else if v = ''DPDK_PORT_OUT'' then Some (c_lit ''eth1'') else None)\<rparr>"

text \<open>An empty file; the arguments are what new memory for a node holds.\<close>

definition start_store :: "node_cache_ip \<Rightarrow> node_cache_domain \<Rightarrow> ('w, db_row list, db_query) store_api" where
  "start_store ni nd =
     \<lparr>sqlite_of = ref_reader,
      ip_mem = \<lparr>heap_node = (\<lambda>_. ni), stack_key = (\<lambda>_. zero_ip_key), snapshot_block = (\<lambda>n w. None)\<rparr>,
      dns_mem = \<lparr>heap_node = (\<lambda>_. nd), stack_key = (\<lambda>_. []), snapshot_block = (\<lambda>n w. None)\<rparr>\<rparr>"

abbreviation (input) zero_store :: "(start_world, db_row list, db_query) store_api" where
  "zero_store \<equiv> start_store zero_node_ip zero_node_domain"

lemma start_store_memory: "memory_ok (dns_mem (start_store ni zero_node_domain))" "memory_ok (ip_mem (start_store zero_node_ip nd))"
  by (simp_all add: start_store_def memory_ok_def zero_node_domain_def zero_node_ip_def)

interpretation ref_start: start_env loop_env ref_live "ref_slots CACHE_SIZE" "ref_slots CACHE_SIZE" ref_os start_lib zero_store
    "\<lambda>w. ref_vdevs (devices w)" "\<lambda>db st. length (rest_rows st)" "\<lambda>_. True"
proof -
  have "start_env_axioms loop_env ref_live (ref_slots CACHE_SIZE) (ref_slots CACHE_SIZE) start_lib zero_store"
    using start_store_memory
    by (intro start_env_axioms.intro)
      (auto simp: loop_env_def ref_env_def start_lib_def start_store_def ref_reader_def split: if_splits
        intro: ref_creation.table_creation_axioms)
  moreover have "start_eth (eth_of start_lib) (\<lambda>w. ref_vdevs (devices w)) ref_live"
    using ref_start_eth.start_eth_axioms by (simp add: start_lib_def)
  moreover have "sqlite_reads (sqlite_of zero_store) (\<lambda>db st. length (rest_rows st)) (\<lambda>_. True)"
    using ref_reads.sqlite_reads_axioms by (simp add: start_store_def)
  ultimately show "start_env loop_env ref_live (ref_slots CACHE_SIZE) (ref_slots CACHE_SIZE) ref_os start_lib
      zero_store (\<lambda>w. ref_vdevs (devices w)) (\<lambda>db st. length (rest_rows st)) (\<lambda>_. True)"
    using ref_loop.worker_env_axioms by (intro start_env.intro)
qed

section \<open>The property\<close>


text \<open>A worker before its start, with the given object and copy of the policy.\<close>

definition start_state :: "worker \<Rightarrow> (start_world, (ip_key \<times> addr) list, (byte list \<times> addr) list, db_row list) proc_state" where
  "start_state wk =
     \<lparr>world = \<lparr>rw_live = [], rw_clock = 100, devices = []\<rparr>, ports = (\<lambda>_. zero_port), mbufs = Map.empty, sent = [], freed = [],
      instance_of = Some wk,
      ip_state = \<lparr>cache_hash = None, cache_table = None, cache_spinlock = False, cache_nodes = Map.empty, cache_keys = Map.empty, save_timer = None\<rparr>,
      dns_state = \<lparr>cache_hash = None, cache_table = None, cache_spinlock = False, cache_nodes = Map.empty, cache_keys = Map.empty, save_timer = None\<rparr>\<rparr>"

definition start_object ::
  "worker \<Rightarrow> BASE_POLICY \<Rightarrow> (start_world, (ip_key \<times> addr) list, (byte list \<times> addr) list, db_row list, nat \<times> (addr \<Rightarrow> real)) object" where
  "start_object wk policy =
     \<lparr>loop = \<lparr>proc = start_state wk, stop_flag = False, state_log = [], metrics_collector = None, prom_state = (8, \<lambda>_. 0),
        local_policy = policy, last_policy_time = 0, policy_interval = MIN_POLICY_TIME, last_metrics_push_time = 0,
        timer_check_counter = 0, pending_requests = 0, pending_saves = []\<rparr>, ptr_in = None, ptr_out = None, ptr_exception = None\<rparr>"

lemma start_object_up:
  "case initDPDK loop_env start_lib (start_store ni nd) sample_addrs (start_object wk policy) of Some (Inr (Normal y)) \<Rightarrow> True | _ \<Rightarrow> False"
  by code_simp


end
